(* ===== verification/Tril_Prelude.thy ===== *)
theory Tril_Prelude
  imports Main "HOL-Library.Word" "HOL-Library.Char_ord" "HOL-Library.List_Lexorder"
    "HOL-Library.Finite_Map" "HOL-Library.Sublist" "HOL-Library.Multiset"
begin

text \<open>
  Shared vocabulary of the development: Rust's \<open>Result\<close> as a sum type with the
  combinators the node uses, checked and saturating machine arithmetic, big-endian integers,
  and the generic lemmas on lists and finite maps the component theories share.

  Conventions. \<open>u8\<close>, \<open>u32\<close> and \<open>u64\<close> are machine words.  \<open>usize\<close> values of the source are
  lengths and positions inside allocated vectors, which Rust bounds by \<open>isize::MAX\<close>; no sum
  of them that the modelled code forms can overflow on a 64-bit target, so they are \<open>nat\<close>.
  A \<open>HashMap\<close> or \<open>BTreeMap\<close> is a finite map (\<open>fmap\<close>); where the source iterates over a
  \<open>HashMap\<close> the model iterates over its keys in ascending order and a lemma shows that the
  order does not matter.  A method taking \<open>&mut self\<close> returns the new value of \<open>self\<close> next
  to its result, on the error paths too.
\<close>

named_theorems res_simps \<open>rewriting of result combinators\<close>
named_theorems res_dests \<open>elimination of successful results\<close>
named_theorems word_arith \<open>checked and saturating arithmetic, read as natural numbers\<close>

type_synonym u8 = "8 word"
type_synonym u16 = "16 word"
type_synonym u32 = "32 word"
type_synonym u64 = "64 word"
type_synonym bytes = "8 word list"

section \<open>Results\<close>

text \<open>\<open>Inl e\<close> is \<open>Err(e)\<close> and \<open>Inr x\<close> is \<open>Ok(x)\<close>.\<close>

definition and_then :: "'e + 'a \<Rightarrow> ('a \<Rightarrow> 'e + 'b) \<Rightarrow> 'e + 'b" where
  "and_then r f = (case r of Inl e \<Rightarrow> Inl e | Inr a \<Rightarrow> f a)"

definition map_err :: "('e \<Rightarrow> 'f) \<Rightarrow> 'e + 'a \<Rightarrow> 'f + 'a" where
  "map_err f r = (case r of Inl e \<Rightarrow> Inl (f e) | Inr a \<Rightarrow> Inr a)"

definition ok_or :: "'e \<Rightarrow> 'a option \<Rightarrow> 'e + 'a" where
  "ok_or e x = (case x of None \<Rightarrow> Inl e | Some a \<Rightarrow> Inr a)"

text \<open>A loop of checks \<open>for x in xs { f(x)?; }\<close>.\<close>

primrec check_all :: "('a \<Rightarrow> 'e + unit) \<Rightarrow> 'a list \<Rightarrow> 'e + unit" where
  "check_all f [] = Inr ()"
| "check_all f (x # xs) = and_then (f x) (\<lambda>_. check_all f xs)"

text \<open>\<open>Iterator::try_fold\<close>.\<close>

primrec try_fold :: "('s \<Rightarrow> 'a \<Rightarrow> 'e + 's) \<Rightarrow> 's \<Rightarrow> 'a list \<Rightarrow> 'e + 's" where
  "try_fold f s [] = Inr s"
| "try_fold f s (x # xs) = and_then (f s x) (\<lambda>s'. try_fold f s' xs)"

text \<open>
  The loop \<open>for x in xs { s.step(x)?; }\<close> over a mutable \<open>s\<close>: it stops at the first error and
  leaves what the steps so far, and the failing step, have made of \<open>s\<close>.
\<close>

fun run_steps :: "('s \<Rightarrow> 'a \<Rightarrow> 's \<times> ('e + unit)) \<Rightarrow> 's \<Rightarrow> 'a list \<Rightarrow> 's \<times> ('e + unit)" where
  "run_steps f s [] = (s, Inr ())"
| "run_steps f s (x # xs) =
    (case f s x of (s', Inl e) \<Rightarrow> (s', Inl e) | (s', Inr _) \<Rightarrow> run_steps f s' xs)"

lemma and_then_simps [simp, res_simps]:
  "and_then (Inl e) f = Inl e" "and_then (Inr a) f = f a"
  by (simp_all add: and_then_def)

lemma and_then_cong [fundef_cong]:
  "r = r' \<Longrightarrow> (\<And>a. r' = Inr a \<Longrightarrow> f a = g a) \<Longrightarrow> and_then r f = and_then r' g"
  by (cases r') simp_all

lemma and_then_Inr_iff [res_dests]:
  "and_then r f = Inr b \<longleftrightarrow> (\<exists>a. r = Inr a \<and> f a = Inr b)"
  by (cases r) simp_all

lemma and_then_Inl_iff:
  "and_then r f = Inl e \<longleftrightarrow> r = Inl e \<or> (\<exists>a. r = Inr a \<and> f a = Inl e)"
  by (cases r) simp_all

lemma map_err_simps [simp, res_simps]:
  "map_err f (Inl e) = Inl (f e)" "map_err f (Inr a) = Inr a"
  by (simp_all add: map_err_def)

lemma map_err_Inr_iff [simp, res_dests]: "map_err f r = Inr a \<longleftrightarrow> r = Inr a"
  by (cases r) simp_all

lemma ok_or_simps [simp, res_simps]: "ok_or e None = Inl e" "ok_or e (Some a) = Inr a"
  by (simp_all add: ok_or_def)

lemma ok_or_Inr_iff [simp, res_dests]: "ok_or e x = Inr a \<longleftrightarrow> x = Some a"
  by (cases x) simp_all

lemma check_all_ok [simp]: "check_all f xs = Inr () \<longleftrightarrow> (\<forall>x \<in> set xs. f x = Inr ())"
  by (induction xs) (auto simp: and_then_Inr_iff)

lemma check_all_err:
  "check_all f xs = Inl e \<Longrightarrow> \<exists>ys x zs. xs = ys @ x # zs \<and> check_all f ys = Inr () \<and> f x = Inl e"
proof (induction xs)
  case Nil
  then show ?case by simp
next
  case (Cons a xs)
  show ?case
  proof (cases "f a")
    case (Inl e')
    with Cons.prems have "a # xs = [] @ a # xs \<and> check_all f [] = Inr () \<and> f a = Inl e" by simp
    then show ?thesis by blast
  next
    case (Inr u)
    with Cons obtain ys x zs
      where "xs = ys @ x # zs" "check_all f ys = Inr ()" "f x = Inl e" by auto
    with Inr have "a # xs = (a # ys) @ x # zs \<and> check_all f (a # ys) = Inr () \<and> f x = Inl e"
      by simp
    then show ?thesis by blast
  qed
qed

lemma try_fold_append [simp]:
  "try_fold f s (xs @ ys) = and_then (try_fold f s xs) (\<lambda>s'. try_fold f s' ys)"
proof (induction xs arbitrary: s)
  case (Cons x xs)
  then show ?case by (cases "f s x") simp_all
qed simp

lemma try_fold_cong [fundef_cong]:
  assumes "s = s'" "xs = ys" "\<And>t x. x \<in> set ys \<Longrightarrow> f t x = g t x"
  shows "try_fold f s xs = try_fold g s' ys"
  using assms by (induction ys arbitrary: s s' xs) (auto intro!: and_then_cong)

lemma run_steps_append:
  "run_steps f s (xs @ ys) =
    (case run_steps f s xs of (s', Inl e) \<Rightarrow> (s', Inl e) | (s', Inr _) \<Rightarrow> run_steps f s' ys)"
  by (induction f s xs rule: run_steps.induct) (auto split: prod.splits sum.splits)

lemma run_steps_Cons_ok:
  "run_steps f s (x # xs) = (t, Inr ()) \<longleftrightarrow>
     (\<exists>s'. f s x = (s', Inr ()) \<and> run_steps f s' xs = (t, Inr ()))"
  by (auto split: prod.splits sum.splits)

lemma run_steps_append_ok:
  "run_steps f s (xs @ ys) = (t, Inr ()) \<longleftrightarrow>
     (\<exists>s'. run_steps f s xs = (s', Inr ()) \<and> run_steps f s' ys = (t, Inr ()))"
  by (auto simp: run_steps_append split: prod.splits sum.splits)

lemma case_run_Inr [simp]:
  "(case p of (_, Inl e) \<Rightarrow> Inl e | (s', Inr _) \<Rightarrow> Inr s') = Inr s \<longleftrightarrow> p = (s, Inr ())"
  by (cases p; cases "snd p") auto

lemma run_steps_concat:
  "run_steps (\<lambda>s x. run_steps f s (g x)) s xs = run_steps f s (concat (map g xs))"
proof (induction xs arbitrary: s)
  case (Cons x xs)
  then show ?case by (simp add: run_steps_append split: prod.split sum.split)
qed simp

section \<open>Machine arithmetic\<close>

definition checked_add :: "'a::len word \<Rightarrow> 'a word \<Rightarrow> 'a word option" where
  "checked_add a b = (if unat a + unat b < 2 ^ LENGTH('a) then Some (a + b) else None)"

definition checked_sub :: "'a::len word \<Rightarrow> 'a word \<Rightarrow> 'a word option" where
  "checked_sub a b = (if b \<le> a then Some (a - b) else None)"

definition saturating_add :: "'a::len word \<Rightarrow> 'a word \<Rightarrow> 'a word" where
  "saturating_add a b = (if unat a + unat b < 2 ^ LENGTH('a) then a + b else - 1)"

definition saturating_sub :: "'a::len word \<Rightarrow> 'a word \<Rightarrow> 'a word" where
  "saturating_sub a b = (if b \<le> a then a - b else 0)"

definition saturating_mul :: "'a::len word \<Rightarrow> 'a word \<Rightarrow> 'a word" where
  "saturating_mul a b = (if unat a * unat b < 2 ^ LENGTH('a) then a * b else - 1)"

lemma unat_bound: "unat w < 2 ^ LENGTH('a)" for w :: "'a::len word"
  by (rule unsigned_less)

lemma unat_plus_no_overflow:
  "unat a + unat b < 2 ^ LENGTH('a) \<Longrightarrow> unat (a + b) = unat a + unat (b :: 'a::len word)"
  by (simp add: unat_word_ariths)

lemma checked_add_Some_iff [word_arith]:
  "checked_add a b = Some c \<longleftrightarrow> unat a + unat b < 2 ^ LENGTH('a) \<and> c = a + b"
  for a b c :: "'a::len word"
  by (auto simp: checked_add_def)

lemma checked_add_None_iff [word_arith]:
  "checked_add a b = None \<longleftrightarrow> 2 ^ LENGTH('a) \<le> unat a + unat b"
  for a b :: "'a::len word"
  by (auto simp: checked_add_def)

lemma unat_checked_add: "checked_add a b = Some c \<Longrightarrow> unat c = unat a + unat b"
  by (simp add: checked_add_Some_iff unat_plus_no_overflow)

text \<open>Evaluation of checked and saturating addition without large natural numbers.\<close>

lemma add_no_overflow_iff: "unat a + unat b < 2 ^ LENGTH('a) \<longleftrightarrow> a \<le> a + b" for a b :: "'a::len word"
  using no_olen_add_nat [of a b] by (simp add: word_le_nat_alt)

lemma checked_add_code [code]: "checked_add a b = (let c = a + b in if a \<le> c then Some c else None)"
  by (simp add: checked_add_def add_no_overflow_iff Let_def)

lemma saturating_add_code [code]: "saturating_add a b = (let c = a + b in if a \<le> c then c else - 1)"
  by (simp add: saturating_add_def add_no_overflow_iff Let_def)

lemma checked_sub_Some_iff [word_arith]: "checked_sub a b = Some c \<longleftrightarrow> b \<le> a \<and> c = a - b"
  by (auto simp: checked_sub_def)

lemma unat_checked_sub: "checked_sub a b = Some c \<Longrightarrow> unat c = unat a - unat b"
  by (auto simp: checked_sub_def unat_sub split: if_splits)

lemma unat_saturating_add:
  "unat (saturating_add a b) = min (unat a + unat b) (2 ^ LENGTH('a) - 1)" for a b :: "'a::len word"
  by (auto simp: saturating_add_def unat_plus_no_overflow unsigned_minus_1_eq_mask mask_eq_exp_minus_1)

lemma unat_saturating_sub: "unat (saturating_sub a b) = unat a - unat b"
  by (auto simp: saturating_sub_def unat_sub word_le_nat_alt)

lemma unat_saturating_mul:
  "unat (saturating_mul a b) = min (unat a * unat b) (2 ^ LENGTH('a) - 1)" for a b :: "'a::len word"
  by (auto simp: saturating_mul_def unat_word_ariths unsigned_minus_1_eq_mask mask_eq_exp_minus_1)

lemmas unat_arith_simps [word_arith] =
  unat_plus_no_overflow unat_saturating_add unat_saturating_sub unat_saturating_mul

section \<open>Big-endian integers\<close>

text \<open>\<open>to_be_bytes\<close> and \<open>from_be_bytes\<close> for an integer of \<open>n\<close> bytes.\<close>

primrec nat_to_be :: "nat \<Rightarrow> nat \<Rightarrow> bytes" where
  "nat_to_be 0 k = []"
| "nat_to_be (Suc n) k = nat_to_be n (k div 256) @ [word_of_nat (k mod 256)]"

definition be_to_nat :: "bytes \<Rightarrow> nat" where
  "be_to_nat bs = foldl (\<lambda>acc b. acc * 256 + unat b) 0 bs"

lemma be_to_nat_Nil [simp]: "be_to_nat [] = 0"
  by (simp add: be_to_nat_def)

lemma be_to_nat_snoc [simp]: "be_to_nat (bs @ [b]) = be_to_nat bs * 256 + unat b"
  by (simp add: be_to_nat_def)

lemma length_nat_to_be [simp]: "length (nat_to_be n k) = n"
  by (induction n arbitrary: k) simp_all

lemma unat_byte_of_nat [simp]: "unat (word_of_nat (k mod 256) :: u8) = k mod 256"
  by (simp add: unat_of_nat)

lemma be_to_nat_to_be [simp]: "be_to_nat (nat_to_be n k) = k mod 256 ^ n"
proof (induction n arbitrary: k)
  case (Suc n)
  then show ?case by (simp add: mod_mult2_eq mult.commute)
qed simp

lemma unat_byte_less [simp]: "unat (b :: u8) < 256"
  using unat_bound [of b] by simp

lemma nat_to_be_be_to_nat: "length bs = n \<Longrightarrow> nat_to_be n (be_to_nat bs) = bs"
proof (induction n arbitrary: bs)
  case (Suc n)
  from Suc.prems obtain ys b where "bs = ys @ [b]" "length ys = n"
    by (metis length_Suc_conv_rev)
  with Suc.IH [of ys] show ?case by simp
qed simp

lemma be_to_nat_less: "be_to_nat bs < 256 ^ length bs"
  using be_to_nat_to_be [of "length bs" "be_to_nat bs"] nat_to_be_be_to_nat [OF refl, of bs]
  by (metis mod_less_divisor zero_less_numeral zero_less_power)

definition u16_to_be :: "u16 \<Rightarrow> bytes" where "u16_to_be w = nat_to_be 2 (unat w)"
definition u32_to_be :: "u32 \<Rightarrow> bytes" where "u32_to_be w = nat_to_be 4 (unat w)"
definition u64_to_be :: "u64 \<Rightarrow> bytes" where "u64_to_be w = nat_to_be 8 (unat w)"
definition u16_of_be :: "bytes \<Rightarrow> u16" where "u16_of_be bs = word_of_nat (be_to_nat bs)"
definition u32_of_be :: "bytes \<Rightarrow> u32" where "u32_of_be bs = word_of_nat (be_to_nat bs)"
definition u64_of_be :: "bytes \<Rightarrow> u64" where "u64_of_be bs = word_of_nat (be_to_nat bs)"

lemma length_to_be [simp]:
  "length (u16_to_be w) = 2" "length (u32_to_be v) = 4" "length (u64_to_be x) = 8"
  by (simp_all add: u16_to_be_def u32_to_be_def u64_to_be_def)

lemma u32_to_be_nonempty [simp]: "u32_to_be w \<noteq> []"
  by (metis length_to_be(2) list.size(3) zero_neq_numeral)

lemma of_be_to_be [simp]:
  "u16_of_be (u16_to_be w) = w" "u32_of_be (u32_to_be v) = v" "u64_of_be (u64_to_be x) = x"
  using unat_bound [of w] unat_bound [of v] unat_bound [of x]
  by (simp_all add: u16_to_be_def u32_to_be_def u64_to_be_def
      u16_of_be_def u32_of_be_def u64_of_be_def)

lemma unat_of_be:
  "length bs = 2 \<Longrightarrow> unat (u16_of_be bs) = be_to_nat bs"
  "length bs = 4 \<Longrightarrow> unat (u32_of_be bs) = be_to_nat bs"
  "length bs = 8 \<Longrightarrow> unat (u64_of_be bs) = be_to_nat bs"
  using be_to_nat_less [of bs]
  by (simp_all add: u16_of_be_def u32_of_be_def u64_of_be_def unat_of_nat)

lemma to_be_of_be [simp]:
  "length bs = 2 \<Longrightarrow> u16_to_be (u16_of_be bs) = bs"
  "length bs = 4 \<Longrightarrow> u32_to_be (u32_of_be bs) = bs"
  "length bs = 8 \<Longrightarrow> u64_to_be (u64_of_be bs) = bs"
  by (simp_all add: u16_to_be_def u32_to_be_def u64_to_be_def unat_of_be nat_to_be_be_to_nat)

text \<open>\<open>u32::try_from(usize)\<close>.\<close>

definition u32_try_from :: "nat \<Rightarrow> u32 option" where
  "u32_try_from n = (if n < 2 ^ 32 then Some (word_of_nat n) else None)"

lemma u32_try_from_Some [simp]: "u32_try_from n = Some w \<longleftrightarrow> n < 2 ^ 32 \<and> w = word_of_nat n"
  by (auto simp: u32_try_from_def)

lemma unat_u32_of_nat [simp]: "n < 4294967296 \<Longrightarrow> unat (word_of_nat n :: u32) = n"
  by (simp add: unat_of_nat)

section \<open>Lists and finite maps\<close>

lemma distinct_snoc_iff: "distinct (xs @ [x]) \<longleftrightarrow> distinct xs \<and> x \<notin> set xs"
  by auto

lemma split_at_separator_right:
  "xs @ c # ys = xs' @ c # ys' \<Longrightarrow> c \<notin> set ys \<Longrightarrow> c \<notin> set ys' \<Longrightarrow> xs = xs' \<and> ys = ys'"
proof (induction xs arbitrary: xs')
  case Nil
  then show ?case by (cases xs') auto
next
  case (Cons a xs)
  then show ?case by (cases xs') auto
qed

lemma split_at_separator_left:
  "xs @ c # ys = xs' @ c # ys' \<Longrightarrow> c \<notin> set xs \<Longrightarrow> c \<notin> set xs' \<Longrightarrow> xs = xs' \<and> ys = ys'"
proof (induction xs arbitrary: xs')
  case Nil
  then show ?case by (cases xs') auto
next
  case (Cons a xs)
  then show ?case by (cases xs') auto
qed

lemma fmupd_overwrite [simp]: "fmupd k v (fmupd k w m) = fmupd k v m"
  by (rule fmap_ext) simp

lemma fmupd_triv: "fmlookup m k = Some v \<Longrightarrow> fmupd k v m = m"
  by (rule fmap_ext) auto

lemma subseq_set: "subseq xs ys \<Longrightarrow> set xs \<subseteq> set ys"
  by (auto simp: subseq_conv_nths dest: in_set_nthsD)

lemma subseq_distinct: "subseq xs ys \<Longrightarrow> distinct ys \<Longrightarrow> distinct xs"
  by (auto simp: subseq_conv_nths)

text \<open>\<open>BTreeMap::is_empty\<close>.\<close>

definition fm_is_empty :: "('k, 'v) fmap \<Rightarrow> bool" where
  "fm_is_empty m \<longleftrightarrow> fmdom m = {||}"

lemma fm_is_empty_iff [simp]: "fm_is_empty m \<longleftrightarrow> m = fmempty"
  unfolding fm_is_empty_def by (metis fmdom_empty fmrestrict_fset_dom fmrestrict_fset_null)

lemma fmdom'_fset: "x |\<in>| fmdom m \<longleftrightarrow> fmlookup m x \<noteq> None"
  by (auto simp: fmlookup_dom_iff)

section \<open>Files\<close>

text \<open>
  \<open>fs::write\<close> on a file, \<open>None\<close> if it does not exist: it opens and truncates the file and writes the
  data; a write that fails leaves a prefix.
\<close>

datatype write_outcome = Write_Ok | Open_Failed string | Write_Failed string nat

fun fs_write :: "write_outcome \<Rightarrow> 'a list \<Rightarrow> 'a list option \<Rightarrow> 'a list option \<times> (string + unit)" where
  "fs_write Write_Ok data contents = (Some data, Inr ())"
| "fs_write (Open_Failed e) data contents = (contents, Inl e)"
| "fs_write (Write_Failed e k) data contents = (Some (take k data), Inl e)"

lemma fs_write_ok: "fs_write w data contents = (f, Inr ()) \<longleftrightarrow> w = Write_Ok \<and> f = Some data"
  by (cases w) auto

section \<open>State machines\<close>

text \<open>
  What a step relation promises: every step keeps an invariant and relates the old state to the new
  one by an order.  Then so does every run.
\<close>

locale stepwise =
  fixes step :: "'s \<Rightarrow> 's \<Rightarrow> bool" and inv :: "'s \<Rightarrow> bool" and ord :: "'s \<Rightarrow> 's \<Rightarrow> bool"
  assumes ord_refl: "ord s s"
    and ord_trans: "ord s t \<Longrightarrow> ord t u \<Longrightarrow> ord s u"
    and keeps: "step s t \<Longrightarrow> inv s \<Longrightarrow> inv t \<and> ord s t"
begin

lemma run_keeps: "step\<^sup>*\<^sup>* s t \<Longrightarrow> inv s \<Longrightarrow> inv t \<and> ord s t"
  by (induction rule: rtranclp_induct) (use ord_refl ord_trans keeps in \<open>blast+\<close>)

end

end
