(* ===== verification/Rust_Strings.thy ===== *)
theory Rust_Strings
  imports Tril_Prelude
begin

text \<open>
  Rust strings.  A \<open>String\<close> is a vector of bytes that is valid UTF-8; the model is HOL's
  \<open>string\<close>, whose characters are bytes, so \<open>len()\<close> is \<open>length\<close> and \<open>Ord\<close> is the
  lexicographic order of HOL-Library.  This theory has what the node uses of the standard
  library on strings: \<open>as_bytes\<close>, \<open>String::from_utf8\<close>, \<open>trim\<close>, decimal formatting of
  unsigned integers and \<open>join\<close>, with the facts that make separator-joined records readable.
\<close>

section \<open>Bytes and UTF-8\<close>

definition byte_of_char :: "char \<Rightarrow> u8" where
  "byte_of_char c = word_of_nat (of_char c)"

definition char_of_byte :: "u8 \<Rightarrow> char" where
  "char_of_byte b = char_of (unat b)"

definition as_bytes :: "string \<Rightarrow> bytes" where
  "as_bytes s = map byte_of_char s"

definition string_of_bytes :: "bytes \<Rightarrow> string" where
  "string_of_bytes bs = map char_of_byte bs"

lemma unat_byte_of_char [simp]: "unat (byte_of_char c) = of_char c"
  by (simp add: byte_of_char_def unat_of_nat)

lemma char_byte_inverse [simp]: "char_of_byte (byte_of_char c) = c"
  by (simp add: char_of_byte_def)

lemma byte_char_inverse [simp]: "byte_of_char (char_of_byte b) = b"
  by (simp add: char_of_byte_def byte_of_char_def)

lemma string_of_as_bytes [simp]: "string_of_bytes (as_bytes s) = s"
  by (simp add: string_of_bytes_def as_bytes_def comp_def)

lemma as_bytes_of_string [simp]: "as_bytes (string_of_bytes bs) = bs"
  by (simp add: string_of_bytes_def as_bytes_def comp_def)

lemma length_as_bytes [simp]: "length (as_bytes s) = length s"
  by (simp add: as_bytes_def)

lemma length_string_of_bytes [simp]: "length (string_of_bytes bs) = length bs"
  by (simp add: string_of_bytes_def)

lemma as_bytes_append [simp]: "as_bytes (s @ t) = as_bytes s @ as_bytes t"
  by (simp add: as_bytes_def)

lemma as_bytes_Nil [simp]: "as_bytes [] = []"
  by (simp add: as_bytes_def)

lemma as_bytes_eq_iff [simp]: "as_bytes s = as_bytes t \<longleftrightarrow> s = t"
  by (metis string_of_as_bytes)

text \<open>The well-formed byte sequences of UTF-8, as \<open>core::str::from_utf8\<close> checks them.\<close>

definition utf8_cont :: "u8 \<Rightarrow> bool" where
  "utf8_cont b \<longleftrightarrow> 0x80 \<le> b \<and> b \<le> 0xBF"

fun utf8_valid :: "bytes \<Rightarrow> bool" where
  "utf8_valid [] = True"
| "utf8_valid (b # bs) =
    (if b < 0x80 then utf8_valid bs
     else if 0xC2 \<le> b \<and> b \<le> 0xDF then
       (case bs of c # r \<Rightarrow> utf8_cont c \<and> utf8_valid r | [] \<Rightarrow> False)
     else if 0xE0 \<le> b \<and> b \<le> 0xEF then
       (case bs of c # d # r \<Rightarrow>
           (if b = 0xE0 then 0xA0 \<le> c \<and> c \<le> 0xBF
            else if b = 0xED then 0x80 \<le> c \<and> c \<le> 0x9F else utf8_cont c)
           \<and> utf8_cont d \<and> utf8_valid r
         | _ \<Rightarrow> False)
     else if 0xF0 \<le> b \<and> b \<le> 0xF4 then
       (case bs of c # d # e # r \<Rightarrow>
           (if b = 0xF0 then 0x90 \<le> c \<and> c \<le> 0xBF
            else if b = 0xF4 then 0x80 \<le> c \<and> c \<le> 0x8F else utf8_cont c)
           \<and> utf8_cont d \<and> utf8_cont e \<and> utf8_valid r
         | _ \<Rightarrow> False)
     else False)"

definition from_utf8 :: "bytes \<Rightarrow> string option" where
  "from_utf8 bs = (if utf8_valid bs then Some (string_of_bytes bs) else None)"

text \<open>The type invariant of a Rust \<open>String\<close>.\<close>

definition rust_string :: "string \<Rightarrow> bool" where
  "rust_string s \<longleftrightarrow> utf8_valid (as_bytes s)"

lemma from_utf8_as_bytes [simp]: "rust_string s \<Longrightarrow> from_utf8 (as_bytes s) = Some s"
  by (simp add: from_utf8_def rust_string_def)

lemma from_utf8_Some_iff: "from_utf8 bs = Some s \<longleftrightarrow> bs = as_bytes s \<and> rust_string s"
  by (auto simp: from_utf8_def rust_string_def)

definition ascii :: "char \<Rightarrow> bool" where
  "ascii c \<longleftrightarrow> byte_of_char c < 0x80"

lemma ascii_rust_string: "\<forall>c \<in> set s. ascii c \<Longrightarrow> rust_string s"
  unfolding rust_string_def as_bytes_def by (induction s) (auto simp: ascii_def)

section \<open>Trimming white space\<close>

text \<open>The UTF-8 encodings of the 25 characters with Unicode property \<open>White_Space\<close>.\<close>

definition ws_chars :: "bytes list" where
  "ws_chars = [[0x09], [0x0A], [0x0B], [0x0C], [0x0D], [0x20],
     [0xC2, 0x85], [0xC2, 0xA0], [0xE1, 0x9A, 0x80],
     [0xE2, 0x80, 0x80], [0xE2, 0x80, 0x81], [0xE2, 0x80, 0x82], [0xE2, 0x80, 0x83],
     [0xE2, 0x80, 0x84], [0xE2, 0x80, 0x85], [0xE2, 0x80, 0x86], [0xE2, 0x80, 0x87],
     [0xE2, 0x80, 0x88], [0xE2, 0x80, 0x89], [0xE2, 0x80, 0x8A],
     [0xE2, 0x80, 0xA8], [0xE2, 0x80, 0xA9], [0xE2, 0x80, 0xAF], [0xE2, 0x81, 0x9F],
     [0xE3, 0x80, 0x80]]"

lemma ws_chars_nonempty: "w \<in> set ws_chars \<Longrightarrow> w \<noteq> []"
  by (auto simp: ws_chars_def)

lemma find_ws_Some:
  "find P ws_chars = Some w \<Longrightarrow> w \<noteq> [] \<and> P w"
  using ws_chars_nonempty by (auto simp: find_Some_iff in_set_conv_nth)

function trim_start :: "bytes \<Rightarrow> bytes" where
  "trim_start bs = (case find (\<lambda>w. prefix w bs) ws_chars of
     None \<Rightarrow> bs | Some w \<Rightarrow> trim_start (drop (length w) bs))"
  by pat_completeness auto
termination
  by (relation "measure length") (auto dest!: find_ws_Some simp: prefix_def)

function trim_end :: "bytes \<Rightarrow> bytes" where
  "trim_end bs = (case find (\<lambda>w. suffix w bs) ws_chars of
     None \<Rightarrow> bs | Some w \<Rightarrow> trim_end (take (length bs - length w) bs))"
  by pat_completeness auto
termination
  by (relation "measure length") (auto dest!: find_ws_Some simp: suffix_def)

declare trim_start.simps [simp del] trim_end.simps [simp del]

definition trim :: "string \<Rightarrow> string" where
  "trim s = string_of_bytes (trim_end (trim_start (as_bytes s)))"

text \<open>A string that starts and ends with visible ASCII characters is its own trimming.\<close>

definition visible :: "char \<Rightarrow> bool" where
  "visible c \<longleftrightarrow> 0x21 \<le> byte_of_char c \<and> byte_of_char c \<le> 0x7E"

lemma ws_chars_ends:
  "list_all (\<lambda>w. w \<noteq> [] \<and> \<not> (0x21 \<le> hd w \<and> hd w \<le> 0x7E) \<and> \<not> (0x21 \<le> last w \<and> last w \<le> 0x7E)) ws_chars"
  by (simp add: ws_chars_def)

lemma find_ws_None_hd:
  assumes "0x21 \<le> b" "b \<le> (0x7E :: u8)"
  shows "find (\<lambda>w. prefix w (b # bs)) ws_chars = None"
proof -
  have "\<not> prefix w (b # bs)" if "w \<in> set ws_chars" for w
    using that ws_chars_ends assms by (cases w rule: list.exhaust) (auto simp: list_all_iff)
  then show ?thesis by (auto simp: find_None_iff)
qed

lemma find_ws_None_last:
  assumes "0x21 \<le> b" "b \<le> (0x7E :: u8)"
  shows "find (\<lambda>w. suffix w (bs @ [b])) ws_chars = None"
proof -
  have "\<not> suffix w (bs @ [b])" if "w \<in> set ws_chars" for w
    using that ws_chars_ends assms by (cases w rule: rev_cases) (auto simp: list_all_iff)
  then show ?thesis by (auto simp: find_None_iff)
qed

lemma trim_start_visible: "0x21 \<le> b \<Longrightarrow> b \<le> 0x7E \<Longrightarrow> trim_start (b # bs) = b # bs"
  by (subst trim_start.simps) (simp add: find_ws_None_hd)

lemma trim_end_visible: "0x21 \<le> b \<Longrightarrow> b \<le> 0x7E \<Longrightarrow> trim_end (bs @ [b]) = bs @ [b]"
  by (subst trim_end.simps, subst find_ws_None_last) simp_all

lemma trim_visible:
  assumes "s \<noteq> []" "visible (hd s)" "visible (last s)"
  shows "trim s = s"
proof -
  from assms(1) have hd: "as_bytes s = byte_of_char (hd s) # as_bytes (tl s)"
    by (cases s) (simp_all add: as_bytes_def)
  from assms(1) have last: "as_bytes s = as_bytes (butlast s) @ [byte_of_char (last s)]"
    by (induction s) (auto simp: as_bytes_def)
  have "trim_start (as_bytes s) = as_bytes s"
    using assms(2) unfolding hd visible_def by (simp add: trim_start_visible)
  moreover have "trim_end (as_bytes s) = as_bytes s"
    using assms(3) unfolding last visible_def by (simp add: trim_end_visible)
  ultimately show ?thesis by (simp add: trim_def)
qed

lemma trim_start_Nil [simp]: "trim_start [] = []"
  by (subst trim_start.simps) (simp add: ws_chars_def)

lemma trim_end_Nil [simp]: "trim_end [] = []"
  by (subst trim_end.simps) (simp add: ws_chars_def)

lemma trim_Nil [simp]: "trim [] = []"
  by (simp add: trim_def string_of_bytes_def)

section \<open>Decimal formatting\<close>

definition digit :: "nat \<Rightarrow> char" where
  "digit d = ''0123456789'' ! d"

definition is_digit :: "char \<Rightarrow> bool" where
  "is_digit c \<longleftrightarrow> 48 \<le> (of_char c :: nat) \<and> of_char c \<le> (57 :: nat)"

fun show_nat :: "nat \<Rightarrow> string" where
  "show_nat n = (if n < 10 then [digit n] else show_nat (n div 10) @ [digit (n mod 10)])"

declare show_nat.simps [simp del]

text \<open>\<open>format!("{}", n)\<close> for an unsigned word.\<close>

definition show_word :: "'a::len word \<Rightarrow> string" where
  "show_word w = show_nat (unat w)"

fun read_digits :: "nat \<Rightarrow> string \<Rightarrow> nat" where
  "read_digits acc [] = acc"
| "read_digits acc (c # cs) = read_digits (acc * 10 + (of_char c - 48)) cs"

lemma of_char_digit [simp]: "d < 10 \<Longrightarrow> of_char (digit d) = 48 + d"
proof -
  assume "d < 10"
  then have "d \<in> {0, 1, 2, 3, 4, 5, 6, 7, 8, 9}" by auto
  then show ?thesis by (elim insertE) (simp_all add: digit_def)
qed

lemma is_digit_digit: "d < 10 \<Longrightarrow> is_digit (digit d)"
  by (simp add: is_digit_def)

lemma show_nat_digits: "\<forall>c \<in> set (show_nat n). is_digit c"
proof (induction n rule: show_nat.induct)
  case (1 n)
  then show ?case
    by (subst show_nat.simps) (auto simp: is_digit_digit)
qed

lemma show_nat_nonempty [simp]: "show_nat n \<noteq> []"
  by (subst show_nat.simps) simp

lemma read_digits_append: "read_digits acc (s @ t) = read_digits (read_digits acc s) t"
  by (induction s arbitrary: acc) simp_all

lemma read_show_nat: "read_digits 0 (show_nat n) = n"
proof (induction n rule: show_nat.induct)
  case (1 n)
  then show ?case
    by (subst show_nat.simps) (simp add: read_digits_append)
qed

lemma show_nat_inject [simp]: "show_nat m = show_nat n \<longleftrightarrow> m = n"
  by (metis read_show_nat)

lemma show_word_inject [simp]: "show_word v = show_word w \<longleftrightarrow> v = w"
  by (simp add: show_word_def word_unat_eq_iff)

lemma show_word_digits: "c \<in> set (show_word w) \<Longrightarrow> is_digit c"
  using show_nat_digits by (auto simp: show_word_def)

lemma show_word_nonempty [simp]: "show_word w \<noteq> []"
  by (simp add: show_word_def)

lemma length_show_nat: "n < 10 ^ Suc k \<Longrightarrow> length (show_nat n) \<le> Suc k"
proof (induction k arbitrary: n)
  case 0
  then show ?case by (subst show_nat.simps) simp
next
  case (Suc k)
  show ?case
  proof (cases "n < 10")
    case True
    then show ?thesis by (subst show_nat.simps) simp
  next
    case False
    from Suc.prems have "n div 10 < 10 ^ Suc k" by (simp add: less_mult_imp_div_less)
    with Suc.IH False show ?thesis by (subst show_nat.simps) simp
  qed
qed

lemma length_show_u64: "length (show_word (w :: u64)) \<le> 20"
proof -
  have "unat w < 10 ^ Suc 19" using unat_bound [of w] by simp
  then show ?thesis unfolding show_word_def using length_show_nat by fastforce
qed

lemma bar_not_digit [simp]: "\<not> is_digit CHR ''|''"
  by (simp add: is_digit_def)

lemma bar_not_in_show_word [simp]: "CHR ''|'' \<notin> set (show_word w)"
  using show_word_digits bar_not_digit by blast

text \<open>The dash in the texts the node writes, in UTF-8.\<close>

definition em_dash :: string where "em_dash = string_of_bytes [0xE2, 0x80, 0x94]"

section \<open>Joining\<close>

fun join :: "string \<Rightarrow> string list \<Rightarrow> string" where
  "join sep [] = []"
| "join sep [x] = x"
| "join sep (x # y # ys) = x @ sep @ join sep (y # ys)"

text \<open>
  Splitting at a separator character undoes \<open>join\<close> when no part holds the separator, except
  that one empty part and no part at all print alike.
\<close>

fun split_on :: "char \<Rightarrow> string \<Rightarrow> string list" where
  "split_on c [] = [[]]"
| "split_on c (x # xs) =
    (if x = c then [] # split_on c xs
     else (case split_on c xs of [] \<Rightarrow> [[x]] | p # ps \<Rightarrow> (x # p) # ps))"

lemma split_on_nonempty [simp]: "split_on c s \<noteq> []"
  by (induction s) (auto split: list.splits)

lemma split_on_no_sep: "c \<notin> set s \<Longrightarrow> split_on c s = [s]"
  by (induction s) auto

lemma split_on_part: "c \<notin> set s \<Longrightarrow> split_on c (s @ c # t) = s # split_on c t"
  by (induction s) auto

lemma split_on_append: "split_on c (s @ c # t) = split_on c s @ split_on c t"
  by (induction s) (auto split: list.splits)

lemma join_Cons: "ps \<noteq> [] \<Longrightarrow> join sep (p # ps) = p @ sep @ join sep ps"
  by (cases ps) simp_all

lemma join_split: "join [c] (split_on c s) = s"
proof (induction s)
  case (Cons x s)
  obtain p ps where ps: "split_on c s = p # ps"
    by (cases "split_on c s") simp_all
  with Cons.IH show ?case by (cases ps) (auto simp: join_Cons)
qed simp

lemma split_on_inject: "split_on c s = split_on c t \<longleftrightarrow> s = t"
  by (metis join_split)

lemma split_join:
  "xs \<noteq> [] \<Longrightarrow> \<forall>x \<in> set xs. c \<notin> set x \<Longrightarrow> split_on c (join [c] xs) = xs"
  by (induction "[c]" xs rule: join.induct) (auto simp: split_on_no_sep split_on_part)

lemma join_inject:
  assumes "join [c] xs = join [c] ys" "xs \<noteq> []" "ys \<noteq> []"
    "\<forall>x \<in> set xs. c \<notin> set x" "\<forall>y \<in> set ys. c \<notin> set y"
  shows "xs = ys"
  using assms split_join by metis

lemma join_eq_Nil:
  "\<forall>x \<in> set xs. x \<noteq> [] \<Longrightarrow> join sep xs = [] \<longleftrightarrow> xs = []"
  by (induction sep xs rule: join.induct) auto

end
