(* ===== verification/Crypto.thy ===== *)
theory Crypto
  imports Rust_Strings
begin

text \<open>
  \<open>types.rs\<close>, \<open>errors.rs\<close> and \<open>crypto.rs\<close>: addresses, accounts, protocol errors, and the
  wrappers around SHA-256, hexadecimal encoding and Ed25519.

  The packages \<open>sha2\<close>, \<open>hex\<close> and \<open>ed25519_dalek\<close> are not part of the repository.  They are a
  parameter of the model: a record \<open>crypto\<close> of functions, passed to every definition that
  reaches them.  What is relied on is stated by three predicates, each of them documented
  behaviour of the packages: \<open>digest_format\<close> (a digest has 32 bytes and prints as 64
  hexadecimal digits), \<open>hex_injective\<close> and \<open>signing_correct\<close> (a signature made with a key
  verifies under its public key).  The concrete instance \<open>toy_crypto\<close> shows that they can hold
  together and serves to evaluate examples.

  Error messages keep the literal text of the source; interpolated diagnostics (debug-printed
  values, operating-system errors) are left out.
\<close>

section \<open>Addresses and accounts\<close>

datatype address = Address (str: string)

instantiation address :: linorder
begin

definition less_eq_address :: "address \<Rightarrow> address \<Rightarrow> bool" where
  "a \<le> b \<longleftrightarrow> str a \<le> str b"

definition less_address :: "address \<Rightarrow> address \<Rightarrow> bool" where
  "a < b \<longleftrightarrow> str a < str b"

instance
proof
  fix x y z :: address
  show "(x < y) = (x \<le> y \<and> \<not> y \<le> x)"
    by (auto simp: less_eq_address_def less_address_def)
  show "x \<le> x" by (simp add: less_eq_address_def)
  show "x \<le> y \<Longrightarrow> y \<le> z \<Longrightarrow> x \<le> z" by (simp add: less_eq_address_def)
  show "x \<le> y \<Longrightarrow> y \<le> x \<Longrightarrow> x = y"
    by (simp add: less_eq_address_def address.expand)
  show "x \<le> y \<or> y \<le> x" by (auto simp: less_eq_address_def)
qed

end

definition address_is_valid :: "address \<Rightarrow> bool" where
  "address_is_valid a \<longleftrightarrow> trim (str a) \<noteq> [] \<and> length (str a) \<le> 128"

record account =
  acc_address :: address
  balance :: u64
  acc_nonce :: u64

definition account_new :: "address \<Rightarrow> u64 \<Rightarrow> account" where
  "account_new a bal = \<lparr>acc_address = a, balance = bal, acc_nonce = 0\<rparr>"

lemma account_new_simps [simp]:
  "acc_address (account_new a bal) = a" "balance (account_new a bal) = bal"
  "acc_nonce (account_new a bal) = 0"
  by (simp_all add: account_new_def)

section \<open>Protocol errors\<close>

datatype protocol_error =
    InvalidAddress
  | InvalidAmount
  | InvalidFee
  | InvalidNonce
  | InsufficientBalance
  | SignatureInvalid
  | InvalidBlock string
  | StateError string
  | DuplicateTransaction
  | MempoolFull
  | MempoolNonceConflict
  | GenesisError string

fun display_error :: "protocol_error \<Rightarrow> string" where
  "display_error InvalidAddress = ''invalid address''"
| "display_error InvalidAmount = ''invalid amount''"
| "display_error InvalidFee = ''invalid fee''"
| "display_error InvalidNonce = ''invalid nonce''"
| "display_error InsufficientBalance = ''insufficient balance''"
| "display_error SignatureInvalid = ''signature invalid''"
| "display_error (InvalidBlock msg) = ''invalid block: '' @ msg"
| "display_error (StateError msg) = ''state error: '' @ msg"
| "display_error DuplicateTransaction = ''duplicate transaction''"
| "display_error MempoolFull = ''mempool full''"
| "display_error MempoolNonceConflict = ''mempool nonce conflict''"
| "display_error (GenesisError msg) = ''genesis error: '' @ msg"

section \<open>Hashes and signatures\<close>

text \<open>
  \<open>sha256\<close> is \<open>Sha256::digest\<close>, \<open>hex_encode\<close> is \<open>hex::encode\<close>, \<open>vk_from_bytes\<close> tells whether
  \<open>VerifyingKey::from_bytes\<close> accepts 32 bytes, \<open>vk_verify\<close> is \<open>VerifyingKey::verify\<close> on a
  key, a message and a signature, \<open>sk_public\<close> and \<open>sk_sign\<close> are the public key and the
  signing function of \<open>SigningKey::from_bytes\<close> of a 32-byte seed.
\<close>

record crypto =
  sha256 :: "bytes \<Rightarrow> bytes"
  hex_encode :: "bytes \<Rightarrow> string"
  vk_from_bytes :: "bytes \<Rightarrow> bool"
  vk_verify :: "bytes \<Rightarrow> bytes \<Rightarrow> bytes \<Rightarrow> bool"
  sk_public :: "bytes \<Rightarrow> bytes"
  sk_sign :: "bytes \<Rightarrow> bytes \<Rightarrow> bytes"

definition hash_bytes :: "crypto \<Rightarrow> bytes \<Rightarrow> string" where
  "hash_bytes K payload = hex_encode K (sha256 K payload)"

definition sha256_raw32 :: "crypto \<Rightarrow> bytes \<Rightarrow> bytes" where
  "sha256_raw32 K payload = sha256 K payload"

definition address_from_public_key :: "crypto \<Rightarrow> bytes \<Rightarrow> string" where
  "address_from_public_key K public_key = hash_bytes K public_key"

definition verify_signature :: "crypto \<Rightarrow> bytes \<Rightarrow> bytes \<Rightarrow> bytes \<Rightarrow> bool" where
  "verify_signature K message sig public_key =
    (if length public_key \<noteq> 32 then False
     else if length sig \<noteq> 64 then False
     else if \<not> vk_from_bytes K public_key then False
     else vk_verify K public_key message sig)"

definition is_hex_digit :: "char \<Rightarrow> bool" where
  "is_hex_digit c \<longleftrightarrow> is_digit c \<or> (97 \<le> (of_char c :: nat) \<and> of_char c \<le> (102 :: nat))"

definition hex64 :: "string \<Rightarrow> bool" where
  "hex64 s \<longleftrightarrow> length s = 64 \<and> (\<forall>c \<in> set s. is_hex_digit c)"

definition digest_format :: "crypto \<Rightarrow> bool" where
  "digest_format K \<longleftrightarrow>
     (\<forall>b. length (sha256 K b) = 32) \<and> (\<forall>d. length d = 32 \<longrightarrow> hex64 (hex_encode K d))"

definition hex_injective :: "crypto \<Rightarrow> bool" where
  "hex_injective K \<longleftrightarrow> (\<forall>d e. hex_encode K d = hex_encode K e \<longrightarrow> d = e)"

definition signing_correct :: "crypto \<Rightarrow> bool" where
  "signing_correct K \<longleftrightarrow> (\<forall>seed msg. length seed = 32 \<longrightarrow>
     length (sk_public K seed) = 32 \<and> vk_from_bytes K (sk_public K seed) \<and>
     length (sk_sign K seed msg) = 64 \<and> vk_verify K (sk_public K seed) msg (sk_sign K seed msg))"

text \<open>No two of the byte strings in \<open>P\<close> have the same SHA-256 digest.\<close>

definition collision_free :: "crypto \<Rightarrow> bytes set \<Rightarrow> bool" where
  "collision_free K P \<longleftrightarrow> inj_on (sha256 K) P"

lemma hash_bytes_hex64: "digest_format K \<Longrightarrow> hex64 (hash_bytes K b)"
  by (simp add: digest_format_def hash_bytes_def)

lemma hash_bytes_inject:
  assumes "hex_injective K" "collision_free K P" "p \<in> P" "q \<in> P"
  shows "hash_bytes K p = hash_bytes K q \<longleftrightarrow> p = q"
  using assms by (auto simp: hash_bytes_def hex_injective_def collision_free_def dest: inj_onD)

lemma hex_digit_visible: "is_hex_digit c \<Longrightarrow> visible c"
  by (auto simp: is_hex_digit_def is_digit_def visible_def word_le_nat_alt)

lemma hex_digit_not_bar: "is_hex_digit c \<Longrightarrow> c \<noteq> CHR ''|''"
  by (auto simp: is_hex_digit_def is_digit_def)

lemma hex_digit_ascii: "is_hex_digit c \<Longrightarrow> ascii c"
  by (auto simp: is_hex_digit_def is_digit_def ascii_def word_less_nat_alt)

lemma hex64_nonempty: "hex64 s \<Longrightarrow> s \<noteq> []"
  by (auto simp: hex64_def)

lemma hex64_no_bar: "hex64 s \<Longrightarrow> CHR ''|'' \<notin> set s"
  using hex_digit_not_bar by (auto simp: hex64_def)

lemma hex64_trim: "hex64 s \<Longrightarrow> trim s = s"
  by (rule trim_visible)
    (use hex64_nonempty [of s] in \<open>simp_all add: hex64_def hex_digit_visible\<close>)

lemma hex64_rust_string: "hex64 s \<Longrightarrow> rust_string s"
  by (rule ascii_rust_string) (auto simp: hex64_def hex_digit_ascii)

lemma hex64_address_valid: "hex64 s \<Longrightarrow> address_is_valid (Address s)"
  using hex64_nonempty by (simp add: address_is_valid_def hex64_trim) (simp add: hex64_def)

section \<open>A concrete instance\<close>

text \<open>
  For evaluating examples only: the digest is the last 32 bytes of the zero-padded payload, a
  public key is its seed, and a signature is the public key followed by zeros.
\<close>

definition toy_hex_digit :: "nat \<Rightarrow> char" where
  "toy_hex_digit n = ''0123456789abcdef'' ! n"

definition toy_hex :: "bytes \<Rightarrow> string" where
  "toy_hex bs = concat (map (\<lambda>b. [toy_hex_digit (unat b div 16), toy_hex_digit (unat b mod 16)]) bs)"

definition toy_crypto :: crypto where
  "toy_crypto = \<lparr>sha256 = (\<lambda>b. drop (length b) (replicate 32 0 @ b)), hex_encode = toy_hex,
     vk_from_bytes = (\<lambda>_. True), vk_verify = (\<lambda>pk msg sig. sig = pk @ replicate 32 0),
     sk_public = (\<lambda>seed. seed), sk_sign = (\<lambda>seed msg. seed @ replicate 32 0)\<rparr>"

lemma toy_hex_digit_code:
  fixes n :: nat
  assumes "n < 16"
  shows "of_char (toy_hex_digit n) = (if n < 10 then 48 + n else 87 + n)"
proof -
  have "list_all (\<lambda>k. of_char (toy_hex_digit k) = (if k < 10 then 48 + k else 87 + k :: nat)) [0 ..< 16]"
    by code_simp
  with assms show ?thesis by (simp only: list_all_iff set_upt) simp
qed

lemma toy_hex_digit_inject:
  assumes "m < 16" "n < 16" "toy_hex_digit m = toy_hex_digit n"
  shows "m = n"
proof -
  from assms(3) have "(of_char (toy_hex_digit m) :: nat) = of_char (toy_hex_digit n)"
    by (rule arg_cong)
  then have "(if m < 10 then 48 + m else 87 + m) = (if n < 10 then 48 + n else 87 + n)"
    by (simp only: toy_hex_digit_code assms(1,2))
  then show ?thesis using assms(1,2) by (simp split: if_splits)
qed

lemma toy_hex_digit_hex: "n < 16 \<Longrightarrow> is_hex_digit (toy_hex_digit n)"
  by (auto simp: is_hex_digit_def is_digit_def toy_hex_digit_code)

lemma nibble_less: "unat (b :: u8) div 16 < 16"
  using unat_byte_less [of b] by (simp add: less_mult_imp_div_less)

lemma nibbles_inject: "x div 16 = y div 16 \<Longrightarrow> x mod 16 = y mod 16 \<Longrightarrow> x = (y :: nat)"
  by (metis div_mult_mod_eq)

lemma length_toy_hex: "length (toy_hex bs) = 2 * length bs"
  by (induction bs) (simp_all add: toy_hex_def)

lemma toy_hex_inject: "toy_hex bs = toy_hex cs \<Longrightarrow> bs = cs"
proof (induction bs arbitrary: cs)
  case Nil
  then show ?case using length_toy_hex [of cs] by (simp add: toy_hex_def)
next
  case (Cons b bs)
  have "length cs = Suc (length bs)"
    using length_toy_hex [of "b # bs"] length_toy_hex [of cs] unfolding Cons.prems by simp
  then obtain c cs' where cs: "cs = c # cs'" by (cases cs) simp_all
  have digits: "toy_hex_digit (unat b div 16) = toy_hex_digit (unat c div 16)"
    "toy_hex_digit (unat b mod 16) = toy_hex_digit (unat c mod 16)"
    using Cons.prems by (simp_all add: toy_hex_def cs)
  have "unat b = unat c"
    by (rule nibbles_inject; rule toy_hex_digit_inject) (simp_all add: digits nibble_less)
  moreover have "toy_hex bs = toy_hex cs'" using Cons.prems cs by (simp add: toy_hex_def)
  ultimately show ?case using Cons.IH cs by (simp add: word_unat_eq_iff)
qed

lemma toy_digest_format: "digest_format toy_crypto"
  using length_toy_hex nibble_less
  by (auto simp: digest_format_def toy_crypto_def hex64_def toy_hex_def toy_hex_digit_hex)

lemma toy_hex_injective: "hex_injective toy_crypto"
  by (auto simp: hex_injective_def toy_crypto_def dest: toy_hex_inject)

lemma toy_signing_correct: "signing_correct toy_crypto"
  by (simp add: signing_correct_def toy_crypto_def)

end
