(* ===== verification/Transaction.thy ===== *)
theory Transaction
  imports Crypto
begin

text \<open>
  \<open>transaction.rs\<close>: signed transfers, their canonical unsigned payload, their id (the hash of
  the payload) and the stateless validation \<open>basic_validate\<close>.
\<close>

record transaction =
  sender :: address
  receiver :: address
  amount :: u64
  fee :: u64
  nonce :: u64
  tx_timestamp_unix :: u64
  public_key :: bytes
  signature :: bytes
  tx_hash :: string

definition validate_sender_binding :: "crypto \<Rightarrow> transaction \<Rightarrow> protocol_error + unit" where
  "validate_sender_binding K tx =
    (let derived = address_from_public_key K (public_key tx)
     in if str (sender tx) \<noteq> derived then Inl InvalidAddress else Inr ())"

text \<open>\<open>format!("{}|{}|{}|{}|{}|{}", sender, receiver, amount, fee, nonce, timestamp)\<close>.\<close>

definition unsigned_payload :: "transaction \<Rightarrow> string" where
  "unsigned_payload tx = str (sender tx) @ ''|'' @ str (receiver tx) @ ''|'' @
     show_word (amount tx) @ ''|'' @ show_word (fee tx) @ ''|'' @
     show_word (nonce tx) @ ''|'' @ show_word (tx_timestamp_unix tx)"

definition unsigned_payload_bytes :: "transaction \<Rightarrow> bytes" where
  "unsigned_payload_bytes tx = as_bytes (unsigned_payload tx)"

definition validate_signature :: "crypto \<Rightarrow> transaction \<Rightarrow> protocol_error + unit" where
  "validate_signature K tx =
    (let payload = unsigned_payload_bytes tx;
         is_valid = verify_signature K payload (signature tx) (public_key tx)
     in if \<not> is_valid then Inl SignatureInvalid else Inr ())"

definition compute_tx_hash :: "crypto \<Rightarrow> transaction \<Rightarrow> string" where
  "compute_tx_hash K tx = hash_bytes K (unsigned_payload_bytes tx)"

definition validate_hash :: "crypto \<Rightarrow> transaction \<Rightarrow> protocol_error + unit" where
  "validate_hash K tx =
    (let expected = compute_tx_hash K tx
     in if tx_hash tx \<noteq> expected then Inl (StateError ''transaction hash mismatch'') else Inr ())"

definition tx_basic_validate :: "crypto \<Rightarrow> transaction \<Rightarrow> protocol_error + unit" where
  "tx_basic_validate K tx =
    (if \<not> address_is_valid (sender tx) \<or> \<not> address_is_valid (receiver tx) then Inl InvalidAddress
     else if amount tx = 0 then Inl InvalidAmount
     else if public_key tx = [] \<or> signature tx = [] then Inl SignatureInvalid
     else if trim (tx_hash tx) = [] then Inl (StateError ''missing tx hash'')
     else and_then (validate_hash K tx) (\<lambda>_.
          and_then (validate_signature K tx) (\<lambda>_.
          and_then (validate_sender_binding K tx) (\<lambda>_. Inr ()))))"

section \<open>What a valid transaction is\<close>

lemmas tx_validate_defs =
  tx_basic_validate_def validate_hash_def validate_signature_def validate_sender_binding_def
  Let_def

text \<open>The acceptance condition of \<open>basic_validate\<close>, as one conjunction.\<close>

lemma tx_basic_validate_ok:
  "tx_basic_validate K tx = Inr () \<longleftrightarrow>
     address_is_valid (sender tx) \<and> address_is_valid (receiver tx) \<and> amount tx \<noteq> 0 \<and>
     public_key tx \<noteq> [] \<and> signature tx \<noteq> [] \<and> trim (tx_hash tx) \<noteq> [] \<and>
     tx_hash tx = compute_tx_hash K tx \<and>
     verify_signature K (unsigned_payload_bytes tx) (signature tx) (public_key tx) \<and>
     str (sender tx) = address_from_public_key K (public_key tx)"
  by (auto simp: tx_validate_defs)

lemma tx_valid_hash: "tx_basic_validate K tx = Inr () \<Longrightarrow> tx_hash tx = compute_tx_hash K tx"
  by (simp add: tx_basic_validate_ok)

lemma tx_valid_hex64:
  "digest_format K \<Longrightarrow> tx_basic_validate K tx = Inr () \<Longrightarrow> hex64 (tx_hash tx)"
  by (simp add: tx_valid_hash compute_tx_hash_def hash_bytes_hex64)

lemma tx_valid_sender_hex64:
  "digest_format K \<Longrightarrow> tx_basic_validate K tx = Inr () \<Longrightarrow> hex64 (str (sender tx))"
  by (simp add: tx_basic_validate_ok address_from_public_key_def hash_bytes_hex64)

section \<open>The payload determines the transfer\<close>

text \<open>
  The receiver of a transaction may hold the separator character, so the payload is read from
  both ends: the sender is free of separators because it is a hash, and the four numbers are.
\<close>

definition same_transfer :: "transaction \<Rightarrow> transaction \<Rightarrow> bool" where
  "same_transfer t u \<longleftrightarrow> sender t = sender u \<and> receiver t = receiver u \<and> amount t = amount u \<and>
     fee t = fee u \<and> nonce t = nonce u \<and> tx_timestamp_unix t = tx_timestamp_unix u"

lemma four_numbers_right:
  assumes "r @ ''|'' @ show_word a @ ''|'' @ show_word b @ ''|'' @ show_word c @ ''|'' @ show_word d =
           r' @ ''|'' @ show_word a' @ ''|'' @ show_word b' @ ''|'' @ show_word c' @ ''|'' @ show_word d'"
  shows "r = r' \<and> a = a' \<and> b = b' \<and> c = c' \<and> d = d'"
proof -
  let ?bar = "CHR ''|''"
  have d: "(r @ ''|'' @ show_word a @ ''|'' @ show_word b @ ''|'' @ show_word c) @ ?bar # show_word d =
        (r' @ ''|'' @ show_word a' @ ''|'' @ show_word b' @ ''|'' @ show_word c') @ ?bar # show_word d'"
    using assms by simp
  note d' = split_at_separator_right [OF d bar_not_in_show_word bar_not_in_show_word]
  then have c: "(r @ ''|'' @ show_word a @ ''|'' @ show_word b) @ ?bar # show_word c =
        (r' @ ''|'' @ show_word a' @ ''|'' @ show_word b') @ ?bar # show_word c'" by simp
  note c' = split_at_separator_right [OF c bar_not_in_show_word bar_not_in_show_word]
  then have b: "(r @ ''|'' @ show_word a) @ ?bar # show_word b =
        (r' @ ''|'' @ show_word a') @ ?bar # show_word b'" by simp
  note b' = split_at_separator_right [OF b bar_not_in_show_word bar_not_in_show_word]
  then have a: "r @ ?bar # show_word a = r' @ ?bar # show_word a'" by simp
  note a' = split_at_separator_right [OF a bar_not_in_show_word bar_not_in_show_word]
  from a' b' c' d' show ?thesis by simp
qed

lemma unsigned_payload_inject:
  assumes "CHR ''|'' \<notin> set (str (sender t))" "CHR ''|'' \<notin> set (str (sender u))"
    "unsigned_payload_bytes t = unsigned_payload_bytes u"
  shows "same_transfer t u"
proof -
  from assms(3) have eq: "unsigned_payload t = unsigned_payload u"
    by (simp add: unsigned_payload_bytes_def)
  let ?rest = "\<lambda>t. str (receiver t) @ ''|'' @ show_word (amount t) @ ''|'' @ show_word (fee t) @
      ''|'' @ show_word (nonce t) @ ''|'' @ show_word (tx_timestamp_unix t)"
  from eq have "str (sender t) @ CHR ''|'' # ?rest t = str (sender u) @ CHR ''|'' # ?rest u"
    by (simp add: unsigned_payload_def)
  from split_at_separator_left [OF this assms(1,2)]
  have "str (sender t) = str (sender u)" and rest: "?rest t = ?rest u" by simp_all
  with four_numbers_right [OF rest] show ?thesis
    by (simp add: same_transfer_def address.expand)
qed

lemma tx_hash_commits:
  assumes "digest_format K" "hex_injective K" "collision_free K P"
    and "unsigned_payload_bytes t \<in> P" "unsigned_payload_bytes u \<in> P"
    and "tx_basic_validate K t = Inr ()" "tx_basic_validate K u = Inr ()"
    and "tx_hash t = tx_hash u"
  shows "same_transfer t u"
proof -
  from assms(6-8) have "hash_bytes K (unsigned_payload_bytes t) = hash_bytes K (unsigned_payload_bytes u)"
    by (simp add: tx_valid_hash compute_tx_hash_def)
  with assms(2-5) have "unsigned_payload_bytes t = unsigned_payload_bytes u"
    using hash_bytes_inject by blast
  moreover have "CHR ''|'' \<notin> set (str (sender t))" "CHR ''|'' \<notin> set (str (sender u))"
    using assms(1,6,7) by (simp_all add: hex64_no_bar tx_valid_sender_hex64)
  ultimately show ?thesis by (blast intro: unsigned_payload_inject)
qed

text \<open>
  C13. Transaction ids commit to the transfer: two transactions that pass \<open>basic_validate\<close> and
  carry the same id move the same amount from the same sender to the same receiver with the
  same fee, nonce and timestamp, unless their payloads are a SHA-256 collision.
\<close>

theorem tx_id_commits_to_transfer:
  assumes "digest_format K" "hex_injective K"
    and "collision_free K {unsigned_payload_bytes t, unsigned_payload_bytes u}"
    and "tx_basic_validate K t = Inr ()" "tx_basic_validate K u = Inr ()"
    and "tx_hash t = tx_hash u"
  shows "same_transfer t u"
  using tx_hash_commits [OF assms(1-3) _ _ assms(4-6)] by simp

end
