(* ===== verification/Block.thy ===== *)
theory Block
  imports Transaction
begin

text \<open>
  \<open>block.rs\<close> and \<open>consensus.rs\<close>: blocks, their header preimage and hash, the stateless
  validation \<open>basic_validate\<close>, and the timestamp policy.
\<close>

section \<open>Blocks\<close>

record block =
  height :: u64
  previous_hash :: string
  timestamp_unix :: u64
  transactions :: "transaction list"
  block_hash :: string

definition genesis_block :: block where
  "genesis_block = \<lparr>height = 0, previous_hash = ''GENESIS'', timestamp_unix = 0,
     transactions = [], block_hash = ''GENESIS_HASH''\<rparr>"

definition is_genesis :: "block \<Rightarrow> bool" where
  "is_genesis b \<longleftrightarrow> height b = 0"

definition block_header_preimage :: "block \<Rightarrow> string" where
  "block_header_preimage b =
    (let joined = join ''|'' (map tx_hash (transactions b))
     in show_word (height b) @ ''|'' @ previous_hash b @ ''|'' @
        show_word (timestamp_unix b) @ ''|'' @ joined)"

definition block_header_preimage_bytes :: "block \<Rightarrow> bytes" where
  "block_header_preimage_bytes b = as_bytes (block_header_preimage b)"

definition compute_block_hash :: "crypto \<Rightarrow> block \<Rightarrow> string" where
  "compute_block_hash K b = hash_bytes K (block_header_preimage_bytes b)"

definition validate_block_hash :: "crypto \<Rightarrow> block \<Rightarrow> protocol_error + unit" where
  "validate_block_hash K b =
    (if trim (block_hash b) = [] then Inl (InvalidBlock ''missing block hash'')
     else let expected = compute_block_hash K b
          in if block_hash b \<noteq> expected then Inl (InvalidBlock ''block hash mismatch'') else Inr ())"

text \<open>The loop over \<open>seen_tx_hashes\<close>: \<open>HashSet::insert\<close> is false on a member.\<close>

fun unique_tx_hashes :: "string set \<Rightarrow> transaction list \<Rightarrow> protocol_error + unit" where
  "unique_tx_hashes seen [] = Inr ()"
| "unique_tx_hashes seen (tx # txs) =
    (if tx_hash tx \<in> seen then Inl DuplicateTransaction
     else unique_tx_hashes (insert (tx_hash tx) seen) txs)"

definition block_basic_validate :: "crypto \<Rightarrow> block \<Rightarrow> protocol_error + unit" where
  "block_basic_validate K b =
    (if is_genesis b then
       if previous_hash b \<noteq> ''GENESIS'' \<or> block_hash b \<noteq> ''GENESIS_HASH''
       then Inl (InvalidBlock ''invalid genesis constants'')
       else if transactions b \<noteq> [] then Inl (InvalidBlock ''genesis must not contain transactions'')
       else Inr ()
     else if trim (previous_hash b) = [] then Inl (InvalidBlock ''missing previous hash'')
     else and_then (unique_tx_hashes {} (transactions b)) (\<lambda>_.
          and_then (check_all (tx_basic_validate K) (transactions b)) (\<lambda>_.
          and_then (validate_block_hash K b) (\<lambda>_. Inr ()))))"

lemma unique_tx_hashes_ok:
  "unique_tx_hashes seen txs = Inr () \<longleftrightarrow>
     distinct (map tx_hash txs) \<and> seen \<inter> set (map tx_hash txs) = {}"
  by (induction seen txs rule: unique_tx_hashes.induct) auto

text \<open>The acceptance condition of \<open>basic_validate\<close> on a block above genesis.\<close>

lemma block_basic_validate_ok:
  "height b \<noteq> 0 \<Longrightarrow> block_basic_validate K b = Inr () \<longleftrightarrow>
     trim (previous_hash b) \<noteq> [] \<and> distinct (map tx_hash (transactions b)) \<and>
     (\<forall>tx \<in> set (transactions b). tx_basic_validate K tx = Inr ()) \<and>
     trim (block_hash b) \<noteq> [] \<and> block_hash b = compute_block_hash K b"
  by (auto simp: block_basic_validate_def is_genesis_def validate_block_hash_def Let_def
      unique_tx_hashes_ok and_then_Inr_iff)

lemma genesis_basic_validate_ok:
  "height b = 0 \<Longrightarrow> block_basic_validate K b = Inr () \<longleftrightarrow>
     previous_hash b = ''GENESIS'' \<and> block_hash b = ''GENESIS_HASH'' \<and> transactions b = []"
  by (auto simp: block_basic_validate_def is_genesis_def)

lemma genesis_block_valid: "block_basic_validate K genesis_block = Inr ()"
  by (subst genesis_basic_validate_ok) (simp_all add: genesis_block_def)

lemma block_valid_hash:
  "height b \<noteq> 0 \<Longrightarrow> block_basic_validate K b = Inr () \<Longrightarrow> block_hash b = compute_block_hash K b"
  by (simp add: block_basic_validate_ok)

lemma block_valid_hex64:
  "digest_format K \<Longrightarrow> height b \<noteq> 0 \<Longrightarrow> block_basic_validate K b = Inr () \<Longrightarrow> hex64 (block_hash b)"
  by (simp add: block_valid_hash compute_block_hash_def hash_bytes_hex64)

lemma block_valid_txs:
  "block_basic_validate K b = Inr () \<Longrightarrow> tx \<in> set (transactions b) \<Longrightarrow>
     tx_basic_validate K tx = Inr ()"
  by (cases "height b = 0") (auto simp: block_basic_validate_ok genesis_basic_validate_ok)

lemma block_valid_distinct:
  "block_basic_validate K b = Inr () \<Longrightarrow> distinct (map tx_hash (transactions b))"
  by (cases "height b = 0") (auto simp: block_basic_validate_ok genesis_basic_validate_ok)

section \<open>The header preimage determines the block\<close>

text \<open>
  Cut at the separators, a preimage is the height, the pieces of the previous hash (an arbitrary
  non-empty string), the timestamp and the transaction ids.  A timestamp has at most 20 digits
  and an id has 64 characters, so the parts are found again from the right.
\<close>

definition id_segments :: "block \<Rightarrow> string list" where
  "id_segments b = (if transactions b = [] then [[]] else map tx_hash (transactions b))"

lemma split_preimage:
  assumes "\<forall>tx \<in> set (transactions b). hex64 (tx_hash tx)"
  shows "split_on CHR ''|'' (block_header_preimage b) =
    show_word (height b) # split_on CHR ''|'' (previous_hash b) @ show_word (timestamp_unix b) #
    id_segments b"
proof -
  let ?ids = "map tx_hash (transactions b)"
  have ids: "split_on CHR ''|'' (join ''|'' ?ids) = id_segments b"
    using assms by (auto simp: id_segments_def hex64_no_bar intro!: split_join)
  show ?thesis
    by (simp add: block_header_preimage_def split_on_append split_on_no_sep ids)
qed

lemma takeWhile_rev_segments:
  assumes "\<forall>s \<in> set T. length s = 64" "length x \<noteq> (64 :: nat)"
  shows "takeWhile (\<lambda>s. length s = 64) (rev (S @ x # T)) = rev T"
  using assms by (induction T rule: rev_induct) auto

lemma id_segments_inject:
  assumes "S @ show_word (t :: u64) # id_segments b = S' @ show_word (t' :: u64) # id_segments c"
    and "\<forall>tx \<in> set (transactions b). hex64 (tx_hash tx)"
    and "\<forall>tx \<in> set (transactions c). hex64 (tx_hash tx)"
  shows "S = S' \<and> t = t' \<and> map tx_hash (transactions b) = map tx_hash (transactions c)"
proof -
  have len: "length (show_word (t :: u64)) \<noteq> 64" for t
    using length_show_u64 [of t] by linarith
  have ids: "\<forall>s \<in> set (map tx_hash (transactions d)). length s = 64"
    if "\<forall>tx \<in> set (transactions d). hex64 (tx_hash tx)" for d
    using that by (simp add: hex64_def)
  have last: "last (id_segments d) = [] \<longleftrightarrow> transactions d = []"
    if "\<forall>tx \<in> set (transactions d). hex64 (tx_hash tx)" for d
    using that hex64_nonempty by (auto simp: id_segments_def last_map)
  have "last (S @ show_word t # id_segments b) = last (id_segments b)"
    "last (S' @ show_word t' # id_segments c) = last (id_segments c)"
    by (simp_all add: id_segments_def)
  with assms(1) last [OF assms(2)] last [OF assms(3)]
  have iff: "transactions b = [] \<longleftrightarrow> transactions c = []" by simp
  show ?thesis
  proof (cases "transactions b = []")
    case True
    with iff assms(1) show ?thesis by (simp add: id_segments_def)
  next
    case False
    with iff assms(1) have eq: "S @ show_word t # map tx_hash (transactions b) =
        S' @ show_word t' # map tx_hash (transactions c)" by (simp add: id_segments_def)
    from arg_cong [OF this, of "\<lambda>xs. takeWhile (\<lambda>s. length s = 64) (rev xs)"]
    have "map tx_hash (transactions b) = map tx_hash (transactions c)"
      by (simp only: takeWhile_rev_segments [OF ids [OF assms(2)] len]
          takeWhile_rev_segments [OF ids [OF assms(3)] len] rev_is_rev_conv)
    with eq show ?thesis by simp
  qed
qed

lemma block_preimage_inject:
  assumes "block_header_preimage_bytes b = block_header_preimage_bytes c"
    and "\<forall>tx \<in> set (transactions b). hex64 (tx_hash tx)"
    and "\<forall>tx \<in> set (transactions c). hex64 (tx_hash tx)"
  shows "height b = height c \<and> previous_hash b = previous_hash c \<and>
    timestamp_unix b = timestamp_unix c \<and> map tx_hash (transactions b) = map tx_hash (transactions c)"
proof -
  from assms(1) have "split_on CHR ''|'' (block_header_preimage b) = split_on CHR ''|'' (block_header_preimage c)"
    by (simp add: block_header_preimage_bytes_def)
  then have "height b = height c"
    and rest: "split_on CHR ''|'' (previous_hash b) @ show_word (timestamp_unix b) # id_segments b =
      split_on CHR ''|'' (previous_hash c) @ show_word (timestamp_unix c) # id_segments c"
    by (simp_all add: split_preimage assms(2,3))
  with id_segments_inject [OF rest assms(2,3)] show ?thesis
    by (simp add: split_on_inject)
qed

lemma block_hash_commits:
  assumes "digest_format K" "hex_injective K"
    and "collision_free K P" "block_header_preimage_bytes b \<in> P" "block_header_preimage_bytes c \<in> P"
    and "height b \<noteq> 0" "height c \<noteq> 0"
    and "block_basic_validate K b = Inr ()" "block_basic_validate K c = Inr ()"
    and "block_hash b = block_hash c"
  shows "height b = height c \<and> previous_hash b = previous_hash c \<and>
    timestamp_unix b = timestamp_unix c \<and> map tx_hash (transactions b) = map tx_hash (transactions c)"
proof -
  have "hash_bytes K (block_header_preimage_bytes b) = hash_bytes K (block_header_preimage_bytes c)"
    using assms(6-10) by (simp add: block_valid_hash compute_block_hash_def)
  then have "block_header_preimage_bytes b = block_header_preimage_bytes c"
    using hash_bytes_inject assms(2-5) by blast
  then show ?thesis
    by (rule block_preimage_inject)
      (use assms(1,8,9) block_valid_txs tx_valid_hex64 in blast)+
qed

section \<open>Timestamp policy\<close>

record consensus_params =
  min_block_interval_secs :: u64
  max_future_drift_secs :: u64

definition default_consensus_params :: consensus_params where
  "default_consensus_params = \<lparr>min_block_interval_secs = 0, max_future_drift_secs = - 1\<rparr>"

definition validate_block_timestamps_vs_parent ::
  "block \<Rightarrow> block \<Rightarrow> consensus_params \<Rightarrow> protocol_error + unit" where
  "validate_block_timestamps_vs_parent parent candidate params =
    and_then (ok_or (InvalidBlock ''block timestamp arithmetic overflow'')
        (checked_add (timestamp_unix parent) (min_block_interval_secs params))) (\<lambda>min_ts.
      if timestamp_unix candidate < min_ts
      then Inl (InvalidBlock ''block timestamp violates minimum interval after parent'')
      else Inr ())"

definition validate_block_vs_local_time :: "u64 \<Rightarrow> u64 \<Rightarrow> u64 \<Rightarrow> protocol_error + unit" where
  "validate_block_vs_local_time block_ts now max_drift =
    (let limit = saturating_add now max_drift
     in if block_ts > limit then Inl (InvalidBlock ''block timestamp too far in the future'')
        else Inr ())"

lemma timestamps_ok_iff:
  "validate_block_timestamps_vs_parent p c params = Inr () \<longleftrightarrow>
     unat (timestamp_unix p) + unat (min_block_interval_secs params) \<le> unat (timestamp_unix c)"
proof -
  have "unat (timestamp_unix c) < 2 ^ 64" using unat_bound [of "timestamp_unix c"] by simp
  then show ?thesis
    by (auto simp: validate_block_timestamps_vs_parent_def and_then_Inr_iff checked_add_Some_iff
        word_less_nat_alt unat_plus_no_overflow not_less)
qed

lemma local_time_ok_iff:
  "validate_block_vs_local_time ts now drift = Inr () \<longleftrightarrow> unat ts \<le> unat now + unat drift"
  using unat_bound [of ts]
  by (auto simp: validate_block_vs_local_time_def Let_def word_less_nat_alt unat_saturating_add)

lemma default_params_time:
  "validate_block_timestamps_vs_parent p c default_consensus_params = Inr () \<longleftrightarrow>
     timestamp_unix p \<le> timestamp_unix c"
  "validate_block_vs_local_time ts now (max_future_drift_secs default_consensus_params) = Inr ()"
  using unat_bound [of ts]
  by (simp_all add: timestamps_ok_iff local_time_ok_iff default_consensus_params_def word_le_nat_alt
      unsigned_minus_1_eq_mask mask_eq_exp_minus_1)

end
