(* ===== verification/Genesis.thy ===== *)
theory Genesis
  imports Block
begin

text \<open>
  \<open>genesis.rs\<close>: the genesis document (initial balances), its validation, its canonical order and
  the state commitment that operators and peers compare.  Reading and writing TOML text is the \<open>toml\<close>
  package, a parameter of \<open>from_toml_str\<close> and \<open>write_to_path\<close>.
\<close>

record genesis_allocation =
  alloc_address :: string
  alloc_balance :: u64

record genesis =
  allocations :: "genesis_allocation list"

definition genesis_empty :: genesis where
  "genesis_empty = \<lparr>allocations = []\<rparr>"

definition validate_decl :: "genesis \<Rightarrow> protocol_error + unit" where
  "validate_decl g = check_all (\<lambda>a.
     if \<not> address_is_valid (Address (alloc_address a))
     then Inl (GenesisError ''invalid address in genesis'')
     else if alloc_balance a = 0 then Inl (GenesisError ''zero balance not allowed'')
     else Inr ()) (allocations g)"

definition from_toml_str :: "(string \<Rightarrow> string + genesis) \<Rightarrow> string \<Rightarrow> string + genesis" where
  "from_toml_str toml s =
    and_then (map_err (\<lambda>e. ''genesis TOML: '' @ e) (toml s)) (\<lambda>g.
    and_then (map_err display_error (validate_decl g)) (\<lambda>_. Inr g))"

definition from_path :: "(string \<Rightarrow> string + genesis) \<Rightarrow> string + string \<Rightarrow> string + genesis" where
  "from_path toml contents = and_then contents (\<lambda>raw. from_toml_str toml raw)"

text \<open>The loop over \<open>pairs.windows(2)\<close>.\<close>

fun no_adjacent_duplicates :: "(address \<times> u64) list \<Rightarrow> protocol_error + unit" where
  "no_adjacent_duplicates (p # q # ps) =
    (if fst p = fst q then Inl (GenesisError ''duplicate genesis address'')
     else no_adjacent_duplicates (q # ps))"
| "no_adjacent_duplicates _ = Inr ()"

definition sorted_pairs :: "genesis \<Rightarrow> protocol_error + (address \<times> u64) list" where
  "sorted_pairs g =
    and_then (validate_decl g) (\<lambda>_.
      let pairs = sort_key fst (map (\<lambda>a. (Address (alloc_address a), alloc_balance a)) (allocations g))
      in and_then (no_adjacent_duplicates pairs) (\<lambda>_. Inr pairs))"

definition commitment_line :: "address \<times> u64 \<Rightarrow> string" where
  "commitment_line p = str (fst p) @ ''|'' @ show_word (snd p)"

definition commitment_preimage :: "(address \<times> u64) list \<Rightarrow> string" where
  "commitment_preimage pairs = join ''\<newline>'' (map commitment_line pairs)"

definition state_commitment_raw32 :: "crypto \<Rightarrow> genesis \<Rightarrow> protocol_error + bytes" where
  "state_commitment_raw32 K g =
    and_then (sorted_pairs g) (\<lambda>pairs. Inr (sha256_raw32 K (as_bytes (commitment_preimage pairs))))"

definition state_commitment_hex :: "crypto \<Rightarrow> genesis \<Rightarrow> protocol_error + string" where
  "state_commitment_hex K g =
    and_then (state_commitment_raw32 K g) (\<lambda>raw. Inr (hex_encode K raw))"

definition genesis_comment :: "string \<Rightarrow> string" where
  "genesis_comment hex =
    ''# Trilogicon V1 genesis '' @ em_dash @ '' allocations at height 0 (before first non-genesis block).'' @ [CHR 10] @
    ''# State commitment (compare across nodes): '' @ hex @ [CHR 10, CHR 10]"

definition write_to_path ::
  "(genesis \<Rightarrow> string + string) \<Rightarrow> crypto \<Rightarrow> write_outcome \<Rightarrow> string option \<Rightarrow> genesis \<Rightarrow>
     string option \<times> (string + unit)" where
  "write_to_path toml K wr contents g =
    (case and_then (map_err display_error (validate_decl g)) (\<lambda>_.
          and_then (toml g) (\<lambda>body.
          and_then (map_err display_error (state_commitment_hex K g)) (\<lambda>hex. Inr (genesis_comment hex @ body)))) of
       Inl e \<Rightarrow> (contents, Inl e)
     | Inr out \<Rightarrow> fs_write wr out contents)"

section \<open>Which documents are accepted\<close>

definition alloc_pairs :: "genesis \<Rightarrow> (address \<times> u64) list" where
  "alloc_pairs g = map (\<lambda>a. (Address (alloc_address a), alloc_balance a)) (allocations g)"

definition genesis_valid :: "genesis \<Rightarrow> bool" where
  "genesis_valid g \<longleftrightarrow> (\<forall>p \<in> set (alloc_pairs g). address_is_valid (fst p) \<and> snd p \<noteq> 0) \<and>
     distinct (map fst (alloc_pairs g))"

lemma validate_decl_ok:
  "validate_decl g = Inr () \<longleftrightarrow>
     (\<forall>p \<in> set (alloc_pairs g). address_is_valid (fst p) \<and> snd p \<noteq> 0)"
  by (auto simp: validate_decl_def alloc_pairs_def)

lemma no_adjacent_duplicates_ok:
  "sorted (map fst ps) \<Longrightarrow> no_adjacent_duplicates ps = Inr () \<longleftrightarrow> distinct (map fst ps)"
proof (induction ps rule: no_adjacent_duplicates.induct)
  case (1 p q ps)
  show ?case
  proof (cases "fst p = fst q")
    case False
    with 1 have "fst p \<notin> set (map fst (q # ps))" by fastforce
    with False 1 show ?thesis by simp
  qed simp
qed simp_all

lemma distinct_fst_sort_key: "distinct (map fst (sort_key fst ps)) \<longleftrightarrow> distinct (map fst ps)"
proof -
  have "mset (map fst (sort_key fst ps)) = mset (map fst ps)" by simp
  then show ?thesis by (metis mset_eq_imp_distinct_iff)
qed

lemma sorted_pairs_ok:
  "sorted_pairs g = Inr ps \<longleftrightarrow> genesis_valid g \<and> ps = sort_key fst (alloc_pairs g)"
  by (auto simp: sorted_pairs_def Let_def and_then_Inr_iff validate_decl_ok genesis_valid_def
      no_adjacent_duplicates_ok distinct_fst_sort_key simp flip: alloc_pairs_def)

lemma sorted_pairs_distinct:
  "sorted_pairs g = Inr ps \<Longrightarrow> distinct (map fst ps) \<and> sorted (map fst ps) \<and> set ps = set (alloc_pairs g)"
  by (auto simp: sorted_pairs_ok genesis_valid_def distinct_fst_sort_key)

lemma sorted_pairs_determined:
  assumes "sorted_pairs g = Inr ps" "sorted_pairs h = Inr qs" "set (alloc_pairs g) = set (alloc_pairs h)"
  shows "ps = qs"
proof -
  note P = sorted_pairs_distinct [OF assms(1)] and Q = sorted_pairs_distinct [OF assms(2)]
  then have "inj_on fst (set ps \<union> set qs)"
    using assms(3) by (metis distinct_map sup.idem)
  then show ?thesis
    using P Q assms(3) by (intro map_sorted_distinct_set_unique [of fst]) simp_all
qed

section \<open>The state commitment\<close>

text \<open>
  The commitment does not depend on the order in which allocations are declared: documents
  with the same allocations are accepted alike, give the same sorted pairs and the same
  commitment.
\<close>

theorem commitment_order_independent:
  assumes "mset (allocations g) = mset (allocations h)"
  shows "(sorted_pairs g = Inr ps \<longleftrightarrow> sorted_pairs h = Inr ps) \<and>
     (state_commitment_hex K g = Inr c \<longleftrightarrow> state_commitment_hex K h = Inr c)"
proof -
  have mset: "mset (alloc_pairs g) = mset (alloc_pairs h)"
    using assms by (simp add: alloc_pairs_def)
  then have set: "set (alloc_pairs g) = set (alloc_pairs h)" by (metis set_mset_mset)
  have "mset (map fst (alloc_pairs g)) = mset (map fst (alloc_pairs h))" using mset by simp
  then have "distinct (map fst (alloc_pairs g)) \<longleftrightarrow> distinct (map fst (alloc_pairs h))"
    by (rule mset_eq_imp_distinct_iff)
  with set have "genesis_valid g \<longleftrightarrow> genesis_valid h" by (simp add: genesis_valid_def)
  then have eq: "sorted_pairs g = Inr qs \<longleftrightarrow> sorted_pairs h = Inr qs" for qs
    using sorted_pairs_determined [OF _ _ set] by (metis sorted_pairs_ok)
  then show ?thesis
    by (auto simp: state_commitment_hex_def state_commitment_raw32_def and_then_Inr_iff)
qed

text \<open>
  Address validity only asks for a non-blank string of at most 128 bytes, so an address may
  hold a newline, the separator between two lines of the commitment preimage.
\<close>

lemma newline_not_in_show_word [simp]: "CHR 0x0A \<notin> set (show_word w)"
  using show_word_digits [of "CHR 0x0A" w] by (auto simp: is_digit_def)

lemma commitment_line_inject: "commitment_line p = commitment_line q \<Longrightarrow> p = q"
  using split_at_separator_right [of "str (fst p)" "CHR ''|''" "show_word (snd p)" "str (fst q)" "show_word (snd q)"]
  by (simp add: commitment_line_def prod_eq_iff address.expand)

lemma commitment_line_nonempty: "commitment_line p \<noteq> []"
  by (simp add: commitment_line_def)

lemma commitment_line_no_newline:
  "CHR 0x0A \<notin> set (str (fst p)) \<Longrightarrow> CHR 0x0A \<notin> set (commitment_line p)"
  by (simp add: commitment_line_def)

lemma commitment_preimage_inject:
  assumes eq: "commitment_preimage ps = commitment_preimage qs"
    and "\<forall>p \<in> set ps. CHR 0x0A \<notin> set (str (fst p))" "\<forall>q \<in> set qs. CHR 0x0A \<notin> set (str (fst q))"
  shows "ps = qs"
proof -
  have empty: "commitment_preimage rs = [] \<longleftrightarrow> rs = []" for rs
    using join_eq_Nil [of "map commitment_line rs" "''\<newline>''"]
    by (simp add: commitment_preimage_def commitment_line_nonempty)
  have "map commitment_line ps = map commitment_line qs"
  proof (cases "ps = []")
    case True
    have "qs = []" using True eq empty by metis
    with True show ?thesis by simp
  next
    case False
    have "qs \<noteq> []" using False eq empty by metis
    with False assms show ?thesis
      by (intro join_inject [of "CHR 0x0A"]) (simp_all add: commitment_preimage_def commitment_line_no_newline)
  qed
  then show ?thesis using commitment_line_inject by (metis injI inj_map_eq_map)
qed

text \<open>
  C14. Where no address holds a newline, the commitment determines the initial ledger: two
  accepted documents with the same commitment have the same allocations, unless their
  preimages are a SHA-256 collision.
\<close>

theorem commitment_determines_allocations:
  assumes "hex_injective K"
    and "sorted_pairs g = Inr ps" "sorted_pairs h = Inr qs"
    and "collision_free K {as_bytes (commitment_preimage ps), as_bytes (commitment_preimage qs)}"
    and "\<forall>p \<in> set ps \<union> set qs. CHR 0x0A \<notin> set (str (fst p))"
    and "state_commitment_hex K g = state_commitment_hex K h"
  shows "set (alloc_pairs g) = set (alloc_pairs h)"
proof -
  from assms(2,3,6) have "hash_bytes K (as_bytes (commitment_preimage ps)) = hash_bytes K (as_bytes (commitment_preimage qs))"
    by (simp add: state_commitment_hex_def state_commitment_raw32_def sha256_raw32_def hash_bytes_def)
  with assms(1,4) have "commitment_preimage ps = commitment_preimage qs"
    using hash_bytes_inject by fastforce
  with assms(5) have "ps = qs" by (intro commitment_preimage_inject) auto
  with assms(2,3) sorted_pairs_distinct show ?thesis by metis
qed

definition split_doc :: genesis where
  "split_doc = \<lparr>allocations = [\<lparr>alloc_address = ''a'', alloc_balance = 1\<rparr>,
     \<lparr>alloc_address = ''b'', alloc_balance = 2\<rparr>]\<rparr>"

definition merged_doc :: genesis where
  "merged_doc = \<lparr>allocations = [\<lparr>alloc_address = ''a|1\<newline>b'', alloc_balance = 2\<rparr>]\<rparr>"

text \<open>
  C15. Without that condition it does not: the document that gives \<open>a\<close> one unit and \<open>b\<close> two
  units, and the document with the single address ``\<open>a|1\<close>, newline, \<open>b\<close>'' and two units, are
  both accepted, start different ledgers and have the same commitment, whatever the hash.
\<close>

theorem commitment_ambiguous_with_newline:
  "genesis_valid split_doc \<and> genesis_valid merged_doc \<and>
   set (alloc_pairs split_doc) \<noteq> set (alloc_pairs merged_doc) \<and>
   (\<exists>c. state_commitment_hex K split_doc = Inr c \<and> state_commitment_hex K merged_doc = Inr c)"
proof -
  have vis: "visible CHR ''a''" "visible CHR ''b''"
    by (simp_all add: visible_def byte_of_char_def)
  have trim: "trim ''a'' = ''a''" "trim ''b'' = ''b''" "trim ''a|1\<newline>b'' = ''a|1\<newline>b''"
    by (rule trim_visible; simp add: vis)+
  then have valid: "genesis_valid split_doc" "genesis_valid merged_doc"
    by (simp_all add: genesis_valid_def alloc_pairs_def split_doc_def merged_doc_def address_is_valid_def)
  have sorted: "sort_key fst (alloc_pairs split_doc) = [(Address ''a'', 1), (Address ''b'', 2)]"
    "sort_key fst (alloc_pairs merged_doc) = [(Address ''a|1\<newline>b'', 2)]"
    by (simp_all add: alloc_pairs_def split_doc_def merged_doc_def less_eq_address_def)
  have "commitment_preimage [(Address ''a'', 1), (Address ''b'', 2)] =
      commitment_preimage [(Address ''a|1\<newline>b'', 2)]"
    by (simp add: commitment_preimage_def commitment_line_def show_word_def show_nat.simps digit_def)
  then have "\<exists>c. state_commitment_hex K split_doc = Inr c \<and> state_commitment_hex K merged_doc = Inr c"
    using valid sorted
    by (auto simp: state_commitment_hex_def state_commitment_raw32_def and_then_Inr_iff sorted_pairs_ok)
  moreover have "set (alloc_pairs split_doc) \<noteq> set (alloc_pairs merged_doc)"
    by (simp add: alloc_pairs_def split_doc_def merged_doc_def)
  ultimately show ?thesis using valid by blast
qed

end
