(* ===== verification/Ledger.thy ===== *)
theory Ledger
  imports Genesis
begin

text \<open>
  \<open>state.rs\<close>: the account ledger.  \<open>apply_transaction\<close> is the state transition of the chain;
  everything above it (mempool selection, block append, replay, the reorg sandbox) runs it over
  lists of transactions.  What those clients rely on is the locale \<open>ledger\<close> at the end.
\<close>

record state =
  accounts :: "(address, account) fmap"

definition state_new :: state where
  "state_new = \<lparr>accounts = fmempty\<rparr>"

text \<open>The loop of \<open>from_genesis\<close> over the sorted pairs.\<close>

definition state_from_genesis :: "genesis \<Rightarrow> protocol_error + state" where
  "state_from_genesis g = and_then (sorted_pairs g) (\<lambda>pairs.
     Inr (fold (\<lambda>(addr, bal) st. st\<lparr>accounts := fmupd addr (account_new addr bal) (accounts st)\<rparr>)
       pairs state_new))"

definition accounts_sorted :: "state \<Rightarrow> (address \<times> account) list" where
  "accounts_sorted s = map (\<lambda>a. (a, the (fmlookup (accounts s) a))) (sorted_list_of_fset (fmdom (accounts s)))"

definition account_count :: "state \<Rightarrow> nat" where
  "account_count s = fcard (fmdom (accounts s))"

definition get_account :: "state \<Rightarrow> address \<Rightarrow> account option" where
  "get_account s a = fmlookup (accounts s) a"

definition create_account :: "state \<Rightarrow> address \<Rightarrow> u64 \<Rightarrow> state" where
  "create_account s a initial_balance =
    (case fmlookup (accounts s) a of
       Some _ \<Rightarrow> s
     | None \<Rightarrow> s\<lparr>accounts := fmupd a (account_new a initial_balance) (accounts s)\<rparr>)"

definition total_balance_sum :: "state \<Rightarrow> protocol_error + u64" where
  "total_balance_sum s = try_fold (\<lambda>acc a.
     ok_or (StateError ''total balance sum overflow'') (checked_add acc (balance a)))
     0 (map snd (accounts_sorted s))"

definition apply_self_transfer :: "state \<Rightarrow> transaction \<Rightarrow> state \<times> (protocol_error + unit)" where
  "apply_self_transfer s tx =
    (case checked_add (amount tx) (fee tx) of
       None \<Rightarrow> (s, Inl (StateError ''amount+fee overflow''))
     | Some total_cost \<Rightarrow>
    (case fmlookup (accounts s) (sender tx) of
       None \<Rightarrow> (s, Inl (StateError ''sender account missing''))
     | Some acc \<Rightarrow>
       if acc_nonce acc \<noteq> nonce tx then (s, Inl InvalidNonce)
       else if balance acc < total_cost then (s, Inl InsufficientBalance)
       else (case Option.bind (checked_sub (balance acc) total_cost) (\<lambda>b. checked_add b (amount tx)) of
          None \<Rightarrow> (s, Inl (StateError ''balance update overflow''))
        | Some new_balance \<Rightarrow>
       (case checked_add (acc_nonce acc) 1 of
          None \<Rightarrow> (s, Inl (StateError ''sender nonce overflow''))
        | Some new_nonce \<Rightarrow>
          (s\<lparr>accounts := fmupd (sender tx) (acc\<lparr>balance := new_balance, acc_nonce := new_nonce\<rparr>)
               (accounts s)\<rparr>, Inr ())))))"

definition apply_transaction :: "crypto \<Rightarrow> state \<Rightarrow> transaction \<Rightarrow> state \<times> (protocol_error + unit)" where
  "apply_transaction K s tx =
    (case tx_basic_validate K tx of
       Inl e \<Rightarrow> (s, Inl e)
     | Inr _ \<Rightarrow>
    if sender tx = receiver tx then apply_self_transfer s tx
    else
    (case checked_add (amount tx) (fee tx) of
       None \<Rightarrow> (s, Inl (StateError ''amount+fee overflow''))
     | Some total_cost \<Rightarrow>
    (case fmlookup (accounts s) (sender tx) of
       None \<Rightarrow> (s, Inl (StateError ''sender account missing''))
     | Some sndr \<Rightarrow>
       if acc_nonce sndr \<noteq> nonce tx then (s, Inl InvalidNonce)
       else if balance sndr < total_cost then (s, Inl InsufficientBalance)
       else (case checked_sub (balance sndr) total_cost of
          None \<Rightarrow> (s, Inl (StateError ''sender balance debit underflow''))
        | Some new_sender_balance \<Rightarrow>
       (case checked_add (acc_nonce sndr) 1 of
          None \<Rightarrow> (s, Inl (StateError ''sender nonce overflow''))
        | Some new_sender_nonce \<Rightarrow>
       (case (case fmlookup (accounts s) (receiver tx) of
                Some r \<Rightarrow> ok_or (StateError ''receiver balance overflow'') (checked_add (balance r) (amount tx))
              | None \<Rightarrow> Inr (amount tx)) of
          Inl e \<Rightarrow> (s, Inl e)
        | Inr new_receiver_balance \<Rightarrow>
          let accs = fmupd (sender tx)
                (sndr\<lparr>balance := new_sender_balance, acc_nonce := new_sender_nonce\<rparr>) (accounts s);
              recv = (case fmlookup accs (receiver tx) of
                Some r \<Rightarrow> r | None \<Rightarrow> account_new (receiver tx) 0)
          in (s\<lparr>accounts := fmupd (receiver tx) (recv\<lparr>balance := new_receiver_balance\<rparr>) accs\<rparr>,
              Inr ())))))))"

section \<open>Balances, nonces and supply\<close>

text \<open>Balances and nonces read as natural numbers; a missing account holds nothing.\<close>

definition bal :: "state \<Rightarrow> address \<Rightarrow> nat" where
  "bal s a = (case fmlookup (accounts s) a of None \<Rightarrow> 0 | Some acc \<Rightarrow> unat (balance acc))"

definition nonce_at :: "state \<Rightarrow> address \<Rightarrow> nat" where
  "nonce_at s a = (case fmlookup (accounts s) a of None \<Rightarrow> 0 | Some acc \<Rightarrow> unat (acc_nonce acc))"

definition total_supply :: "state \<Rightarrow> nat" where
  "total_supply s = (\<Sum>a\<in>fset (fmdom (accounts s)). bal s a)"

text \<open>Every account is filed under its own address.\<close>

definition accounts_wf :: "state \<Rightarrow> bool" where
  "accounts_wf s \<longleftrightarrow> (\<forall>a acc. fmlookup (accounts s) a = Some acc \<longrightarrow> acc_address acc = a)"

lemma bal_bound: "bal s a < 2 ^ 64"
  using unat_bound [of "w :: u64" for w] by (simp add: bal_def split: option.split)

lemma bal_missing: "a \<notin> fset (fmdom (accounts s)) \<Longrightarrow> bal s a = 0"
  by (simp add: bal_def fmdom_notD)

lemma supply_superset:
  assumes "finite A" "fset (fmdom (accounts s)) \<subseteq> A"
  shows "total_supply s = (\<Sum>a\<in>A. bal s a)"
  unfolding total_supply_def using assms by (intro sum.mono_neutral_left) (auto simp: bal_missing)

lemma supply_ge_two:
  assumes "a \<noteq> b"
  shows "bal s a + bal s b \<le> total_supply s"
proof -
  let ?A = "insert a (insert b (fset (fmdom (accounts s))))"
  have "(\<Sum>x\<in>{a, b}. bal s x) \<le> (\<Sum>x\<in>?A. bal s x)" by (intro sum_mono2) auto
  with assms show ?thesis by (simp add: supply_superset [of ?A] subset_insertI2)
qed

lemma supply_two_point:
  assumes "\<And>x. x \<noteq> a \<Longrightarrow> x \<noteq> b \<Longrightarrow> bal s' x = bal s x"
    and "sum (bal s') {a, b} + d = sum (bal s) {a, b}"
  shows "total_supply s' + d = total_supply s"
proof -
  let ?A = "{a, b} \<union> (fset (fmdom (accounts s)) \<union> fset (fmdom (accounts s')))"
  have split: "sum f ?A = sum f {a, b} + sum f (?A - {a, b})" for f :: "address \<Rightarrow> nat"
    using sum.subset_diff [of "{a, b}" ?A f] by (simp add: add.commute)
  have "sum (bal s') (?A - {a, b}) = sum (bal s) (?A - {a, b})"
    using assms(1) by (intro sum.cong) auto
  moreover have "total_supply s = sum (bal s) ?A" "total_supply s' = sum (bal s') ?A"
    by (rule supply_superset; auto)+
  ultimately show ?thesis using assms(2) split [of "bal s"] split [of "bal s'"] by linarith
qed

section \<open>The effect of a transaction\<close>

text \<open>The state after a transfer from the account \<open>acc\<close>, with the new balances written out.\<close>

definition transfer_result :: "state \<Rightarrow> transaction \<Rightarrow> account \<Rightarrow> state" where
  "transfer_result s tx acc =
    (let n = acc_nonce acc + 1 in
     if sender tx = receiver tx
     then s\<lparr>accounts := fmupd (sender tx) (acc\<lparr>balance := balance acc - fee tx, acc_nonce := n\<rparr>) (accounts s)\<rparr>
     else let r = (case get_account s (receiver tx) of None \<Rightarrow> account_new (receiver tx) 0 | Some r \<Rightarrow> r)
       in s\<lparr>accounts := fmupd (receiver tx) (r\<lparr>balance := balance r + amount tx\<rparr>)
            (fmupd (sender tx) (acc\<lparr>balance := balance acc - (amount tx + fee tx), acc_nonce := n\<rparr>)
              (accounts s))\<rparr>)"

definition transfer_enabled :: "crypto \<Rightarrow> state \<Rightarrow> transaction \<Rightarrow> account \<Rightarrow> bool" where
  "transfer_enabled K s tx acc \<longleftrightarrow>
     tx_basic_validate K tx = Inr () \<and> get_account s (sender tx) = Some acc \<and>
     acc_nonce acc = nonce tx \<and> unat (nonce tx) + 1 < 2 ^ 64 \<and>
     unat (amount tx) + unat (fee tx) \<le> unat (balance acc) \<and>
     (sender tx \<noteq> receiver tx \<longrightarrow> bal s (receiver tx) + unat (amount tx) < 2 ^ 64)"

lemma apply_transaction_Inl: "apply_transaction K s tx = (s', Inl e) \<Longrightarrow> s' = s"
  by (auto simp: apply_transaction_def apply_self_transfer_def Let_def
      split: sum.splits option.splits if_splits)

text \<open>Acceptance and effect of \<open>apply_transaction\<close> in one equation.\<close>

lemma amount_fee_sub:
  fixes b :: u64
  assumes "unat (amount tx) + unat (fee tx) \<le> unat b"
  shows "amount tx + fee tx \<le> b"
    and "unat (amount tx) + unat (fee tx) < 2 ^ LENGTH(64)"
    and "unat (b - (amount tx + fee tx)) + unat (amount tx) < 2 ^ LENGTH(64)"
    and "b - (amount tx + fee tx) + amount tx = b - fee tx"
proof -
  show lt: "unat (amount tx) + unat (fee tx) < 2 ^ LENGTH(64)"
    using assms unat_bound [of b] by simp
  show le: "amount tx + fee tx \<le> b"
    using assms lt by (simp add: word_le_nat_alt unat_plus_no_overflow)
  show "unat (b - (amount tx + fee tx)) + unat (amount tx) < 2 ^ LENGTH(64)"
    using assms lt le unat_bound [of b] by (simp add: unat_sub unat_plus_no_overflow)
  show "b - (amount tx + fee tx) + amount tx = b - fee tx" by simp
qed

lemma apply_self_transfer_ok:
  "apply_self_transfer s tx = (s', Inr ()) \<longleftrightarrow>
     (\<exists>acc. get_account s (sender tx) = Some acc \<and> acc_nonce acc = nonce tx \<and>
        unat (nonce tx) + 1 < 2 ^ 64 \<and> unat (amount tx) + unat (fee tx) \<le> unat (balance acc) \<and>
        s' = s\<lparr>accounts := fmupd (sender tx)
               (acc\<lparr>balance := balance acc - fee tx, acc_nonce := acc_nonce acc + 1\<rparr>) (accounts s)\<rparr>)"
  (is "?L \<longleftrightarrow> ?R")
proof
  assume ?L
  then show ?R
    by (auto simp: apply_self_transfer_def get_account_def checked_add_Some_iff checked_sub_Some_iff
        bind_eq_Some_conv not_less word_le_nat_alt unat_plus_no_overflow
        split: option.splits if_splits)
next
  assume ?R
  then obtain acc where "unat (amount tx) + unat (fee tx) \<le> unat (balance acc)" and
    "get_account s (sender tx) = Some acc" "acc_nonce acc = nonce tx" "unat (nonce tx) + 1 < 2 ^ 64"
    "s' = s\<lparr>accounts := fmupd (sender tx)
       (acc\<lparr>balance := balance acc - fee tx, acc_nonce := acc_nonce acc + 1\<rparr>) (accounts s)\<rparr>" by blast
  with amount_fee_sub [OF this(1)] show ?L
    by (simp add: apply_self_transfer_def get_account_def checked_add_def checked_sub_def not_less [symmetric])
qed

lemma receiver_balance_ok:
  "(case fmlookup (accounts s) r of
      Some a \<Rightarrow> ok_or e (checked_add (balance a) v) | None \<Rightarrow> Inr v) = Inr w \<longleftrightarrow>
   bal s r + unat v < 2 ^ 64 \<and>
   w = balance (case get_account s r of None \<Rightarrow> account_new r 0 | Some a \<Rightarrow> a) + v"
  using unat_bound [of v]
  by (auto simp: bal_def get_account_def checked_add_Some_iff split: option.splits)

lemma apply_transaction_ok:
  "apply_transaction K s tx = (s', Inr ()) \<longleftrightarrow>
     (\<exists>acc. transfer_enabled K s tx acc \<and> s' = transfer_result s tx acc)"
  (is "?L \<longleftrightarrow> ?R")
proof (cases "sender tx = receiver tx")
  case True
  then show ?thesis
    by (auto simp: apply_transaction_def apply_self_transfer_ok transfer_enabled_def
        transfer_result_def split: sum.splits)
next
  case False
  show ?thesis
  proof
    assume ?L
    with False show ?R
      by (auto simp: apply_transaction_def transfer_enabled_def transfer_result_def get_account_def
          receiver_balance_ok checked_add_Some_iff checked_sub_Some_iff Let_def
          not_less word_le_nat_alt unat_plus_no_overflow
          split: sum.splits option.splits if_splits)
  next
    assume ?R
    then obtain acc where acc: "transfer_enabled K s tx acc" "s' = transfer_result s tx acc" by blast
    then have "unat (amount tx) + unat (fee tx) \<le> unat (balance acc)"
      by (simp add: transfer_enabled_def)
    from acc False amount_fee_sub [OF this] show ?L
      by (auto simp: apply_transaction_def transfer_enabled_def transfer_result_def get_account_def
          checked_add_def checked_sub_def Let_def bal_def not_less [symmetric]
          split: option.splits)
  qed
qed

lemma transfer_frame:
  "a \<noteq> sender tx \<Longrightarrow> a \<noteq> receiver tx \<Longrightarrow>
     get_account (transfer_result s tx acc) a = get_account s a"
  by (simp add: transfer_result_def get_account_def Let_def)

lemma transfer_bal_other:
  "a \<noteq> sender tx \<Longrightarrow> a \<noteq> receiver tx \<Longrightarrow> bal (transfer_result s tx acc) a = bal s a"
  by (simp add: transfer_result_def bal_def Let_def)

lemma transfer_bal:
  assumes "transfer_enabled K s tx acc"
  shows "bal s (sender tx) = unat (balance acc)"
    and "sender tx = receiver tx \<Longrightarrow>
      bal (transfer_result s tx acc) (sender tx) + unat (fee tx) = bal s (sender tx)"
    and "sender tx \<noteq> receiver tx \<Longrightarrow>
      bal (transfer_result s tx acc) (sender tx) + (unat (amount tx) + unat (fee tx)) = bal s (sender tx)"
    and "sender tx \<noteq> receiver tx \<Longrightarrow>
      bal (transfer_result s tx acc) (receiver tx) = bal s (receiver tx) + unat (amount tx)"
proof -
  from assms have le: "unat (amount tx) + unat (fee tx) \<le> unat (balance acc)"
    and acc: "fmlookup (accounts s) (sender tx) = Some acc"
    and rcv: "sender tx \<noteq> receiver tx \<Longrightarrow> bal s (receiver tx) + unat (amount tx) < 2 ^ 64"
    by (auto simp: transfer_enabled_def get_account_def)
  note sub = amount_fee_sub [OF le]
  have fee_le: "fee tx \<le> balance acc" using le by (simp add: word_le_nat_alt)
  show b: "bal s (sender tx) = unat (balance acc)" using acc by (simp add: bal_def)
  show "bal (transfer_result s tx acc) (sender tx) + unat (fee tx) = bal s (sender tx)"
    if "sender tx = receiver tx"
    using that b fee_le by (simp add: transfer_result_def Let_def bal_def unat_sub word_le_nat_alt)
  show "bal (transfer_result s tx acc) (sender tx) + (unat (amount tx) + unat (fee tx)) = bal s (sender tx)"
    if "sender tx \<noteq> receiver tx"
    using that b le sub(1,2)
    by (simp add: transfer_result_def Let_def bal_def unat_sub unat_plus_no_overflow)
  show "bal (transfer_result s tx acc) (receiver tx) = bal s (receiver tx) + unat (amount tx)"
    if "sender tx \<noteq> receiver tx"
    using that rcv [OF that]
    by (simp add: transfer_result_def Let_def bal_def get_account_def unat_plus_no_overflow
        split: option.splits)
qed

lemma transfer_nonce_sender:
  "transfer_enabled K s tx acc \<Longrightarrow> nonce_at s (sender tx) = unat (nonce tx)"
  "transfer_enabled K s tx acc \<Longrightarrow> nonce_at (transfer_result s tx acc) (sender tx) = Suc (unat (nonce tx))"
  by (simp_all add: transfer_enabled_def transfer_result_def Let_def nonce_at_def get_account_def
      unat_plus_no_overflow)

lemma transfer_nonce_other:
  "a \<noteq> sender tx \<Longrightarrow> nonce_at (transfer_result s tx acc) a = nonce_at s a"
  by (simp add: transfer_result_def Let_def nonce_at_def get_account_def split: option.split)

lemma transfer_supply:
  assumes "transfer_enabled K s tx acc"
  shows "total_supply (transfer_result s tx acc) + unat (fee tx) = total_supply s"
proof (rule supply_two_point [of "sender tx" "receiver tx"])
  show "bal (transfer_result s tx acc) x = bal s x" if "x \<noteq> sender tx" "x \<noteq> receiver tx" for x
    using that by (rule transfer_bal_other)
  show "sum (bal (transfer_result s tx acc)) {sender tx, receiver tx} + unat (fee tx) =
      sum (bal s) {sender tx, receiver tx}"
    using transfer_bal [OF assms] by (cases "sender tx = receiver tx") auto
qed

lemma transfer_accounts_wf:
  "transfer_enabled K s tx acc \<Longrightarrow> accounts_wf s \<Longrightarrow> accounts_wf (transfer_result s tx acc)"
  by (auto simp: accounts_wf_def transfer_enabled_def transfer_result_def Let_def get_account_def
      split: option.splits)

section \<open>Runs of transactions\<close>

text \<open>
  What block production, block append and replay need of a ledger: a rejected transaction
  changes nothing; an accepted one carries its sender's next sequence number and advances it,
  leaves the other sequence numbers alone, and burns its fee.
\<close>

locale ledger =
  fixes apply_tx :: "'s \<Rightarrow> 't \<Rightarrow> 's \<times> ('e + unit)"
    and next_seq :: "'s \<Rightarrow> 'a \<Rightarrow> nat"
    and funds :: "'s \<Rightarrow> nat"
    and src :: "'t \<Rightarrow> 'a"
    and seq_no :: "'t \<Rightarrow> nat"
    and burn :: "'t \<Rightarrow> nat"
  assumes rejected_frame: "apply_tx s t = (s', Inl e) \<Longrightarrow> s' = s"
    and accepted_seq: "apply_tx s t = (s', Inr ()) \<Longrightarrow> seq_no t = next_seq s (src t)"
    and accepted_next: "apply_tx s t = (s', Inr ()) \<Longrightarrow> next_seq s' (src t) = Suc (seq_no t)"
    and accepted_other:
      "apply_tx s t = (s', Inr ()) \<Longrightarrow> a \<noteq> src t \<Longrightarrow> next_seq s' a = next_seq s a"
    and accepted_burn: "apply_tx s t = (s', Inr ()) \<Longrightarrow> funds s' + burn t = funds s"
begin

lemma run_burn:
  "run_steps apply_tx s ts = (s', Inr ()) \<Longrightarrow> funds s' + sum_list (map burn ts) = funds s"
proof (induction ts arbitrary: s)
  case (Cons t ts)
  then obtain s1 where "apply_tx s t = (s1, Inr ())" "run_steps apply_tx s1 ts = (s', Inr ())"
    by (auto simp: run_steps_Cons_ok simp del: run_steps.simps)
  with Cons.IH accepted_burn show ?case by fastforce
qed simp

lemma run_next_seq_mono:
  "run_steps apply_tx s ts = (s', Inr ()) \<Longrightarrow> next_seq s a \<le> next_seq s' a"
proof (induction ts arbitrary: s)
  case (Cons t ts)
  then obtain s1 where s1: "apply_tx s t = (s1, Inr ())" and "run_steps apply_tx s1 ts = (s', Inr ())"
    by (auto simp: run_steps_Cons_ok simp del: run_steps.simps)
  with Cons.IH have "next_seq s1 a \<le> next_seq s' a" by blast
  moreover have "next_seq s a \<le> next_seq s1 a"
    using accepted_seq [OF s1] accepted_next [OF s1] accepted_other [OF s1, of a]
    by (cases "a = src t") auto
  ultimately show ?case by simp
qed simp

lemma run_seq_gapless:
  "run_steps apply_tx s ts = (s', Inr ()) \<Longrightarrow>
     map seq_no (filter (\<lambda>t. src t = a) ts) = [next_seq s a ..< next_seq s' a]"
proof (induction ts arbitrary: s)
  case (Cons t ts)
  then obtain s1 where s1: "apply_tx s t = (s1, Inr ())" and r: "run_steps apply_tx s1 ts = (s', Inr ())"
    by (auto simp: run_steps_Cons_ok simp del: run_steps.simps)
  from Cons.IH [OF r] run_next_seq_mono [OF r, of a]
    accepted_seq [OF s1] accepted_next [OF s1] accepted_other [OF s1, of a]
  show ?case by (cases "src t = a") (auto simp: upt_conv_Cons)
qed simp

lemma run_no_replay:
  "run_steps apply_tx s ts = (s', Inr ()) \<Longrightarrow> distinct (map (\<lambda>t. (src t, seq_no t)) ts)"
proof (induction ts arbitrary: s)
  case (Cons t ts)
  then obtain s1 where s1: "apply_tx s t = (s1, Inr ())" and r: "run_steps apply_tx s1 ts = (s', Inr ())"
    by (auto simp: run_steps_Cons_ok simp del: run_steps.simps)
  have "seq_no t < seq_no u" if "u \<in> set ts" "src u = src t" for u
  proof -
    from that have "seq_no u \<in> set (map seq_no (filter (\<lambda>v. src v = src t) ts))" by auto
    with run_seq_gapless [OF r, of "src t"] accepted_next [OF s1] show ?thesis by simp
  qed
  with Cons.IH [OF r] show ?case by force
qed simp

end

interpretation ledger_run: ledger "apply_transaction K" nonce_at total_supply sender
  "\<lambda>tx. unat (nonce tx)" "\<lambda>tx. unat (fee tx)" for K
proof
  show "apply_transaction K s t = (s', Inl e) \<Longrightarrow> s' = s" for s t s' e
    by (rule apply_transaction_Inl)
qed (auto simp: apply_transaction_ok transfer_nonce_sender transfer_nonce_other transfer_supply)

lemma run_accounts_wf:
  "run_steps (apply_transaction K) s txs = (s', Inr ()) \<Longrightarrow> accounts_wf s \<Longrightarrow> accounts_wf s'"
proof (induction txs arbitrary: s)
  case (Cons tx txs)
  then show ?case
    by (auto simp: run_steps_Cons_ok apply_transaction_ok transfer_accounts_wf simp del: run_steps.simps)
qed simp

section \<open>The genesis state and the supply audit\<close>

lemma fold_insert_lookup:
  "fmlookup (accounts (fold (\<lambda>(addr, b) st. st\<lparr>accounts := fmupd addr (account_new addr b) (accounts st)\<rparr>) ps st)) a =
    (case map_of (rev ps) a of None \<Rightarrow> fmlookup (accounts st) a | Some b \<Rightarrow> Some (account_new a b))"
  by (induction ps arbitrary: st) (auto simp: map_add_def split: option.splits)

lemma state_from_genesis_lookup:
  assumes "state_from_genesis g = Inr s"
  shows "get_account s a = map_option (account_new a) (map_of (alloc_pairs g) a)"
proof -
  from assms obtain ps where ps: "sorted_pairs g = Inr ps" and
    s: "s = fold (\<lambda>(addr, b) st. st\<lparr>accounts := fmupd addr (account_new addr b) (accounts st)\<rparr>) ps state_new"
    by (auto simp: state_from_genesis_def and_then_Inr_iff)
  have "map_of (rev ps) = map_of (alloc_pairs g)"
    using sorted_pairs_distinct [OF ps] ps
    by (subst map_of_inject_set) (auto simp: sorted_pairs_ok genesis_valid_def rev_map [symmetric])
  then show ?thesis
    by (simp add: s get_account_def fold_insert_lookup state_new_def split: option.split)
qed

lemma state_from_genesis_wf: "state_from_genesis g = Inr s \<Longrightarrow> accounts_wf s"
  using state_from_genesis_lookup [of g s] by (auto simp: accounts_wf_def get_account_def)

text \<open>The checked sum over any order of the balances.\<close>

lemma try_fold_checked_sum:
  fixes acc :: u64
  shows "try_fold (\<lambda>acc a. ok_or e (checked_add acc (f a))) acc xs =
    (if unat acc + sum_list (map (\<lambda>a. unat (f a)) xs) < 2 ^ 64
     then Inr (acc + sum_list (map f xs)) else Inl e)"
proof (induction xs arbitrary: acc)
  case Nil
  then show ?case using unat_bound [of acc] by simp
next
  case (Cons x xs)
  then show ?case
    by (auto simp: checked_add_def unat_plus_no_overflow add.assoc)
qed

lemma sum_balances:
  "sum_list (map (\<lambda>p. unat (balance (snd p))) (accounts_sorted s)) = total_supply s"
proof -
  have "sum_list (map (\<lambda>p. unat (balance (snd p))) (accounts_sorted s)) =
      sum_list (map (bal s) (sorted_list_of_fset (fmdom (accounts s))))"
    unfolding accounts_sorted_def map_map
    by (intro arg_cong [of _ _ sum_list] map_cong refl) (auto simp: bal_def fmlookup_dom_iff sorted_list_of_fset.rep_eq)
  also have "\<dots> = total_supply s"
    unfolding total_supply_def by (simp add: sum_list_distinct_conv_sum_set sorted_list_of_fset.rep_eq)
  finally show ?thesis .
qed

lemma unat_sum_list:
  fixes xs :: "u64 list"
  shows "sum_list (map unat xs) < 2 ^ 64 \<Longrightarrow> unat (sum_list xs) = sum_list (map unat xs)"
  by (induction xs) (simp_all add: unat_plus_no_overflow)

lemma total_balance_sum_eq:
  "total_balance_sum s =
    (if total_supply s < 2 ^ 64 then Inr (sum_list (map (balance \<circ> snd) (accounts_sorted s)))
     else Inl (StateError ''total balance sum overflow''))"
  using sum_balances [of s]
  by (simp add: total_balance_sum_def try_fold_checked_sum o_def)

text \<open>
  The source folds over \<open>HashMap::values\<close>, in no particular order.  Any enumeration of the
  accounts gives the same audit.
\<close>

lemma total_balance_sum_any_order:
  assumes "mset accs = mset (map snd (accounts_sorted s))"
  shows "try_fold (\<lambda>acc a. ok_or (StateError ''total balance sum overflow'') (checked_add acc (balance a))) 0 accs =
    total_balance_sum s"
proof -
  have "mset (map f accs) = mset (map f (map snd (accounts_sorted s)))" for f :: "account \<Rightarrow> 'b"
    by (simp only: mset_map assms)
  then have "sum_list (map balance accs) = sum_list (map balance (map snd (accounts_sorted s)))"
    "sum_list (map (\<lambda>a. unat (balance a)) accs) = sum_list (map (\<lambda>a. unat (balance a)) (map snd (accounts_sorted s)))"
    by (metis sum_mset_sum_list)+
  then show ?thesis by (simp only: total_balance_sum_def try_fold_checked_sum)
qed

lemma supply_from_genesis:
  assumes "state_from_genesis g = Inr s"
  shows "total_supply s = sum_list (map (unat \<circ> alloc_balance) (allocations g))"
proof -
  let ?ps = "alloc_pairs g"
  from assms have d: "distinct (map fst ?ps)"
    by (auto simp: state_from_genesis_def and_then_Inr_iff sorted_pairs_ok genesis_valid_def)
  have bal: "bal s a = (case map_of ?ps a of None \<Rightarrow> 0 | Some b \<Rightarrow> unat b)" for a
    using state_from_genesis_lookup [OF assms, of a]
    by (auto simp: bal_def get_account_def split: option.split)
  have "fset (fmdom (accounts s)) = dom (map_of ?ps)"
    using state_from_genesis_lookup [OF assms]
    by (auto simp: get_account_def fmlookup_dom_iff)
  then have "fset (fmdom (accounts s)) = fst ` set ?ps" by (simp add: dom_map_of_conv_image_fst)
  then have "total_supply s = (\<Sum>a\<in>set (map fst ?ps). bal s a)" by (simp add: total_supply_def)
  also have "\<dots> = sum_list (map (bal s) (map fst ?ps))" using d by (rule sum_list_distinct_conv_sum_set [symmetric])
  also have "\<dots> = sum_list (map (\<lambda>p. unat (snd p)) ?ps)"
    using d by (intro arg_cong [of _ _ sum_list]) (auto simp: bal)
  finally show ?thesis by (simp add: alloc_pairs_def o_def)
qed

section \<open>Properties\<close>

lemma tx_basic_validate_errors:
  "tx_basic_validate K tx = Inl (StateError m) \<Longrightarrow> m \<in> {''missing tx hash'', ''transaction hash mismatch''}"
  by (auto simp: tx_validate_defs and_then_Inl_iff split: if_splits)

lemma receiver_credit_fits:
  assumes "total_supply s < 2 ^ 64" "sender tx \<noteq> receiver tx" "fmlookup (accounts s) (sender tx) = Some acc"
    "unat (amount tx) + unat (fee tx) \<le> unat (balance acc)"
  shows "bal s (receiver tx) + unat (amount tx) < 2 ^ 64"
  using assms supply_ge_two [OF assms(2), of s] by (simp add: bal_def)

lemma debit_fits:
  assumes "checked_add (amount tx) (fee tx) = Some c" "\<not> b < c"
  shows "\<exists>d. checked_sub b c = Some d \<and> checked_add d (amount tx) \<noteq> None"
proof -
  from assms have "unat (amount tx) + unat (fee tx) \<le> unat b"
    by (simp add: checked_add_Some_iff not_less word_le_nat_alt unat_plus_no_overflow)
  from amount_fee_sub [OF this] assms(1) show ?thesis
    by (simp add: checked_sub_def checked_add_def)
qed

lemma credit_fits:
  assumes "checked_add (amount tx) (fee tx) = Some c" "\<not> balance acc < c" "sender tx \<noteq> receiver tx"
    "fmlookup (accounts s) (sender tx) = Some acc" "total_supply s < 2 ^ 64"
  shows "\<exists>w. (case fmlookup (accounts s) (receiver tx) of
      Some a \<Rightarrow> ok_or x (checked_add (balance a) (amount tx)) | None \<Rightarrow> Inr (amount tx)) = Inr w"
proof -
  from assms have "unat (amount tx) + unat (fee tx) \<le> unat (balance acc)"
    by (simp add: checked_add_Some_iff not_less word_le_nat_alt unat_plus_no_overflow)
  from receiver_credit_fits [OF assms(5,3,4) this] show ?thesis by (simp add: receiver_balance_ok)
qed

lemma no_overflow_step:
  assumes "total_supply s < 2 ^ 64" "apply_transaction K s tx = (s', Inl e)"
  shows "e \<notin> {StateError ''receiver balance overflow'', StateError ''sender balance debit underflow'',
     StateError ''balance update overflow''}"
proof (cases "tx_basic_validate K tx")
  case (Inl e')
  with assms(2) show ?thesis by (auto simp: apply_transaction_def dest!: tx_basic_validate_errors)
next
  case (Inr u)
  note ap = assms(2) [unfolded apply_transaction_def apply_self_transfer_def Inr, simplified]
  show ?thesis
  proof (cases "checked_add (amount tx) (fee tx)")
    case None
    with ap show ?thesis by (auto split: if_splits)
  next
    case (Some c)
    show ?thesis
    proof (cases "fmlookup (accounts s) (sender tx)")
      case None
      with ap Some show ?thesis by (auto split: if_splits)
    next
      case acc: (Some acc)
      show ?thesis
      proof (cases "acc_nonce acc = nonce tx \<and> \<not> balance acc < c")
        case False
        with ap Some acc show ?thesis by (auto split: if_splits)
      next
        case ok: True
        with debit_fits [OF Some, of "balance acc"] obtain d where
          d: "checked_sub (balance acc) c = Some d" "checked_add d (amount tx) \<noteq> None" by blast
        show ?thesis
        proof (cases "sender tx = receiver tx")
          case True
          with ok Some acc ap d show ?thesis by (cases "checked_add (nonce tx) 1") auto
        next
          case False
          obtain w where "(case fmlookup (accounts s) (receiver tx) of
               Some a \<Rightarrow> ok_or (StateError ''receiver balance overflow'') (checked_add (balance a) (amount tx))
             | None \<Rightarrow> Inr (amount tx)) = Inr w"
            using credit_fits [OF Some conjunct2 [OF ok] False acc assms(1)] by (rule exE)
          with False ok Some acc ap d show ?thesis
            by (cases "checked_add (nonce tx) 1") (auto simp: Let_def)
        qed
      qed
    qed
  qed
qed

text \<open>
  C10. What an accepted transaction does, for every account at once: the sender pays amount and
  fee, the receiver gains the amount (a self-transfer only pays the fee), the sender's nonce is
  the one in the transaction and advances by one, and no other account changes.
\<close>

theorem apply_transaction_effect:
  assumes "apply_transaction K s tx = (s', Inr ())"
  shows "nonce_at s (sender tx) = unat (nonce tx) \<and> nonce_at s' (sender tx) = Suc (unat (nonce tx)) \<and>
    (\<forall>a. bal s' a + (if a = sender tx then unat (amount tx) + unat (fee tx) else 0) =
         bal s a + (if a = receiver tx then unat (amount tx) else 0)) \<and>
    (\<forall>a. a \<notin> {sender tx, receiver tx} \<longrightarrow> get_account s' a = get_account s a)"
proof -
  from assms obtain acc where en: "transfer_enabled K s tx acc" and s': "s' = transfer_result s tx acc"
    by (auto simp: apply_transaction_ok)
  note b = transfer_bal(2-4) [OF en]
  have "bal s' a + (if a = sender tx then unat (amount tx) + unat (fee tx) else 0) =
         bal s a + (if a = receiver tx then unat (amount tx) else 0)" for a
    using b transfer_bal_other [of a tx s acc] by (cases "a = sender tx"; cases "a = receiver tx") (auto simp: s')
  with transfer_nonce_sender [OF en] show ?thesis by (simp add: s' transfer_frame)
qed

text \<open>
  Supply: along any accepted sequence of transactions the sum of all balances falls by
  exactly the fees burned; nothing is created.
\<close>

theorem supply_conserved:
  assumes "run_steps (apply_transaction K) s txs = (s', Inr ())"
  shows "total_supply s' + sum_list (map (\<lambda>tx. unat (fee tx)) txs) = total_supply s"
  using assms by (rule ledger_run.run_burn)

text \<open>
  C11. Replay protection: in any accepted sequence the transactions of one sender carry exactly
  the consecutive nonces from the account's first to its last, in order; in particular no
  (sender, nonce) pair occurs twice.
\<close>

theorem nonces_gapless:
  assumes "run_steps (apply_transaction K) s txs = (s', Inr ())"
  shows "map (\<lambda>tx. unat (nonce tx)) (filter (\<lambda>tx. sender tx = a) txs) = [nonce_at s a ..< nonce_at s' a] \<and>
    distinct (map (\<lambda>tx. (sender tx, unat (nonce tx))) txs)"
  using ledger_run.run_seq_gapless [OF assms] ledger_run.run_no_replay [OF assms] by blast

text \<open>
  C12. If the initial supply fits in 64 bits, which \<open>total_balance_sum\<close> checks, then applying
  transactions never runs into an arithmetic error: neither the receiver's credit nor the
  sender's debit can overflow.
\<close>

theorem no_balance_overflow:
  assumes "total_balance_sum s = Inr w"
  shows "snd (run_steps (apply_transaction K) s txs) \<notin>
    {Inl (StateError ''receiver balance overflow''), Inl (StateError ''sender balance debit underflow''),
     Inl (StateError ''balance update overflow'')}"
proof -
  have "total_supply s < 2 ^ 64" using assms by (auto simp: total_balance_sum_eq split: if_splits)
  then show ?thesis
  proof (induction txs arbitrary: s)
    case (Cons tx txs)
    obtain s1 r where ap: "apply_transaction K s tx = (s1, r)" by fastforce
    show ?case
    proof (cases r)
      case (Inr u)
      with ap have ok: "apply_transaction K s tx = (s1, Inr ())" by simp
      with Cons.prems ledger_run.accepted_burn [OF ok] have "total_supply s1 < 2 ^ 64" by linarith
      with Cons.IH ok show ?thesis by simp
    next
      case (Inl e)
      with ap have "apply_transaction K s tx = (s1, Inl e)" by simp
      then have "e \<notin> {StateError ''receiver balance overflow'', StateError ''sender balance debit underflow'',
         StateError ''balance update overflow''}"
        using no_overflow_step [OF Cons.prems] by blast
      with Inl ap show ?thesis by simp
    qed
  qed simp
qed

end
