(* ===== verification/Mempool.thy ===== *)
theory Mempool
  imports Ledger
begin

text \<open>
  \<open>mempool.rs\<close>: the queue of transactions waiting for a block.  Three indexes are kept in step: the
  transactions by id, the submission order, and the (sender, nonce) slots.  The invariant
  \<open>mempool_inv\<close> ties them together; under it a pool is a first-in-first-out list of transactions
  (\<open>clone_fifo\<close>), and every operation is described by what it does to that list.

  The eviction loop of \<open>try_submit\<close> would spin forever on a pool whose order queue has lost a
  transaction, so it is a partial function; on pools that satisfy the invariant it returns.
\<close>

record mempool =
  mp_capacity :: nat
  mp_txs :: "(string, transaction) fmap"
  mp_order :: "string list"
  by_sender :: "(address, (u64, string) fmap) fmap"

definition mempool_new :: "nat \<Rightarrow> mempool" where
  "mempool_new cap = \<lparr>mp_capacity = cap, mp_txs = fmempty, mp_order = [], by_sender = fmempty\<rparr>"

definition mp_len :: "mempool \<Rightarrow> nat" where
  "mp_len mp = fcard (fmdom (mp_txs mp))"

definition mp_is_empty :: "mempool \<Rightarrow> bool" where
  "mp_is_empty mp \<longleftrightarrow> mp_len mp = 0"

definition remove_tx_hash :: "mempool \<Rightarrow> string \<Rightarrow> mempool" where
  "remove_tx_hash mp h =
    (case fmlookup (mp_txs mp) h of
       None \<Rightarrow> mp
     | Some tx \<Rightarrow>
       let mp = mp\<lparr>mp_txs := fmdrop h (mp_txs mp)\<rparr> in
       (case fmlookup (by_sender mp) (sender tx) of
          None \<Rightarrow> mp
        | Some m \<Rightarrow>
          let m = fmdrop (nonce tx) m in
          if fm_is_empty m then mp\<lparr>by_sender := fmdrop (sender tx) (by_sender mp)\<rparr>
          else mp\<lparr>by_sender := fmupd (sender tx) m (by_sender mp)\<rparr>))"

function evict_oldest :: "mempool \<Rightarrow> mempool" where
  "evict_oldest mp =
    (case mp_order mp of
       [] \<Rightarrow> mp
     | h # rest \<Rightarrow>
       let mp = mp\<lparr>mp_order := rest\<rparr> in
       if fmlookup (mp_txs mp) h \<noteq> None then remove_tx_hash mp h else evict_oldest mp)"
  by auto
termination by (relation "measure (length \<circ> mp_order)") auto

declare evict_oldest.simps [simp del]

text \<open>The loop \<open>while self.txs.len() >= self.capacity\<close> of \<open>try_submit\<close>.\<close>

partial_function (option) evict_until_room :: "mempool \<Rightarrow> mempool option" where
  "evict_until_room mp =
    (if mp_len mp \<ge> mp_capacity mp then
       let mp = evict_oldest mp in
       if mp_is_empty mp then Some mp else evict_until_room mp
     else Some mp)"

text \<open>The guards shared by the two submission paths, and the three insertions.\<close>

definition submit_checks :: "crypto \<Rightarrow> mempool \<Rightarrow> transaction \<Rightarrow> protocol_error + unit" where
  "submit_checks K mp tx =
    and_then (tx_basic_validate K tx) (\<lambda>_.
      if fmlookup (mp_txs mp) (tx_hash tx) \<noteq> None then Inl DuplicateTransaction
      else case fmlookup (by_sender mp) (sender tx) of
        None \<Rightarrow> Inr ()
      | Some m \<Rightarrow> (case fmlookup m (nonce tx) of
          None \<Rightarrow> Inr ()
        | Some existing \<Rightarrow> if existing \<noteq> tx_hash tx then Inl MempoolNonceConflict else Inr ()))"

definition pool_insert :: "mempool \<Rightarrow> transaction \<Rightarrow> mempool" where
  "pool_insert mp tx =
    (let h = tx_hash tx;
         m = (case fmlookup (by_sender mp) (sender tx) of None \<Rightarrow> fmempty | Some m \<Rightarrow> m)
     in mp\<lparr>by_sender := fmupd (sender tx) (fmupd (nonce tx) h m) (by_sender mp),
           mp_txs := fmupd h tx (mp_txs mp), mp_order := mp_order mp @ [h]\<rparr>)"

definition try_submit :: "crypto \<Rightarrow> mempool \<Rightarrow> transaction \<Rightarrow> (mempool \<times> (protocol_error + unit)) option" where
  "try_submit K mp tx =
    (case submit_checks K mp tx of
       Inl e \<Rightarrow> Some (mp, Inl e)
     | Inr _ \<Rightarrow>
       Option.bind (evict_until_room mp) (\<lambda>mp.
       if mp_len mp \<ge> mp_capacity mp then Some (mp, Inl MempoolFull)
       else Some (pool_insert mp tx, Inr ())))"

definition try_submit_pending_drain :: "crypto \<Rightarrow> mempool \<Rightarrow> transaction \<Rightarrow> mempool \<times> (protocol_error + unit)" where
  "try_submit_pending_drain K mp tx =
    (case submit_checks K mp tx of
       Inl e \<Rightarrow> (mp, Inl e)
     | Inr _ \<Rightarrow>
       if mp_len mp \<ge> mp_capacity mp then (mp, Inl MempoolFull)
       else (pool_insert mp tx, Inr ()))"

definition ordered_candidates :: "mempool \<Rightarrow> nat \<Rightarrow> transaction list" where
  "ordered_candidates mp limit = take limit (List.map_filter (fmlookup (mp_txs mp)) (mp_order mp))"

text \<open>The loop of \<open>ordered_candidates_for_seal\<close> over the order queue.\<close>

fun seal_walk :: "crypto \<Rightarrow> (string, transaction) fmap \<Rightarrow> nat \<Rightarrow> state \<Rightarrow> transaction list \<Rightarrow> string list \<Rightarrow>
    protocol_error + transaction list" where
  "seal_walk K pool limit s out [] = Inr out"
| "seal_walk K pool limit s out (h # hs) =
    (if length out \<ge> limit then Inr out
     else case fmlookup pool h of
       None \<Rightarrow> seal_walk K pool limit s out hs
     | Some tx \<Rightarrow>
       (case map_option acc_nonce (get_account s (sender tx)) of
          None \<Rightarrow> (case apply_transaction K s tx of
              (s', Inr _) \<Rightarrow> seal_walk K pool limit s' (out @ [tx]) hs
            | (s', Inl _) \<Rightarrow> seal_walk K pool limit s' out hs)
        | Some n \<Rightarrow>
          if nonce tx > n then seal_walk K pool limit s out hs
          else if nonce tx < n then Inl InvalidNonce
          else (case apply_transaction K s tx of
              (s', Inr _) \<Rightarrow> seal_walk K pool limit s' (out @ [tx]) hs
            | (s', Inl e) \<Rightarrow> Inl e)))"

definition ordered_candidates_for_seal ::
  "crypto \<Rightarrow> mempool \<Rightarrow> state \<Rightarrow> nat \<Rightarrow> protocol_error + transaction list" where
  "ordered_candidates_for_seal K mp s limit = seal_walk K (mp_txs mp) limit s [] (mp_order mp)"

definition remove_by_tx_hashes :: "mempool \<Rightarrow> string list \<Rightarrow> mempool" where
  "remove_by_tx_hashes mp hashes =
    (let remove = remdups hashes;
         mp = fold (\<lambda>h mp. remove_tx_hash mp h) remove mp
     in mp\<lparr>mp_order := filter (\<lambda>x. x \<notin> set remove) (mp_order mp)\<rparr>)"

definition clone_fifo :: "mempool \<Rightarrow> transaction list" where
  "clone_fifo mp = List.map_filter (fmlookup (mp_txs mp)) (mp_order mp)"

definition restore_fifo :: "mempool \<Rightarrow> transaction list \<Rightarrow> mempool" where
  "restore_fifo mp ts =
    fold (\<lambda>tx mp. pool_insert mp tx) ts
      (mp\<lparr>mp_txs := fmempty, mp_order := [], by_sender := fmempty\<rparr>)"

function purge_front :: "crypto \<Rightarrow> state \<Rightarrow> mempool \<Rightarrow> nat \<Rightarrow> mempool \<times> nat" where
  "purge_front K committed mp removed =
    (case mp_order mp of
       [] \<Rightarrow> (mp, removed)
     | head_hash # rest \<Rightarrow>
       let popped = mp\<lparr>mp_order := rest\<rparr>;
           drop_head = remove_tx_hash popped head_hash in
       (case fmlookup (mp_txs mp) head_hash of
          None \<Rightarrow> purge_front K committed popped removed
        | Some tx \<Rightarrow>
       (case tx_basic_validate K tx of
          Inl _ \<Rightarrow> purge_front K committed drop_head (removed + 1)
        | Inr _ \<Rightarrow>
       (case get_account committed (sender tx) of
          None \<Rightarrow> purge_front K committed drop_head (removed + 1)
        | Some acc \<Rightarrow>
          if nonce tx < acc_nonce acc then purge_front K committed drop_head (removed + 1)
          else if nonce tx > acc_nonce acc then (mp, removed)
          else (case checked_add (amount tx) (fee tx) of
             None \<Rightarrow> purge_front K committed drop_head (removed + 1)
           | Some total_cost \<Rightarrow>
             if balance acc < total_cost then purge_front K committed drop_head (removed + 1)
             else (mp, removed))))))"
  by auto

lemma remove_tx_hash_order [simp]: "mp_order (remove_tx_hash mp h) = mp_order mp"
  by (simp add: remove_tx_hash_def Let_def split: option.split)

termination purge_front
  by (relation "measure (\<lambda>(K, s, mp, n). length (mp_order mp))") auto

declare purge_front.simps [simp del]

definition purge_nonviable_under_committed_state :: "crypto \<Rightarrow> mempool \<Rightarrow> state \<Rightarrow> mempool \<times> nat" where
  "purge_nonviable_under_committed_state K mp committed = purge_front K committed mp 0"

text \<open>The source collects the stale ids from \<open>HashMap::values\<close>, in no particular order.\<close>

definition stale_vs :: "state \<Rightarrow> transaction \<Rightarrow> bool" where
  "stale_vs committed tx =
    (case get_account committed (sender tx) of None \<Rightarrow> False | Some acc \<Rightarrow> nonce tx < acc_nonce acc)"

definition drop_stale_nonces_vs_committed :: "mempool \<Rightarrow> state \<Rightarrow> mempool \<times> nat" where
  "drop_stale_nonces_vs_committed mp committed =
    (let vals = map (\<lambda>h. the (fmlookup (mp_txs mp) h)) (sorted_list_of_fset (fmdom (mp_txs mp)));
         to_remove = map tx_hash (filter (stale_vs committed) vals)
     in (remove_by_tx_hashes mp to_remove, length to_remove))"

text \<open>The loop over \<open>seen\<close> that collects later holders of a taken slot.\<close>

fun slot_conflicts :: "(string, transaction) fmap \<Rightarrow> (address \<times> u64) set \<Rightarrow> string list \<Rightarrow> string list" where
  "slot_conflicts pool seen [] = []"
| "slot_conflicts pool seen (h # hs) =
    (case fmlookup pool h of
       None \<Rightarrow> slot_conflicts pool seen hs
     | Some tx \<Rightarrow>
       let key = (sender tx, nonce tx) in
       if key \<in> seen then h # slot_conflicts pool seen hs
       else slot_conflicts pool (insert key seen) hs)"

definition drop_later_sender_nonce_conflicts_keep_fifo_first :: "mempool \<Rightarrow> mempool \<times> nat" where
  "drop_later_sender_nonce_conflicts_keep_fifo_first mp =
    (let to_remove = slot_conflicts (mp_txs mp) {} (mp_order mp);
         mp = fold (\<lambda>h mp. remove_tx_hash mp h) to_remove mp
     in (mp\<lparr>mp_order := filter (\<lambda>x. fmlookup (mp_txs mp) x \<noteq> None) (mp_order mp)\<rparr>, length to_remove))"

definition hygiene_vs_committed_ledger :: "crypto \<Rightarrow> mempool \<Rightarrow> state \<Rightarrow> mempool \<times> (nat \<times> nat \<times> nat)" where
  "hygiene_vs_committed_ledger K mp committed =
    (let (mp, front) = purge_nonviable_under_committed_state K mp committed;
         (mp, stale) = drop_stale_nonces_vs_committed mp committed;
         (mp, dup) = drop_later_sender_nonce_conflicts_keep_fifo_first mp
     in (mp, (front, stale, dup)))"

section \<open>The invariant\<close>

definition slot :: "mempool \<Rightarrow> address \<Rightarrow> u64 \<Rightarrow> string option" where
  "slot mp a n = Option.bind (fmlookup (by_sender mp) a) (\<lambda>m. fmlookup m n)"

definition indexes_agree :: "mempool \<Rightarrow> bool" where
  "indexes_agree mp \<longleftrightarrow>
     (\<forall>h tx. fmlookup (mp_txs mp) h = Some tx \<longrightarrow> tx_hash tx = h) \<and>
     (\<forall>a n h. slot mp a n = Some h \<longleftrightarrow>
        (\<exists>tx. fmlookup (mp_txs mp) h = Some tx \<and> sender tx = a \<and> nonce tx = n)) \<and>
     (\<forall>a. fmlookup (by_sender mp) a \<noteq> Some fmempty)"

definition mempool_inv :: "mempool \<Rightarrow> bool" where
  "mempool_inv mp \<longleftrightarrow> indexes_agree mp \<and> distinct (mp_order mp) \<and>
     set (mp_order mp) = fset (fmdom (mp_txs mp)) \<and> mp_len mp \<le> mp_capacity mp"

lemma mp_txs_remove [simp]: "mp_txs (remove_tx_hash mp h) = fmdrop h (mp_txs mp)"
proof (cases "fmlookup (mp_txs mp) h")
  case None
  then have "fmdrop h (mp_txs mp) = mp_txs mp" by (intro fmap_ext) simp
  with None show ?thesis by (simp add: remove_tx_hash_def)
qed (simp add: remove_tx_hash_def Let_def split: option.split)

lemma mp_capacity_remove [simp]: "mp_capacity (remove_tx_hash mp h) = mp_capacity mp"
  by (simp add: remove_tx_hash_def Let_def split: option.split)

lemma agree_slot:
  "indexes_agree mp \<Longrightarrow> slot mp a n = Some h \<longleftrightarrow>
     (\<exists>tx. fmlookup (mp_txs mp) h = Some tx \<and> sender tx = a \<and> nonce tx = n)"
  unfolding indexes_agree_def by blast

lemma agree_hash: "indexes_agree mp \<Longrightarrow> fmlookup (mp_txs mp) h = Some tx \<Longrightarrow> tx_hash tx = h"
  unfolding indexes_agree_def by blast

lemma remove_absent: "fmlookup (mp_txs mp) h = None \<Longrightarrow> remove_tx_hash mp h = mp"
  by (simp add: remove_tx_hash_def)

lemma fmdrop_empty_lookup: "fmdrop k m = fmempty \<Longrightarrow> x \<noteq> k \<Longrightarrow> fmlookup m x = None"
  by (metis fmempty_lookup fmlookup_drop)

lemma slot_remove:
  "fmlookup (mp_txs mp) h = Some tx \<Longrightarrow>
     slot (remove_tx_hash mp h) a n = (if a = sender tx \<and> n = nonce tx then None else slot mp a n)"
  by (auto simp: remove_tx_hash_def Let_def slot_def fmdrop_empty_lookup split: option.split)

lemma nonempty_remove:
  "\<forall>a. fmlookup (by_sender mp) a \<noteq> Some fmempty \<Longrightarrow>
   fmlookup (by_sender (remove_tx_hash mp h)) a \<noteq> Some fmempty"
  by (auto simp: remove_tx_hash_def Let_def split: option.split)

lemma agree_remove: "indexes_agree mp \<Longrightarrow> indexes_agree (remove_tx_hash mp h)"
proof (cases "fmlookup (mp_txs mp) h")
  case None
  then show "indexes_agree mp \<Longrightarrow> ?thesis" by (simp add: remove_absent)
next
  case (Some tx)
  assume agree: "indexes_agree mp"
  note slots = agree_slot [OF agree]
  have "slot (remove_tx_hash mp h) a n = Some k \<longleftrightarrow>
      (\<exists>t. fmlookup (fmdrop h (mp_txs mp)) k = Some t \<and> sender t = a \<and> nonce t = n)" for a n k
    using Some slots [of a n k] slots [of "sender tx" "nonce tx" h] slots [of "sender tx" "nonce tx" k]
    by (auto simp: slot_remove)
  with agree nonempty_remove show ?thesis by (simp add: indexes_agree_def)
qed

lemma slot_insert:
  "slot (pool_insert mp tx) a n = (if a = sender tx \<and> n = nonce tx then Some (tx_hash tx) else slot mp a n)"
  by (auto simp: pool_insert_def Let_def slot_def split: option.split)

lemma pool_insert_simps [simp]:
  "mp_txs (pool_insert mp tx) = fmupd (tx_hash tx) tx (mp_txs mp)"
  "mp_order (pool_insert mp tx) = mp_order mp @ [tx_hash tx]"
  "mp_capacity (pool_insert mp tx) = mp_capacity mp"
  by (simp_all add: pool_insert_def Let_def)

lemma submit_checks_ok:
  "submit_checks K mp tx = Inr () \<longleftrightarrow> tx_basic_validate K tx = Inr () \<and>
     fmlookup (mp_txs mp) (tx_hash tx) = None \<and> slot mp (sender tx) (nonce tx) \<in> {None, Some (tx_hash tx)}"
  by (auto simp: submit_checks_def and_then_Inr_iff slot_def split: option.splits if_splits)

lemma submit_checks_free:
  assumes "indexes_agree mp" "submit_checks K mp tx = Inr ()"
  shows "fmlookup (mp_txs mp) (tx_hash tx) = None \<and> slot mp (sender tx) (nonce tx) = None"
  using assms unfolding submit_checks_ok indexes_agree_def by fastforce

lemma agree_insert:
  assumes "indexes_agree mp" "fmlookup (mp_txs mp) (tx_hash tx) = None" "slot mp (sender tx) (nonce tx) = None"
  shows "indexes_agree (pool_insert mp tx)"
proof -
  note slots = agree_slot [OF assms(1)]
  have "slot (pool_insert mp tx) a n = Some k \<longleftrightarrow>
      (\<exists>t. fmlookup (fmupd (tx_hash tx) tx (mp_txs mp)) k = Some t \<and> sender t = a \<and> nonce t = n)" for a n k
    using assms(2,3) slots [of a n k] by (auto simp: slot_insert)
  moreover have "fmlookup (by_sender (pool_insert mp tx)) a \<noteq> Some fmempty" for a
  proof -
    have "fmupd k v m \<noteq> fmempty" for k :: u64 and v :: string and m
      by (metis fmempty_lookup fmupd_lookup option.distinct(1))
    with assms(1) show ?thesis by (auto simp: pool_insert_def Let_def indexes_agree_def)
  qed
  moreover have "tx_hash t = k" if "fmlookup (mp_txs (pool_insert mp tx)) k = Some t" for k t
    using that assms(1) by (simp add: indexes_agree_def split: if_splits)
  ultimately show ?thesis unfolding indexes_agree_def pool_insert_simps by blast
qed

section \<open>A pool is a queue of transactions\<close>

lemma inv_lookup:
  "mempool_inv mp \<Longrightarrow> h \<in> set (mp_order mp) \<Longrightarrow> \<exists>tx. fmlookup (mp_txs mp) h = Some tx \<and> tx_hash tx = h"
  by (auto simp: mempool_inv_def indexes_agree_def fmlookup_dom_iff)

lemma inv_len: "mempool_inv mp \<Longrightarrow> mp_len mp = length (mp_order mp)"
  by (simp add: mempool_inv_def mp_len_def fcard.rep_eq distinct_card [symmetric])

lemma map_filter_all:
  "\<forall>h \<in> set hs. fmlookup m h \<noteq> None \<Longrightarrow>
     List.map_filter (fmlookup m) hs = map (\<lambda>h. the (fmlookup m h)) hs"
  by (induction hs) auto

lemma fifo_eq:
  "mempool_inv mp \<Longrightarrow> clone_fifo mp = map (\<lambda>h. the (fmlookup (mp_txs mp) h)) (mp_order mp)"
  unfolding clone_fifo_def using inv_lookup by (intro map_filter_all) fastforce

lemma fifo_hashes: "mempool_inv mp \<Longrightarrow> map tx_hash (clone_fifo mp) = mp_order mp"
  using inv_lookup [of mp] by (force simp: fifo_eq o_def intro: map_idI)

lemma fifo_lookup:
  assumes "mempool_inv mp"
  shows "tx \<in> set (clone_fifo mp) \<longleftrightarrow> fmlookup (mp_txs mp) (tx_hash tx) = Some tx"
proof
  assume "tx \<in> set (clone_fifo mp)"
  then obtain h where "h \<in> set (mp_order mp)" "tx = the (fmlookup (mp_txs mp) h)"
    by (auto simp: fifo_eq assms)
  with inv_lookup [OF assms] show "fmlookup (mp_txs mp) (tx_hash tx) = Some tx" by fastforce
next
  assume l: "fmlookup (mp_txs mp) (tx_hash tx) = Some tx"
  then have "tx_hash tx \<in> set (mp_order mp)" using assms by (auto simp: mempool_inv_def fmlookup_dom_iff)
  with l show "tx \<in> set (clone_fifo mp)" by (force simp: fifo_eq assms)
qed

lemma fifo_distinct_hashes: "mempool_inv mp \<Longrightarrow> distinct (map tx_hash (clone_fifo mp))"
  using fifo_hashes by (metis mempool_inv_def)

lemma inv_slot:
  "mempool_inv mp \<Longrightarrow> fmlookup (mp_txs mp) h = Some tx \<Longrightarrow> slot mp (sender tx) (nonce tx) = Some h"
  unfolding mempool_inv_def indexes_agree_def by blast

lemma fifo_distinct_slots:
  assumes "mempool_inv mp"
  shows "distinct (map (\<lambda>tx. (sender tx, nonce tx)) (clone_fifo mp))"
proof -
  have "t = u" if "t \<in> set (clone_fifo mp)" "u \<in> set (clone_fifo mp)" "sender t = sender u" "nonce t = nonce u" for t u
  proof -
    from that have t: "fmlookup (mp_txs mp) (tx_hash t) = Some t" and u: "fmlookup (mp_txs mp) (tx_hash u) = Some u"
      by (simp_all add: fifo_lookup assms)
    from inv_slot [OF assms t] inv_slot [OF assms u] that have "tx_hash t = tx_hash u" by simp
    with t u show ?thesis by (metis option.inject)
  qed
  then have "inj_on (\<lambda>tx. (sender tx, nonce tx)) (set (clone_fifo mp))" by (auto intro: inj_onI)
  moreover have "distinct (clone_fifo mp)" using fifo_distinct_hashes [OF assms] by (simp add: distinct_map)
  ultimately show ?thesis by (simp add: distinct_map)
qed

lemma fifo_length: "mempool_inv mp \<Longrightarrow> length (clone_fifo mp) = mp_len mp"
  using fifo_hashes inv_len by (metis length_map)

lemma slot_mp_order [simp]: "slot (mp\<lparr>mp_order := xs\<rparr>) a n = slot mp a n"
  by (simp add: slot_def)

lemma agree_mp_order [simp]: "indexes_agree (mp\<lparr>mp_order := xs\<rparr>) \<longleftrightarrow> indexes_agree mp"
  by (simp add: indexes_agree_def)

lemma by_sender_determined:
  assumes "indexes_agree mp" "indexes_agree mp'" "mp_txs mp = mp_txs mp'"
  shows "by_sender mp = by_sender mp'"
proof -
  have slots: "slot mp a n = slot mp' a n" for a n
  proof -
    have "slot mp a n = Some h \<longleftrightarrow> slot mp' a n = Some h" for h
      by (simp add: agree_slot [OF assms(1)] agree_slot [OF assms(2)] assms(3))
    then show ?thesis by (metis option.exhaust)
  qed
  have ne: "\<exists>n. fmlookup m n \<noteq> None" if "m \<noteq> fmempty" for m :: "(u64, string) fmap"
    using that by (metis fmap_ext fmempty_lookup)
  have nonempty: "fmlookup (by_sender mp) a \<noteq> Some fmempty" "fmlookup (by_sender mp') a \<noteq> Some fmempty" for a
    using assms(1,2) by (auto simp: indexes_agree_def)
  have "fmlookup (by_sender mp) a = fmlookup (by_sender mp') a" for a
  proof (cases "fmlookup (by_sender mp) a"; cases "fmlookup (by_sender mp') a")
    fix m m' assume "fmlookup (by_sender mp) a = Some m" "fmlookup (by_sender mp') a = Some m'"
    then show ?thesis using slots [of a] by (auto simp: slot_def intro: fmap_ext)
  qed (use slots [of a] nonempty [of a] ne in \<open>fastforce simp: slot_def\<close>)+
  then show ?thesis by (rule fmap_ext)
qed

text \<open>A pool that satisfies the invariant is its capacity and its queue.\<close>

lemma pool_eqI:
  assumes "mempool_inv mp" "mempool_inv mp'" "mp_capacity mp = mp_capacity mp'" "clone_fifo mp = clone_fifo mp'"
  shows "mp = mp'"
proof -
  have order: "mp_order mp = mp_order mp'" using assms fifo_hashes by metis
  have "fmlookup (mp_txs mp) h = Some tx \<longleftrightarrow> fmlookup (mp_txs mp') h = Some tx" for h tx
    using fifo_lookup [OF assms(1), of tx] fifo_lookup [OF assms(2), of tx] assms(1,2,4) agree_hash
    unfolding mempool_inv_def by metis
  then have txs: "mp_txs mp = mp_txs mp'" by (intro fmap_ext) (metis option.exhaust)
  with order assms by_sender_determined [of mp mp'] show ?thesis
    by (simp add: mempool_inv_def)
qed

section \<open>Removal\<close>

definition pool_without :: "mempool \<Rightarrow> string list \<Rightarrow> mempool" where
  "pool_without mp hs = (fold (\<lambda>h mp. remove_tx_hash mp h) hs mp)
     \<lparr>mp_order := filter (\<lambda>x. x \<notin> set hs) (mp_order mp)\<rparr>"

lemma fold_remove_simps [simp]:
  "mp_order (fold (\<lambda>h mp. remove_tx_hash mp h) hs mp) = mp_order mp"
  "mp_capacity (fold (\<lambda>h mp. remove_tx_hash mp h) hs mp) = mp_capacity mp"
  "fmlookup (mp_txs (fold (\<lambda>h mp. remove_tx_hash mp h) hs mp)) k =
     (if k \<in> set hs then None else fmlookup (mp_txs mp) k)"
  by (induction hs arbitrary: mp) auto

lemma agree_fold_remove: "indexes_agree mp \<Longrightarrow> indexes_agree (fold (\<lambda>h mp. remove_tx_hash mp h) hs mp)"
  by (induction hs arbitrary: mp) (simp_all add: agree_remove)

lemma pool_without_simps [simp]:
  "mp_order (pool_without mp hs) = filter (\<lambda>x. x \<notin> set hs) (mp_order mp)"
  "mp_capacity (pool_without mp hs) = mp_capacity mp"
  "fmlookup (mp_txs (pool_without mp hs)) k = (if k \<in> set hs then None else fmlookup (mp_txs mp) k)"
  by (simp_all add: pool_without_def)

lemma len_if_order:
  "distinct (mp_order mp) \<Longrightarrow> set (mp_order mp) = fset (fmdom (mp_txs mp)) \<Longrightarrow> mp_len mp = length (mp_order mp)"
  by (simp add: mp_len_def fcard.rep_eq distinct_card [symmetric])

lemma pool_without_inv:
  assumes "mempool_inv mp"
  shows "mempool_inv (pool_without mp hs)"
proof -
  have ord: "distinct (mp_order (pool_without mp hs))"
      "set (mp_order (pool_without mp hs)) = fset (fmdom (mp_txs (pool_without mp hs)))"
    using assms by (auto simp: mempool_inv_def fmlookup_dom_iff split: if_splits)
  have "length (mp_order (pool_without mp hs)) \<le> length (mp_order mp)" by simp
  also have "\<dots> \<le> mp_capacity mp" using assms inv_len by (simp add: mempool_inv_def)
  finally show ?thesis
    using ord assms len_if_order [OF ord]
    by (simp add: mempool_inv_def agree_fold_remove pool_without_def)
qed

lemma fifo_pool_without:
  assumes "mempool_inv mp"
  shows "clone_fifo (pool_without mp hs) = filter (\<lambda>tx. tx_hash tx \<notin> set hs) (clone_fifo mp)"
proof -
  have "tx_hash (the (fmlookup (mp_txs mp) h)) = h" if "h \<in> set (mp_order mp)" for h
    using inv_lookup [OF assms that] by auto
  then show ?thesis
    by (simp add: fifo_eq assms pool_without_inv filter_map o_def)
      (rule map_cong [OF filter_cong [OF refl]]; auto)
qed

lemma remove_by_tx_hashes_eq: "remove_by_tx_hashes mp hs = pool_without mp (remdups hs)"
  by (simp add: remove_by_tx_hashes_def pool_without_def Let_def)

lemma pool_without_cong:
  "mempool_inv mp \<Longrightarrow> set hs = set hs' \<Longrightarrow> pool_without mp hs = pool_without mp hs'"
  by (rule pool_eqI) (simp_all add: pool_without_inv fifo_pool_without)

text \<open>
  The source removes the ids in the iteration order of a \<open>HashSet\<close>; every order gives the same
  pool.
\<close>

lemma remove_any_order:
  "mempool_inv mp \<Longrightarrow> set hs = set hashes \<Longrightarrow> remove_by_tx_hashes mp hashes = pool_without mp hs"
  unfolding remove_by_tx_hashes_eq by (rule pool_without_cong) simp_all

lemma inv_agree: "mempool_inv mp \<Longrightarrow> indexes_agree mp"
  by (simp add: mempool_inv_def)

section \<open>Submission\<close>

lemma remove_mp_order: "remove_tx_hash (mp\<lparr>mp_order := xs\<rparr>) h = (remove_tx_hash mp h)\<lparr>mp_order := xs\<rparr>"
  by (simp add: remove_tx_hash_def Let_def split: option.split)

lemma drop_head_eq:
  assumes "mempool_inv mp" "mp_order mp = h # rest"
  shows "remove_tx_hash (mp\<lparr>mp_order := rest\<rparr>) h = pool_without mp [h]"
proof -
  from assms have "h \<notin> set rest" by (simp add: mempool_inv_def)
  then have "filter (\<lambda>x. x \<noteq> h) rest = rest" by (induction rest) auto
  with assms(2) show ?thesis by (simp add: pool_without_def remove_mp_order)
qed

lemma drop_head_fifo:
  assumes "mempool_inv mp" "mp_order mp = h # rest"
  shows "clone_fifo (pool_without mp [h]) = tl (clone_fifo mp)"
proof -
  from fifo_hashes [OF assms(1)] assms(2) obtain t ts where
    f: "clone_fifo mp = t # ts" "tx_hash t = h" "map tx_hash ts = rest" by auto
  with assms have "h \<notin> tx_hash ` set ts" by (auto simp: mempool_inv_def)
  then have "filter (\<lambda>tx. tx_hash tx \<noteq> h) ts = ts" by (induction ts) auto
  with f show ?thesis by (simp add: fifo_pool_without assms(1))
qed

lemma evict_oldest_eq:
  assumes "mempool_inv mp" "mp_order mp = h # rest"
  shows "evict_oldest mp = pool_without mp [h]"
proof -
  from inv_lookup [OF assms(1), of h] assms(2) have "fmlookup (mp_txs mp) h \<noteq> None" by auto
  with drop_head_eq [OF assms] assms(2) show ?thesis by (subst evict_oldest.simps) (simp add: Let_def)
qed

lemma evict_until_room_eq:
  assumes inv: "mempool_inv mp"
  shows "evict_until_room mp =
    Some (if mp_len mp < mp_capacity mp \<or> mp_capacity mp = 0 then mp else pool_without mp [hd (mp_order mp)])"
proof (cases "mp_len mp < mp_capacity mp")
  case True
  then show ?thesis by (subst evict_until_room.simps) simp
next
  case False
  with inv have full: "mp_len mp = mp_capacity mp" by (simp add: mempool_inv_def)
  show ?thesis
  proof (cases "mp_order mp")
    case Nil
    with inv_len [OF inv] full have "mp_capacity mp = 0" by simp
    moreover have "evict_oldest mp = mp" using Nil by (subst evict_oldest.simps) simp
    ultimately show ?thesis using full by (subst evict_until_room.simps) (simp add: mp_is_empty_def)
  next
    case (Cons h rest)
    have "mp_len (pool_without mp [h]) \<le> length rest" "Suc (length rest) = mp_capacity mp"
      using full Cons inv_len [OF inv] inv_len [OF pool_without_inv [OF inv], of "[h]"] by simp_all
    then have len: "mp_len (pool_without mp [h]) < mp_capacity mp" by linarith
    then have "evict_until_room (pool_without mp [h]) = Some (pool_without mp [h])"
      by (subst evict_until_room.simps) simp
    with full Cons evict_oldest_eq [OF inv Cons] inv_len [OF inv] show ?thesis
      by (subst evict_until_room.simps) (simp add: Let_def)
  qed
qed

lemma pool_insert_inv:
  assumes "mempool_inv mp" "fmlookup (mp_txs mp) (tx_hash tx) = None" "slot mp (sender tx) (nonce tx) = None"
    "mp_len mp < mp_capacity mp"
  shows "mempool_inv (pool_insert mp tx)"
proof -
  from assms(1,2) have new: "tx_hash tx \<notin> set (mp_order mp)"
    by (auto simp: mempool_inv_def fmlookup_dom_iff)
  have ord: "distinct (mp_order (pool_insert mp tx))"
      "set (mp_order (pool_insert mp tx)) = fset (fmdom (mp_txs (pool_insert mp tx)))"
    using assms(1) new by (auto simp: mempool_inv_def)
  with assms(1,2,3,4) len_if_order [OF ord] inv_len [OF assms(1)] show ?thesis
    by (simp add: mempool_inv_def agree_insert)
qed

lemma map_filter_snoc:
  "List.map_filter f (xs @ [x]) = List.map_filter f xs @ (case f x of None \<Rightarrow> [] | Some y \<Rightarrow> [y])"
  by (simp add: List.map_filter_def split: option.split)

lemma map_filter_fmupd:
  "h \<notin> set xs \<Longrightarrow> List.map_filter (fmlookup (fmupd h v m)) xs = List.map_filter (fmlookup m) xs"
  by (induction xs) (auto split: option.split)

lemma pool_insert_fifo:
  assumes "mempool_inv mp" "fmlookup (mp_txs mp) (tx_hash tx) = None"
  shows "clone_fifo (pool_insert mp tx) = clone_fifo mp @ [tx]"
proof -
  from assms have "tx_hash tx \<notin> set (mp_order mp)" by (auto simp: mempool_inv_def fmlookup_dom_iff)
  then show ?thesis by (simp add: clone_fifo_def map_filter_fmupd map_filter_snoc)
qed

lemma slot_pool_without_None:
  assumes "mempool_inv mp" "slot mp a n = None"
  shows "slot (pool_without mp hs) a n = None"
proof (rule ccontr)
  assume "slot (pool_without mp hs) a n \<noteq> None"
  then obtain h where "slot (pool_without mp hs) a n = Some h" by blast
  then have "slot mp a n = Some h"
    using agree_slot [OF inv_agree [OF pool_without_inv [OF assms(1)]]] agree_slot [OF inv_agree [OF assms(1)]]
    by (fastforce split: if_splits)
  with assms(2) show False by simp
qed

lemma try_submit_rejected:
  "submit_checks K mp tx = Inl e \<Longrightarrow> try_submit K mp tx = Some (mp, Inl e)"
  by (simp add: try_submit_def)

lemma try_submit_accepted:
  assumes "mempool_inv mp" "submit_checks K mp tx = Inr ()" "mp_capacity mp \<noteq> 0"
  shows "\<exists>mp'. try_submit K mp tx = Some (mp', Inr ()) \<and> mempool_inv mp' \<and> mp_capacity mp' = mp_capacity mp \<and>
    clone_fifo mp' = (if mp_len mp < mp_capacity mp then clone_fifo mp else tl (clone_fifo mp)) @ [tx]"
proof -
  let ?mp = "if mp_len mp < mp_capacity mp then mp else pool_without mp [hd (mp_order mp)]"
  note free = submit_checks_free [OF inv_agree [OF assms(1)] assms(2)]
  have ev: "evict_until_room mp = Some ?mp" using evict_until_room_eq [OF assms(1)] assms(3) by simp
  have room: "mempool_inv ?mp \<and> mp_capacity ?mp = mp_capacity mp \<and> mp_len ?mp < mp_capacity mp \<and>
     fmlookup (mp_txs ?mp) (tx_hash tx) = None \<and> slot ?mp (sender tx) (nonce tx) = None \<and>
     clone_fifo ?mp = (if mp_len mp < mp_capacity mp then clone_fifo mp else tl (clone_fifo mp))"
  proof (cases "mp_len mp < mp_capacity mp")
    case True
    with assms(1) free show ?thesis by simp
  next
    case False
    with assms(1,3) inv_len [OF assms(1)] have full: "mp_len mp = mp_capacity mp" "mp_order mp \<noteq> []"
      by (auto simp: mempool_inv_def)
    then obtain h rest where order: "mp_order mp = h # rest" by (cases "mp_order mp") auto
    have fifo: "clone_fifo (pool_without mp [h]) = tl (clone_fifo mp)"
      by (rule drop_head_fifo [OF assms(1) order])
    have "mp_len (pool_without mp [h]) = mp_len mp - 1"
      using fifo fifo_length [OF assms(1)] fifo_length [OF pool_without_inv [OF assms(1)], of "[h]"] by simp
    with False full assms(1,3) order fifo free show ?thesis
      by (simp add: pool_without_inv slot_pool_without_None)
  qed
  with ev assms(2) show ?thesis
    by (auto simp: try_submit_def pool_insert_inv pool_insert_fifo simp del: split_paired_Ex)
qed

lemma try_submit_zero_capacity:
  assumes "mempool_inv mp" "submit_checks K mp tx = Inr ()" "mp_capacity mp = 0"
  shows "try_submit K mp tx = Some (mp, Inl MempoolFull)"
  using assms by (simp add: try_submit_def evict_until_room_eq)

lemma drain_submit_cases:
  "try_submit_pending_drain K mp tx =
    (case submit_checks K mp tx of Inl e \<Rightarrow> (mp, Inl e)
     | Inr _ \<Rightarrow> if mp_len mp < mp_capacity mp then (pool_insert mp tx, Inr ()) else (mp, Inl MempoolFull))"
  by (auto simp: try_submit_pending_drain_def split: sum.split)

lemma drain_submit_ok:
  assumes "mempool_inv mp" "try_submit_pending_drain K mp tx = (mp', Inr ())"
  shows "mempool_inv mp' \<and> mp_capacity mp' = mp_capacity mp \<and> clone_fifo mp' = clone_fifo mp @ [tx]"
proof -
  from assms(2) have c: "submit_checks K mp tx = Inr ()" "mp_len mp < mp_capacity mp" "mp' = pool_insert mp tx"
    by (auto simp: drain_submit_cases split: sum.splits if_splits)
  with submit_checks_free [OF inv_agree [OF assms(1)] c(1)] assms(1) show ?thesis
    by (simp add: pool_insert_inv pool_insert_fifo)
qed

lemma drain_submit_err: "try_submit_pending_drain K mp tx = (mp', Inl e) \<Longrightarrow> mp' = mp"
  by (auto simp: drain_submit_cases split: sum.splits if_splits)

section \<open>Snapshots\<close>

lemma restore_fifo_inv:
  assumes "distinct (map tx_hash ts)" "distinct (map (\<lambda>tx. (sender tx, nonce tx)) ts)" "length ts \<le> mp_capacity mp"
  shows "mempool_inv (restore_fifo mp ts) \<and> clone_fifo (restore_fifo mp ts) = ts \<and>
    mp_capacity (restore_fifo mp ts) = mp_capacity mp"
  using assms
proof (induction ts rule: rev_induct)
  case Nil
  then show ?case
    by (simp add: restore_fifo_def mempool_inv_def indexes_agree_def slot_def mp_len_def clone_fifo_def
        fcard.rep_eq)
next
  case (snoc t ts)
  let ?mp = "restore_fifo mp ts"
  from snoc have inv: "mempool_inv ?mp" and fifo: "clone_fifo ?mp = ts" and cap: "mp_capacity ?mp = mp_capacity mp"
    by auto
  have l: "fmlookup (mp_txs ?mp) (tx_hash t) = None"
  proof (rule ccontr)
    assume "fmlookup (mp_txs ?mp) (tx_hash t) \<noteq> None"
    then obtain u where "fmlookup (mp_txs ?mp) (tx_hash t) = Some u" by blast
    with agree_hash [OF inv_agree [OF inv] this] have "u \<in> set ts" "tx_hash u = tx_hash t"
      using fifo_lookup [OF inv, of u] fifo by simp_all
    moreover from snoc.prems(1) have "tx_hash t \<notin> tx_hash ` set ts" by simp
    ultimately show False by (metis image_eqI)
  qed
  moreover have "slot ?mp (sender t) (nonce t) = None"
  proof (rule ccontr)
    assume "slot ?mp (sender t) (nonce t) \<noteq> None"
    then obtain h u where "fmlookup (mp_txs ?mp) h = Some u" "sender u = sender t" "nonce u = nonce t"
      using agree_slot [OF inv_agree [OF inv]] by blast
    with agree_hash [OF inv_agree [OF inv]] have "u \<in> set ts" "sender u = sender t" "nonce u = nonce t"
      using fifo_lookup [OF inv, of u] fifo by auto
    moreover from snoc.prems(2) have "(sender t, nonce t) \<notin> (\<lambda>tx. (sender tx, nonce tx)) ` set ts" by simp
    ultimately show False by (metis (mono_tags, lifting) image_eqI)
  qed
  moreover have "mp_len ?mp < mp_capacity ?mp" using fifo_length [OF inv] fifo cap snoc.prems(3) by simp
  moreover have "restore_fifo mp (ts @ [t]) = pool_insert ?mp t" by (simp add: restore_fifo_def)
  ultimately show ?case using inv fifo cap by (simp add: pool_insert_inv pool_insert_fifo)
qed

lemma restore_clone:
  assumes "mempool_inv mp" "mp_capacity mp' = mp_capacity mp"
  shows "restore_fifo mp' (clone_fifo mp) = mp"
proof -
  have len: "length (clone_fifo mp) \<le> mp_capacity mp'"
    using assms fifo_length [OF assms(1)] by (simp add: mempool_inv_def)
  note r = restore_fifo_inv [OF fifo_distinct_hashes [OF assms(1)] fifo_distinct_slots [OF assms(1)] len]
  with assms show ?thesis by (intro pool_eqI) simp_all
qed

section \<open>Hygiene against the committed ledger\<close>

text \<open>The reference condition of the front purge.\<close>

definition nonviable :: "crypto \<Rightarrow> state \<Rightarrow> transaction \<Rightarrow> bool" where
  "nonviable K committed tx =
    (tx_basic_validate K tx \<noteq> Inr () \<or>
     (case get_account committed (sender tx) of
        None \<Rightarrow> True
      | Some acc \<Rightarrow> nonce tx < acc_nonce acc \<or>
          (nonce tx = acc_nonce acc \<and> unat (balance acc) < unat (amount tx) + unat (fee tx))))"

lemma cost_exceeds_iff:
  "(case checked_add (amount tx) (fee tx) of None \<Rightarrow> True | Some c \<Rightarrow> b < c) \<longleftrightarrow>
     unat b < unat (amount tx) + unat (fee tx)"
  using unat_bound [of b]
  by (auto simp: checked_add_def unat_plus_no_overflow word_less_nat_alt)

lemma purge_front_step:
  assumes "mempool_inv mp" "mp_order mp = h # rest" "fmlookup (mp_txs mp) h = Some tx"
  shows "purge_front K c mp n =
    (if nonviable K c tx then purge_front K c (pool_without mp [h]) (n + 1) else (mp, n))"
proof -
  note head = drop_head_eq [OF assms(1,2)]
  show ?thesis
  proof (cases "tx_basic_validate K tx")
    case (Inl e)
    with assms head show ?thesis
      by (subst purge_front.simps) (simp add: nonviable_def Let_def)
  next
    case (Inr u)
    show ?thesis
    proof (cases "get_account c (sender tx)")
      case None
      with Inr assms head show ?thesis
        by (subst purge_front.simps) (simp add: nonviable_def Let_def)
    next
      case (Some acc)
      with Inr have nv: "nonviable K c tx \<longleftrightarrow> nonce tx < acc_nonce acc \<or>
          (nonce tx = acc_nonce acc \<and> (case checked_add (amount tx) (fee tx) of None \<Rightarrow> True | Some d \<Rightarrow> balance acc < d))"
        by (simp add: nonviable_def cost_exceeds_iff)
      from Some Inr assms head show ?thesis
        by (subst purge_front.simps) (cases "checked_add (amount tx) (fee tx)"; simp add: nv Let_def)
    qed
  qed
qed

lemma purge_front_spec:
  assumes "mempool_inv mp"
  shows "\<exists>mp'. purge_front K c mp n = (mp', n + length (takeWhile (nonviable K c) (clone_fifo mp))) \<and>
    mempool_inv mp' \<and> mp_capacity mp' = mp_capacity mp \<and>
    clone_fifo mp' = dropWhile (nonviable K c) (clone_fifo mp)"
  using assms
proof (induction "clone_fifo mp" arbitrary: mp n)
  case Nil
  then have "mp_order mp = []" using fifo_hashes by (metis list.map_disc_iff)
  with Nil show ?case by (subst purge_front.simps) (auto simp flip: Nil.hyps)
next
  case (Cons t ts)
  from fifo_hashes [OF Cons.prems] Cons.hyps(2) have order: "mp_order mp = tx_hash t # map tx_hash ts"
    by (metis list.map(2))
  have l: "fmlookup (mp_txs mp) (tx_hash t) = Some t"
    using Cons.hyps(2) fifo_lookup [OF Cons.prems, of t] by (metis list.set_intros(1))
  note step = purge_front_step [OF Cons.prems order l]
  show ?case
  proof (cases "nonviable K c t")
    case True
    let ?mp = "pool_without mp [tx_hash t]"
    have "ts = clone_fifo ?mp"
      using drop_head_fifo [OF Cons.prems order] Cons.hyps(2) by (metis list.sel(3))
    from Cons.hyps(1) [OF this pool_without_inv [OF Cons.prems], of "n + 1"] this
    show ?thesis by (simp add: step True flip: Cons.hyps(2))
  next
    case False
    with Cons.prems show ?thesis by (simp add: step flip: Cons.hyps(2))
  qed
qed

lemma pool_values:
  assumes "mempool_inv mp"
  defines "vals \<equiv> map (\<lambda>h. the (fmlookup (mp_txs mp) h)) (sorted_list_of_fset (fmdom (mp_txs mp)))"
  shows "mset vals = mset (clone_fifo mp)"
proof -
  have "mset (sorted_list_of_fset (fmdom (mp_txs mp))) = mset (mp_order mp)"
    using assms(1) by (intro set_eq_iff_mset_eq_distinct [THEN iffD1])
      (simp_all add: mempool_inv_def sorted_list_of_fset.rep_eq)
  then show ?thesis by (simp add: vals_def fifo_eq [OF assms(1)])
qed

lemma drop_stale_spec:
  assumes "mempool_inv mp"
  shows "\<exists>mp'. drop_stale_nonces_vs_committed mp c = (mp', length (filter (stale_vs c) (clone_fifo mp))) \<and>
    mempool_inv mp' \<and> mp_capacity mp' = mp_capacity mp \<and>
    clone_fifo mp' = filter (\<lambda>tx. \<not> stale_vs c tx) (clone_fifo mp)"
proof -
  define vals where "vals = map (\<lambda>h. the (fmlookup (mp_txs mp) h)) (sorted_list_of_fset (fmdom (mp_txs mp)))"
  have m: "mset vals = mset (clone_fifo mp)" unfolding vals_def by (rule pool_values [OF assms])
  then have len: "length (filter (stale_vs c) vals) = length (filter (stale_vs c) (clone_fifo mp))"
    by (metis mset_filter size_mset)
  let ?ids = "remdups (map tx_hash (filter (stale_vs c) vals))"
  have "tx_hash tx \<in> set ?ids \<longleftrightarrow> stale_vs c tx" if "tx \<in> set (clone_fifo mp)" for tx
  proof -
    have "inj_on tx_hash (set (clone_fifo mp))"
      using fifo_distinct_hashes [OF assms] by (simp add: distinct_map)
    with that m show ?thesis by (auto simp: inj_on_def dest: mset_eq_setD)
  qed
  then have "clone_fifo (pool_without mp ?ids) = filter (\<lambda>tx. \<not> stale_vs c tx) (clone_fifo mp)"
    by (simp only: fifo_pool_without [OF assms] cong: filter_cong)
  with len show ?thesis
    by (simp add: drop_stale_nonces_vs_committed_def Let_def remove_by_tx_hashes_eq pool_without_inv assms
        flip: vals_def)
qed

lemma slot_conflicts_none:
  assumes "distinct (map (\<lambda>tx. (sender tx, nonce tx)) (List.map_filter (fmlookup pool) hs))"
    "seen \<inter> set (map (\<lambda>tx. (sender tx, nonce tx)) (List.map_filter (fmlookup pool) hs)) = {}"
  shows "slot_conflicts pool seen hs = []"
  using assms by (induction pool seen hs rule: slot_conflicts.induct) (auto simp: Let_def split: option.splits)

lemma drop_later_conflicts_noop:
  assumes "mempool_inv mp"
  shows "drop_later_sender_nonce_conflicts_keep_fifo_first mp = (mp, 0)"
proof -
  have "slot_conflicts (mp_txs mp) {} (mp_order mp) = []"
    using fifo_distinct_slots [OF assms] by (intro slot_conflicts_none) (simp_all add: clone_fifo_def)
  moreover have "filter (\<lambda>x. fmlookup (mp_txs mp) x \<noteq> None) (mp_order mp) = mp_order mp"
    using inv_lookup [OF assms] by (intro filter_True) fastforce
  ultimately show ?thesis
    by (simp add: drop_later_sender_nonce_conflicts_keep_fifo_first_def Let_def)
qed

section \<open>Selecting transactions for a block\<close>

lemma seal_walk_step:
  assumes "seal_walk K pool limit s out (h # hs) = Inr sel" "length out < limit"
  shows "seal_walk K pool limit s out hs = Inr sel \<or>
    (\<exists>tx s1. fmlookup pool h = Some tx \<and> apply_transaction K s tx = (s1, Inr ()) \<and>
       seal_walk K pool limit s1 (out @ [tx]) hs = Inr sel)"
proof (cases "fmlookup pool h")
  case (Some tx)
  obtain s1 r where "apply_transaction K s tx = (s1, r)" by fastforce
  with Some assms apply_transaction_Inl [of K s tx s1] show ?thesis
    by (cases r) (auto simp: not_le split: option.splits if_splits)
qed (use assms in simp)

lemma seal_walk_sound:
  assumes "seal_walk K pool limit s out hs = Inr sel" "run_steps (apply_transaction K) s0 out = (s, Inr ())"
    "length out \<le> limit"
  shows "(\<exists>s'. run_steps (apply_transaction K) s0 sel = (s', Inr ())) \<and> length sel \<le> limit \<and>
    (\<exists>new. sel = out @ new \<and> subseq new (List.map_filter (fmlookup pool) hs))"
  using assms
proof (induction hs arbitrary: s out)
  case Nil
  then show ?case by auto
next
  case (Cons h hs)
  show ?case
  proof (cases "length out < limit")
    case False
    with Cons.prems show ?thesis by auto
  next
    case True
    from seal_walk_step [OF Cons.prems(1) True] show ?thesis
    proof (elim disjE exE conjE)
      assume "seal_walk K pool limit s out hs = Inr sel"
      from Cons.IH [OF this Cons.prems(2,3)] show ?thesis by (auto split: option.split)
    next
      fix tx s1
      assume tx: "fmlookup pool h = Some tx" and ap: "apply_transaction K s tx = (s1, Inr ())"
        and w: "seal_walk K pool limit s1 (out @ [tx]) hs = Inr sel"
      have "run_steps (apply_transaction K) s0 (out @ [tx]) = (s1, Inr ())"
        using Cons.prems(2) ap by (simp add: run_steps_append)
      from Cons.IH [OF w this] True tx show ?thesis by auto
    qed
  qed
qed

lemma candidates_for_seal_sound:
  assumes "ordered_candidates_for_seal K mp s limit = Inr sel"
  shows "(\<exists>s'. run_steps (apply_transaction K) s sel = (s', Inr ())) \<and> length sel \<le> limit \<and>
    subseq sel (clone_fifo mp)"
  using seal_walk_sound [of K "mp_txs mp" limit s "[]" "mp_order mp" sel s] assms
  by (simp add: ordered_candidates_for_seal_def clone_fifo_def)

section \<open>The queue interface\<close>

text \<open>
  What the block producer needs of a queue of transactions: ids are unique, and removing ids
  takes out exactly the entries that carry them.
\<close>

locale tx_queue =
  fixes ok :: "'m \<Rightarrow> bool"
    and contents :: "'m \<Rightarrow> 't list"
    and remove :: "'m \<Rightarrow> 'k list \<Rightarrow> 'm"
    and key :: "'t \<Rightarrow> 'k"
  assumes distinct_keys: "ok m \<Longrightarrow> distinct (map key (contents m))"
    and remove_ok: "ok m \<Longrightarrow> ok (remove m ks)"
    and remove_contents: "ok m \<Longrightarrow> contents (remove m ks) = filter (\<lambda>t. key t \<notin> set ks) (contents m)"
begin

lemma commit_contents:
  assumes "ok m" "set ts \<subseteq> set (contents m)"
  shows "contents (remove m (map key ts)) = filter (\<lambda>t. t \<notin> set ts) (contents m)"
proof -
  have "inj_on key (set (contents m))" using distinct_keys [OF assms(1)] by (simp add: distinct_map)
  then have "key t \<in> set (map key ts) \<longleftrightarrow> t \<in> set ts" if "t \<in> set (contents m)" for t
    using assms(2) that by (auto simp: inj_on_def)
  then show ?thesis by (simp add: remove_contents [OF assms(1)] cong: filter_cong)
qed

lemma commit_length:
  assumes "ok m" "subseq ts (contents m)"
  shows "length (contents (remove m (map key ts))) + length ts = length (contents m)"
proof -
  have d: "distinct (contents m)" using distinct_keys [OF assms(1)] by (simp add: distinct_map)
  have sub: "set ts \<subseteq> set (contents m)" using assms(2) by (rule subseq_set)
  have "distinct ts" using assms(2) d by (rule subseq_distinct)
  then have "length ts = length (filter (\<lambda>t. t \<in> set ts) (contents m))"
    using d sub by (metis distinct_card distinct_filter inf.absorb_iff2 inter_set_filter inf_commute)
  then show ?thesis
    using commit_contents [OF assms(1) sub] sum_length_filter_compl [of "\<lambda>t. t \<in> set ts" "contents m"] by simp
qed

lemma remove_twice:
  "ok m \<Longrightarrow> contents (remove (remove m ks) ls) = contents (remove m (ks @ ls))"
  by (simp add: remove_contents remove_ok conj_commute)

end

interpretation pool_queue: tx_queue mempool_inv clone_fifo remove_by_tx_hashes tx_hash
  by unfold_locales (simp_all add: fifo_distinct_hashes remove_by_tx_hashes_eq pool_without_inv fifo_pool_without)

section \<open>Properties\<close>

text \<open>Every public operation of the pool as a transition.\<close>

inductive mempool_step :: "crypto \<Rightarrow> mempool \<Rightarrow> mempool \<Rightarrow> bool" for K where
  submit: "try_submit K mp tx = Some (mp', r) \<Longrightarrow> mempool_step K mp mp'"
| drain: "try_submit_pending_drain K mp tx = (mp', r) \<Longrightarrow> mempool_step K mp mp'"
| committed: "mempool_step K mp (remove_by_tx_hashes mp hs)"
| rollback: "mempool_inv snapshot \<Longrightarrow> mp_capacity snapshot = mp_capacity mp \<Longrightarrow>
    mempool_step K mp (restore_fifo mp (clone_fifo snapshot))"
| hygiene: "hygiene_vs_committed_ledger K mp c = (mp', counts) \<Longrightarrow> mempool_step K mp mp'"

lemma hygiene_spec:
  assumes "mempool_inv mp"
  shows "\<exists>mp'. hygiene_vs_committed_ledger K mp c =
      (mp', length (takeWhile (nonviable K c) (clone_fifo mp)),
            length (filter (stale_vs c) (dropWhile (nonviable K c) (clone_fifo mp))), 0) \<and>
    mempool_inv mp' \<and> mp_capacity mp' = mp_capacity mp \<and>
    clone_fifo mp' = filter (\<lambda>tx. \<not> stale_vs c tx) (dropWhile (nonviable K c) (clone_fifo mp))"
proof -
  from purge_front_spec [OF assms, of K c 0] obtain mp1 where
    p: "purge_front K c mp 0 = (mp1, length (takeWhile (nonviable K c) (clone_fifo mp)))"
    "mempool_inv mp1" "mp_capacity mp1 = mp_capacity mp" "clone_fifo mp1 = dropWhile (nonviable K c) (clone_fifo mp)"
    by auto
  from drop_stale_spec [OF p(2), of c] p drop_later_conflicts_noop show ?thesis
    by (auto simp: hygiene_vs_committed_ledger_def purge_nonviable_under_committed_state_def)
qed

lemma mempool_step_inv:
  assumes "mempool_step K mp mp'" "mempool_inv mp"
  shows "mempool_inv mp' \<and> mp_capacity mp' = mp_capacity mp"
  using assms
proof (cases rule: mempool_step.cases)
  case (submit tx r)
  then show ?thesis
    using try_submit_accepted [OF assms(2), of K tx] try_submit_zero_capacity [OF assms(2), of K tx]
      try_submit_rejected [of K mp tx] assms(2)
    by (cases "submit_checks K mp tx"; cases "mp_capacity mp = 0") auto
next
  case (drain tx r)
  then show ?thesis
    using drain_submit_ok [OF assms(2)] drain_submit_err [of K mp tx mp'] assms(2) by (cases r) auto
next
  case (committed hs)
  with assms(2) show ?thesis by (simp add: remove_by_tx_hashes_eq pool_without_inv)
next
  case (rollback snapshot)
  with restore_clone show ?thesis by metis
next
  case (hygiene c counts)
  with hygiene_spec [OF assms(2), of K c] show ?thesis by auto
qed

interpretation pool_run: stepwise "mempool_step K" mempool_inv "\<lambda>mp mp'. mp_capacity mp' = mp_capacity mp" for K
  by unfold_locales (auto dest: mempool_step_inv)

lemma mempool_new_inv: "mempool_inv (mempool_new cap)"
  by (simp add: mempool_new_def mempool_inv_def indexes_agree_def slot_def mp_len_def fcard.rep_eq)

text \<open>
  C6. Whatever sequence of submissions, drains, commits, rollbacks and hygiene passes a pool goes
  through, its three indexes stay in step and it never exceeds its capacity.
\<close>

theorem mempool_invariant:
  assumes "(mempool_step K)\<^sup>*\<^sup>* (mempool_new cap) mp"
  shows "mempool_inv mp \<and> mp_capacity mp = cap"
  using pool_run.run_keeps [OF assms mempool_new_inv] by (simp add: mempool_new_def)

text \<open>
  C7. Submission always returns, and is first-in-first-out with eviction: a transaction that
  passes the checks is appended at the back, and a full pool of non-zero capacity gives up
  exactly its oldest entry for it; a rejected transaction leaves the pool as it was.
\<close>

theorem try_submit_fifo:
  assumes "mempool_inv mp"
  shows "case submit_checks K mp tx of
      Inl e \<Rightarrow> try_submit K mp tx = Some (mp, Inl e)
    | Inr _ \<Rightarrow> if mp_capacity mp = 0 then try_submit K mp tx = Some (mp, Inl MempoolFull)
        else \<exists>mp'. try_submit K mp tx = Some (mp', Inr ()) \<and>
          clone_fifo mp' = (if mp_len mp < mp_capacity mp then clone_fifo mp else tl (clone_fifo mp)) @ [tx]"
  using try_submit_accepted [OF assms, of K tx] try_submit_zero_capacity [OF assms, of K tx]
    try_submit_rejected [of K mp tx]
  by (cases "submit_checks K mp tx") auto

text \<open>
  The transactions selected for a block can be applied in the selected order to the state
  the selection started from, respect the requested maximum, and keep the submission order.
\<close>

theorem seal_candidates_apply:
  assumes "ordered_candidates_for_seal K mp s limit = Inr sel"
  shows "(\<exists>s'. run_steps (apply_transaction K) s sel = (s', Inr ())) \<and> length sel \<le> limit \<and>
    subseq sel (clone_fifo mp)"
  using assms by (rule candidates_for_seal_sound)

text \<open>
  A snapshot restores the pool exactly, indexes included, whatever happened to the pool in
  between.
\<close>

theorem restore_clone_roundtrip:
  assumes "mempool_inv mp" "(mempool_step K)\<^sup>*\<^sup>* mp mp'"
  shows "restore_fifo mp' (clone_fifo mp) = mp"
proof -
  from pool_run.run_keeps [OF assms(2,1)] have "mempool_inv mp' \<and> mp_capacity mp' = mp_capacity mp" by simp
  with assms(1) show ?thesis by (simp add: restore_clone)
qed

text \<open>
  A hygiene pass drops the leading entries that cannot run next on the committed ledger and
  then every entry whose nonce is already used; the rest keeps its order, the counts are the
  numbers dropped, and the pass over duplicate slots never finds anything.
\<close>

theorem hygiene_effect:
  assumes "mempool_inv mp" "hygiene_vs_committed_ledger K mp c = (mp', (front, stale, dup))"
  shows "clone_fifo mp' = filter (\<lambda>tx. \<not> stale_vs c tx) (dropWhile (nonviable K c) (clone_fifo mp)) \<and>
    front + stale + length (clone_fifo mp') = length (clone_fifo mp) \<and> dup = 0"
proof -
  let ?kept = "dropWhile (nonviable K c) (clone_fifo mp)"
  have "length (takeWhile (nonviable K c) (clone_fifo mp)) + length ?kept = length (clone_fifo mp)"
    by (metis length_append takeWhile_dropWhile_id)
  moreover have "length (filter (stale_vs c) ?kept) + length (filter (\<lambda>tx. \<not> stale_vs c tx) ?kept) = length ?kept"
    by (rule sum_length_filter_compl)
  ultimately show ?thesis using hygiene_spec [OF assms(1), of K c] assms(2) by auto
qed

end
