(* ===== verification/Blockchain.thy ===== *)
theory Blockchain
  imports Mempool
begin

text \<open>
  \<open>blockchain.rs\<close>: the chain of blocks with its account state.  Blocks are appended after full
  validation, sealed from the mempool, rolled back when persistence fails, and the state can
  always be recomputed from the genesis document.  \<open>chain_inv\<close> is the invariant of every chain
  the node can hold.

  \<open>tip.height + 1\<close> is the wrapping sum of the release build.  The sum never overflows on a chain
  that satisfies the invariant and is then extended: a block of height 0 must carry the genesis
  constants and cannot follow a hashed block.  The accessors \<open>state_mut\<close> (used by tests only)
  and \<open>consensus_params_mut\<close> (used once at start-up to set the drift limit) hand out parts of
  the record; the second one is the transition \<open>set_drift\<close> below.
\<close>

record blockchain =
  bc_blocks :: "block list"
  bc_state :: state
  bc_consensus :: consensus_params

definition apply_block_txs :: "crypto \<Rightarrow> state \<Rightarrow> block \<Rightarrow> state \<times> (protocol_error + unit)" where
  "apply_block_txs K s b = run_steps (apply_transaction K) s (transactions b)"

definition recompute_state_from_blocks :: "crypto \<Rightarrow> block list \<Rightarrow> genesis \<Rightarrow> protocol_error + state" where
  "recompute_state_from_blocks K blks g =
    and_then (state_from_genesis g) (\<lambda>s.
      case run_steps (apply_block_txs K) s (drop 1 blks) of
        (_, Inl e) \<Rightarrow> Inl e
      | (s', Inr _) \<Rightarrow> Inr s')"

definition blockchain_from_genesis :: "genesis \<Rightarrow> protocol_error + blockchain" where
  "blockchain_from_genesis g =
    and_then (state_from_genesis g) (\<lambda>s.
      Inr \<lparr>bc_blocks = [genesis_block], bc_state = s, bc_consensus = default_consensus_params\<rparr>)"

definition from_genesis_with_consensus :: "genesis \<Rightarrow> consensus_params \<Rightarrow> protocol_error + blockchain" where
  "from_genesis_with_consensus g params =
    and_then (blockchain_from_genesis g) (\<lambda>c. Inr (c\<lparr>bc_consensus := params\<rparr>))"

definition blocks_from_height_limited :: "blockchain \<Rightarrow> u64 \<Rightarrow> nat \<Rightarrow> block list" where
  "blocks_from_height_limited bc start_height limit =
    (if limit = 0 then [] else take limit (filter (\<lambda>b. height b \<ge> start_height) (bc_blocks bc)))"

definition chain_height :: "block list \<Rightarrow> u64" where
  "chain_height blks = (if blks = [] then 0 else height (last blks))"

definition bc_height :: "blockchain \<Rightarrow> u64" where
  "bc_height bc = chain_height (bc_blocks bc)"

definition append_block :: "crypto \<Rightarrow> blockchain \<Rightarrow> block \<Rightarrow> blockchain \<times> (protocol_error + unit)" where
  "append_block K bc b =
    (case block_basic_validate K b of
       Inl e \<Rightarrow> (bc, Inl e)
     | Inr _ \<Rightarrow>
    if bc_blocks bc = [] then (bc, Inl (StateError ''chain tip missing''))
    else let tip = last (bc_blocks bc) in
    if height b \<noteq> height tip + 1 then (bc, Inl (InvalidBlock ''invalid block height''))
    else if previous_hash b \<noteq> block_hash tip then (bc, Inl (InvalidBlock ''invalid previous hash''))
    else case validate_block_timestamps_vs_parent tip b (bc_consensus bc) of
       Inl e \<Rightarrow> (bc, Inl e)
     | Inr _ \<Rightarrow>
       (case run_steps (apply_transaction K) (bc_state bc) (transactions b) of
          (_, Inl e) \<Rightarrow> (bc, Inl e)
        | (next_state, Inr _) \<Rightarrow>
          (bc\<lparr>bc_state := next_state, bc_blocks := bc_blocks bc @ [b]\<rparr>, Inr ())))"

definition try_append_network_block ::
  "crypto \<Rightarrow> blockchain \<Rightarrow> block \<Rightarrow> u64 \<Rightarrow> blockchain \<times> (protocol_error + unit)" where
  "try_append_network_block K bc b now_unix =
    (case validate_block_vs_local_time (timestamp_unix b) now_unix (max_future_drift_secs (bc_consensus bc)) of
       Inl e \<Rightarrow> (bc, Inl e)
     | Inr _ \<Rightarrow> append_block K bc b)"

text \<open>The loop \<open>while self.height() > target_height { self.blocks.pop(); }\<close>.\<close>

function pop_above :: "u64 \<Rightarrow> block list \<Rightarrow> block list" where
  "pop_above target blks = (if chain_height blks > target then pop_above target (butlast blks) else blks)"
  by auto
termination
  by (relation "measure (\<lambda>(_, blks). length blks)") (auto simp: chain_height_def split: if_splits)

declare pop_above.simps [simp del]

definition rollback_to_height :: "crypto \<Rightarrow> blockchain \<Rightarrow> u64 \<Rightarrow> genesis \<Rightarrow> blockchain \<times> (protocol_error + unit)" where
  "rollback_to_height K bc target g =
    (if target > bc_height bc then (bc, Inl (StateError ''rollback target height above current tip''))
     else let bc = bc\<lparr>bc_blocks := pop_above target (bc_blocks bc)\<rparr> in
       case recompute_state_from_blocks K (bc_blocks bc) g of
         Inl e \<Rightarrow> (bc, Inl e)
       | Inr st \<Rightarrow> (bc\<lparr>bc_state := st\<rparr>, Inr ()))"

definition append_block_from_mempool_pending_removal ::
  "crypto \<Rightarrow> blockchain \<Rightarrow> mempool \<Rightarrow> nat \<Rightarrow> u64 \<Rightarrow> blockchain \<times> (protocol_error + string list option)" where
  "append_block_from_mempool_pending_removal K bc mp max_transactions ts =
    (case ordered_candidates_for_seal K mp (bc_state bc) max_transactions of
       Inl e \<Rightarrow> (bc, Inl e)
     | Inr sel \<Rightarrow>
    if sel = [] then (bc, Inr None)
    else if bc_blocks bc = [] then (bc, Inl (StateError ''chain tip missing''))
    else let tip = last (bc_blocks bc);
        b = \<lparr>height = height tip + 1, previous_hash = block_hash tip, timestamp_unix = ts,
             transactions = sel, block_hash = ''''\<rparr>;
        b = b\<lparr>block_hash := compute_block_hash K b\<rparr>;
        hashes = map tx_hash (transactions b)
      in case append_block K bc b of
           (bc', Inl e) \<Rightarrow> (bc', Inl e)
         | (bc', Inr _) \<Rightarrow> (bc', Inr (Some hashes)))"

definition append_block_from_mempool ::
  "crypto \<Rightarrow> blockchain \<Rightarrow> mempool \<Rightarrow> nat \<Rightarrow> u64 \<Rightarrow> (blockchain \<times> mempool) \<times> (protocol_error + nat)" where
  "append_block_from_mempool K bc mp max_transactions ts =
    (case append_block_from_mempool_pending_removal K bc mp max_transactions ts of
       (bc', Inl e) \<Rightarrow> ((bc', mp), Inl e)
     | (bc', Inr None) \<Rightarrow> ((bc', mp), Inr 0)
     | (bc', Inr (Some hashes)) \<Rightarrow> ((bc', remove_by_tx_hashes mp hashes), Inr (length hashes)))"

definition rebuild_state_from_genesis :: "crypto \<Rightarrow> blockchain \<Rightarrow> genesis \<Rightarrow> blockchain \<times> (protocol_error + unit)" where
  "rebuild_state_from_genesis K bc g =
    (case state_from_genesis g of
       Inl e \<Rightarrow> (bc, Inl e)
     | Inr st \<Rightarrow>
       (case run_steps (apply_block_txs K) st (drop 1 (bc_blocks bc)) of
          (_, Inl e) \<Rightarrow> (bc, Inl e)
        | (st', Inr _) \<Rightarrow> (bc\<lparr>bc_state := st'\<rparr>, Inr ())))"

definition rollback_last_block :: "crypto \<Rightarrow> blockchain \<Rightarrow> genesis \<Rightarrow> blockchain \<times> (protocol_error + unit)" where
  "rollback_last_block K bc g =
    (if length (bc_blocks bc) \<le> 1 then (bc, Inl (StateError ''cannot rollback genesis tip''))
     else rebuild_state_from_genesis K (bc\<lparr>bc_blocks := butlast (bc_blocks bc)\<rparr>) g)"

section \<open>The invariant\<close>

text \<open>A block that may follow its parent under the given interval policy.\<close>

definition valid_link :: "crypto \<Rightarrow> u64 \<Rightarrow> block \<Rightarrow> block \<Rightarrow> bool" where
  "valid_link K interval p b \<longleftrightarrow>
     block_basic_validate K b = Inr () \<and> height b = height p + 1 \<and> previous_hash b = block_hash p \<and>
     unat (timestamp_unix p) + unat interval \<le> unat (timestamp_unix b)"

definition chain_wf :: "crypto \<Rightarrow> u64 \<Rightarrow> block list \<Rightarrow> bool" where
  "chain_wf K interval blks \<longleftrightarrow> (\<exists>rest. blks = genesis_block # rest) \<and>
     successively (valid_link K interval) blks \<and> (\<forall>i < length blks. unat (height (blks ! i)) = i)"

definition chain_inv :: "crypto \<Rightarrow> genesis \<Rightarrow> blockchain \<Rightarrow> bool" where
  "chain_inv K g bc \<longleftrightarrow> chain_wf K (min_block_interval_secs (bc_consensus bc)) (bc_blocks bc) \<and>
     recompute_state_from_blocks K (bc_blocks bc) g = Inr (bc_state bc)"

lemma append_block_Inl: "append_block K bc b = (bc', Inl e) \<Longrightarrow> bc' = bc"
  by (auto simp: append_block_def Let_def split: sum.splits prod.splits if_splits)

lemma append_block_ok:
  "append_block K bc b = (bc', Inr ()) \<longleftrightarrow>
     bc_blocks bc \<noteq> [] \<and> valid_link K (min_block_interval_secs (bc_consensus bc)) (last (bc_blocks bc)) b \<and>
     (\<exists>s'. apply_block_txs K (bc_state bc) b = (s', Inr ()) \<and>
        bc' = bc\<lparr>bc_state := s', bc_blocks := bc_blocks bc @ [b]\<rparr>)"
  using timestamps_ok_iff [of "last (bc_blocks bc)" b "bc_consensus bc"]
  by (auto simp: append_block_def valid_link_def Let_def apply_block_txs_def
      split: sum.splits prod.splits if_splits)

lemma recompute_single: "recompute_state_from_blocks K [b] g = state_from_genesis g"
  by (cases "state_from_genesis g") (simp_all add: recompute_state_from_blocks_def)

lemma recompute_snoc:
  assumes "blks \<noteq> []"
  shows "recompute_state_from_blocks K (blks @ [b]) g = Inr s' \<longleftrightarrow>
    (\<exists>s. recompute_state_from_blocks K blks g = Inr s \<and> apply_block_txs K s b = (s', Inr ()))"
proof -
  from assms have "drop 1 (blks @ [b]) = drop 1 blks @ [b]" by (cases blks) simp_all
  then show ?thesis
    by (auto simp: recompute_state_from_blocks_def and_then_Inr_iff run_steps_append_ok run_steps_Cons_ok
        simp del: run_steps.simps(2))
qed

lemma recompute_eq_run:
  "recompute_state_from_blocks K blks g = Inr s \<longleftrightarrow>
    (\<exists>s0. state_from_genesis g = Inr s0 \<and>
       run_steps (apply_transaction K) s0 (concat (map transactions (drop 1 blks))) = (s, Inr ()))"
proof -
  have "apply_block_txs K = (\<lambda>s b. run_steps (apply_transaction K) s (transactions b))"
    by (simp add: apply_block_txs_def fun_eq_iff)
  then show ?thesis
    by (simp add: recompute_state_from_blocks_def and_then_Inr_iff run_steps_concat)
qed

section \<open>Well-formed chains\<close>

lemma chain_wf_nonempty: "chain_wf K i blks \<Longrightarrow> blks \<noteq> []"
  by (auto simp: chain_wf_def)

lemma chain_wf_genesis: "chain_wf K i [genesis_block]"
  by (simp add: chain_wf_def genesis_block_def)

lemma chain_wf_butlast:
  assumes "chain_wf K i (blks @ [b])" "blks \<noteq> []"
  shows "chain_wf K i blks \<and> valid_link K i (last blks) b"
proof -
  from assms obtain x rest where x: "blks = x # rest" "x = genesis_block"
    by (cases blks) (auto simp: chain_wf_def)
  have "unat (height (blks ! j)) = j" if "j < length blks" for j
  proof -
    from assms(1) that have "unat (height ((blks @ [b]) ! j)) = j" by (simp add: chain_wf_def)
    with that show ?thesis by (simp add: nth_append)
  qed
  moreover have "successively (valid_link K i) blks \<and> valid_link K i (last blks) b"
    using assms by (simp add: chain_wf_def successively_append_iff)
  ultimately show ?thesis using x by (simp add: chain_wf_def)
qed

lemma chain_wf_last_height: "chain_wf K i blks \<Longrightarrow> unat (height (last blks)) = length blks - 1"
  using chain_wf_nonempty [of K i blks] by (simp add: chain_wf_def last_conv_nth)

lemma chain_wf_last_valid:
  assumes "chain_wf K i blks"
  shows "last blks = genesis_block \<or> (block_basic_validate K (last blks) = Inr () \<and> height (last blks) \<noteq> 0)"
proof (cases blks rule: rev_cases)
  case Nil
  with chain_wf_nonempty [OF assms] show ?thesis by simp
next
  case (snoc ys y)
  show ?thesis
  proof (cases "ys = []")
    case True
    with snoc assms show ?thesis by (auto simp: chain_wf_def)
  next
    case False
    with assms snoc have "valid_link K i (last ys) y" using chain_wf_butlast by blast
    moreover have "unat (height y) \<noteq> 0" using chain_wf_last_height [OF assms] snoc False by simp
    ultimately show ?thesis using snoc by (auto simp: valid_link_def)
  qed
qed

lemma genesis_not_hex64: "\<not> hex64 ''GENESIS''" "\<not> hex64 ''GENESIS_HASH''"
  by (simp_all add: hex64_def)

text \<open>The next height does not wrap around.\<close>

lemma valid_link_height:
  assumes "digest_format K" "chain_wf K i blks" "valid_link K i (last blks) b"
  shows "unat (height b) = length blks"
proof -
  let ?tip = "last blks"
  from assms(3) have h: "height b = height ?tip + 1" and prev: "previous_hash b = block_hash ?tip"
    and val: "block_basic_validate K b = Inr ()" by (auto simp: valid_link_def)
  have "height b \<noteq> 0"
  proof
    assume z: "height b = 0"
    with val have g: "block_hash ?tip = ''GENESIS''"
      using prev by (simp add: genesis_basic_validate_ok)
    from chain_wf_last_valid [OF assms(2)] show False
    proof
      assume "?tip = genesis_block"
      with g show False by (simp add: genesis_block_def)
    next
      assume "block_basic_validate K ?tip = Inr () \<and> height ?tip \<noteq> 0"
      with g genesis_not_hex64 block_valid_hex64 [OF assms(1)] show False by metis
    qed
  qed
  then have "unat (height b) = unat (height ?tip) + 1"
    using h unatSuc [of "height ?tip"] by (simp add: add.commute)
  then show ?thesis
    using chain_wf_last_height [OF assms(2)] chain_wf_nonempty [OF assms(2)] by (cases blks) simp_all
qed

lemma chain_wf_snoc:
  assumes "digest_format K" "chain_wf K i blks" "valid_link K i (last blks) b"
  shows "chain_wf K i (blks @ [b])"
  using assms valid_link_height [OF assms]
  by (auto simp: chain_wf_def successively_append_iff nth_append less_Suc_eq)

lemma chain_wf_take: "chain_wf K i blks \<Longrightarrow> 0 < n \<Longrightarrow> chain_wf K i (take n blks)"
proof (induction blks rule: rev_induct)
  case (snoc b blks)
  show ?case
  proof (cases "n \<le> length blks")
    case True
    with snoc.prems have "blks \<noteq> []" by auto
    with snoc True chain_wf_butlast show ?thesis by auto
  next
    case False
    with snoc.prems show ?thesis by simp
  qed
qed (simp add: chain_wf_def)

lemma pop_above_take:
  assumes "chain_wf K i blks"
  shows "pop_above t blks = take (Suc (unat t)) blks"
  using assms
proof (induction blks rule: rev_induct)
  case (snoc b blks)
  from chain_wf_last_height [OF snoc.prems] have h: "unat (height b) = length blks" by simp
  show ?case
  proof (cases "t < height b")
    case True
    then have lt: "unat t < length blks" by (simp add: word_less_nat_alt h)
    then have "blks \<noteq> []" by auto
    with snoc.prems have "chain_wf K i blks" using chain_wf_butlast by blast
    from snoc.IH [OF this] lt True show ?thesis
      by (subst pop_above.simps) (simp add: chain_height_def)
  next
    case False
    then have "length blks \<le> unat t" by (simp add: word_less_nat_alt h)
    with False show ?thesis by (subst pop_above.simps) (simp add: chain_height_def)
  qed
qed (simp add: chain_wf_def)

lemma recompute_take:
  assumes "recompute_state_from_blocks K blks g = Inr s" "0 < n"
  shows "\<exists>s'. recompute_state_from_blocks K (take n blks) g = Inr s'"
proof -
  let ?txs = "\<lambda>blks. concat (map transactions (drop 1 blks))"
  have "drop 1 blks = drop 1 (take n blks) @ drop n blks"
    using assms(2) by (cases n; cases blks) auto
  then have "?txs blks = ?txs (take n blks) @ concat (map transactions (drop n blks))"
    by (metis concat_append map_append)
  with assms(1) show ?thesis
    by (simp only: recompute_eq_run) (metis run_steps_append_ok)
qed

section \<open>Every operation keeps the invariant\<close>

lemma chain_inv_genesis:
  assumes "from_genesis_with_consensus g params = Inr bc"
  shows "chain_inv K g bc \<and> bc_consensus bc = params \<and> bc_blocks bc = [genesis_block]"
  using assms
  by (auto simp: from_genesis_with_consensus_def blockchain_from_genesis_def and_then_Inr_iff
      chain_inv_def chain_wf_genesis recompute_single)

lemma append_block_inv:
  assumes "digest_format K" "chain_inv K g bc" "append_block K bc b = (bc', r)"
  shows "chain_inv K g bc'"
proof (cases r)
  case (Inl e)
  with assms show ?thesis by (auto dest: append_block_Inl)
next
  case (Inr u)
  with assms(3) obtain s' where link: "valid_link K (min_block_interval_secs (bc_consensus bc)) (last (bc_blocks bc)) b"
    and ap: "apply_block_txs K (bc_state bc) b = (s', Inr ())"
    and bc': "bc' = bc\<lparr>bc_state := s', bc_blocks := bc_blocks bc @ [b]\<rparr>"
    by (auto simp: append_block_ok)
  with assms(1,2) chain_wf_snoc [OF assms(1) _ link] show ?thesis
    by (auto simp: chain_inv_def recompute_snoc chain_wf_nonempty)
qed

lemma append_pending_cases:
  assumes "append_block_from_mempool_pending_removal K bc mp n ts = (bc', r)"
  obtains "bc' = bc" | b where "append_block K bc b = (bc', Inr ())"
  using assms
  by (auto simp: append_block_from_mempool_pending_removal_def Let_def dest: append_block_Inl
      split: sum.splits prod.splits if_splits)

lemma rollback_to_height_spec:
  assumes "chain_inv K g bc" "target \<le> bc_height bc"
  shows "\<exists>st. rollback_to_height K bc target g =
     (bc\<lparr>bc_blocks := take (Suc (unat target)) (bc_blocks bc), bc_state := st\<rparr>, Inr ()) \<and>
     recompute_state_from_blocks K (take (Suc (unat target)) (bc_blocks bc)) g = Inr st"
proof -
  let ?bs = "take (Suc (unat target)) (bc_blocks bc)"
  have pop: "pop_above target (bc_blocks bc) = ?bs"
    using assms(1) pop_above_take by (auto simp: chain_inv_def)
  from assms(1) recompute_take obtain st where "recompute_state_from_blocks K ?bs g = Inr st"
    unfolding chain_inv_def by blast
  with assms(2) pop show ?thesis by (simp add: rollback_to_height_def Let_def not_less)
qed

lemma rollback_last_block_spec:
  assumes "chain_inv K g bc" "bc_blocks bc = blks @ [b]" "blks \<noteq> []"
  shows "\<exists>st. rollback_last_block K bc g = (bc\<lparr>bc_blocks := blks, bc_state := st\<rparr>, Inr ()) \<and>
     recompute_state_from_blocks K blks g = Inr st"
proof -
  from assms obtain st where st: "recompute_state_from_blocks K blks g = Inr st"
    by (auto simp: chain_inv_def recompute_snoc)
  then obtain s0 where "state_from_genesis g = Inr s0" "run_steps (apply_block_txs K) s0 (drop 1 blks) = (st, Inr ())"
    by (auto simp: recompute_state_from_blocks_def and_then_Inr_iff)
  with st assms(2,3) show ?thesis
    by (cases blks) (simp_all add: rollback_last_block_def rebuild_state_from_genesis_def)
qed

inductive chain_step :: "crypto \<Rightarrow> genesis \<Rightarrow> blockchain \<Rightarrow> blockchain \<Rightarrow> bool" for K g where
  append: "append_block K bc b = (bc', r) \<Longrightarrow> chain_step K g bc bc'"
| network: "try_append_network_block K bc b now = (bc', r) \<Longrightarrow> chain_step K g bc bc'"
| seal: "append_block_from_mempool K bc mp n ts = ((bc', mp'), r) \<Longrightarrow> chain_step K g bc bc'"
| rollback: "rollback_to_height K bc target g = (bc', r) \<Longrightarrow> chain_step K g bc bc'"
| rollback_last: "rollback_last_block K bc g = (bc', r) \<Longrightarrow> chain_step K g bc bc'"
| set_drift: "chain_step K g bc (bc\<lparr>bc_consensus := (bc_consensus bc)\<lparr>max_future_drift_secs := d\<rparr>\<rparr>)"

lemma append_from_mempool_cases:
  assumes "append_block_from_mempool K bc mp n ts = ((bc', mp'), r)"
  obtains "bc' = bc" | b where "append_block K bc b = (bc', Inr ())"
proof -
  from assms obtain r' where "append_block_from_mempool_pending_removal K bc mp n ts = (bc', r')"
    by (auto simp: append_block_from_mempool_def split: prod.splits sum.splits option.splits)
  then show thesis using append_pending_cases that by metis
qed

lemma chain_step_inv:
  assumes "digest_format K" "chain_step K g bc bc'" "chain_inv K g bc"
  shows "chain_inv K g bc'"
  using assms(2)
proof (cases rule: chain_step.cases)
  case (append b r)
  with append_block_inv [OF assms(1,3)] show ?thesis by blast
next
  case (network b now r)
  with append_block_inv [OF assms(1,3)] assms(3) show ?thesis
    by (auto simp: try_append_network_block_def split: sum.splits)
next
  case (seal mp n ts mp' r)
  with append_from_mempool_cases append_block_inv [OF assms(1,3)] assms(3) show ?thesis by metis
next
  case (rollback target r)
  show ?thesis
  proof (cases "target \<le> bc_height bc")
    case True
    from rollback_to_height_spec [OF assms(3) True] rollback assms(3) show ?thesis
      by (auto simp: chain_inv_def chain_wf_take)
  next
    case False
    with rollback assms(3) show ?thesis by (simp add: rollback_to_height_def not_le)
  qed
next
  case (rollback_last r)
  show ?thesis
  proof (cases "length (bc_blocks bc) \<le> 1")
    case True
    with rollback_last assms(3) show ?thesis by (simp add: rollback_last_block_def)
  next
    case False
    then obtain blks b where bs: "bc_blocks bc = blks @ [b]" "blks \<noteq> []"
      by (cases "bc_blocks bc" rule: rev_cases) auto
    from rollback_last_block_spec [OF assms(3) bs] rollback_last assms(3) bs show ?thesis
      by (auto simp: chain_inv_def dest: chain_wf_butlast)
  qed
next
  case (set_drift d)
  with assms(3) show ?thesis by (simp add: chain_inv_def)
qed

interpretation chain_run: stepwise "chain_step K g" "\<lambda>bc. digest_format K \<and> chain_inv K g bc" "\<lambda>_ _. True" for K g
  by unfold_locales (auto dest: chain_step_inv)

section \<open>Hash chains\<close>

text \<open>
  Blocks linked by the hash of their predecessor.  If equal hashes mean equivalent blocks and
  no block hashes to the root's hash, then the hash of the tip fixes the whole chain.
\<close>

locale hash_chain =
  fixes root :: 'b
    and hash_of :: "'b \<Rightarrow> 'h"
    and prev_of :: "'b \<Rightarrow> 'h"
    and good :: "'b \<Rightarrow> bool"
    and equiv_block :: "'b \<Rightarrow> 'b \<Rightarrow> bool"
  assumes hash_commits: "good b \<Longrightarrow> good c \<Longrightarrow> hash_of b = hash_of c \<Longrightarrow> equiv_block b c"
    and equiv_prev: "equiv_block b c \<Longrightarrow> prev_of b = prev_of c"
    and root_fresh: "good b \<Longrightarrow> hash_of b \<noteq> hash_of root"
begin

lemma same_tip_same_chain:
  assumes "successively (\<lambda>p b. prev_of b = hash_of p) (root # bs)" "\<forall>b \<in> set bs. good b"
    and "successively (\<lambda>p b. prev_of b = hash_of p) (root # cs)" "\<forall>c \<in> set cs. good c"
    and "hash_of (last (root # bs)) = hash_of (last (root # cs))"
  shows "list_all2 equiv_block bs cs"
  using assms
proof (induction bs arbitrary: cs rule: rev_induct)
  case Nil
  show ?case
  proof (cases cs rule: rev_cases)
    case (snoc ds d)
    with Nil.prems root_fresh [of d] show ?thesis by simp
  qed simp
next
  case (snoc b bs)
  show ?case
  proof (cases cs rule: rev_cases)
    case Nil
    with snoc.prems root_fresh [of b] show ?thesis by simp
  next
    case cs: (snoc ds d)
    with snoc.prems have eq: "equiv_block b d" using hash_commits by simp
    from snoc.prems(1) have b: "successively (\<lambda>p b. prev_of b = hash_of p) (root # bs)"
        "prev_of b = hash_of (last (root # bs))"
      using successively_append_iff [of _ "root # bs" "[b]"] by auto
    from snoc.prems(3) cs have d: "successively (\<lambda>p b. prev_of b = hash_of p) (root # ds)"
        "prev_of d = hash_of (last (root # ds))"
      using successively_append_iff [of _ "root # ds" "[d]"] by auto
    have "hash_of (last (root # bs)) = hash_of (last (root # ds))"
      using b(2) d(2) equiv_prev [OF eq] by simp
    with snoc.IH [OF b(1) _ d(1)] snoc.prems cs have "list_all2 equiv_block bs ds" by simp
    with eq cs show ?thesis by (simp add: list_all2_appendI)
  qed
qed

end

definition same_header :: "block \<Rightarrow> block \<Rightarrow> bool" where
  "same_header b c \<longleftrightarrow> height b = height c \<and> previous_hash b = previous_hash c \<and>
     timestamp_unix b = timestamp_unix c \<and> map tx_hash (transactions b) = map tx_hash (transactions c)"

text \<open>A validated block above genesis whose header preimage is among the collision-free inputs.\<close>

definition hashed_block :: "crypto \<Rightarrow> bytes set \<Rightarrow> block \<Rightarrow> bool" where
  "hashed_block K P b \<longleftrightarrow> digest_format K \<and> hex_injective K \<and> collision_free K P \<and>
     block_header_preimage_bytes b \<in> P \<and> height b \<noteq> 0 \<and> block_basic_validate K b = Inr ()"

interpretation block_chain: hash_chain genesis_block block_hash previous_hash "hashed_block K P" same_header
  for K P
proof
  show "same_header b c" if "hashed_block K P b" "hashed_block K P c" "block_hash b = block_hash c" for b c
    using that unfolding hashed_block_def same_header_def by (intro block_hash_commits [of K P]) auto
  show "block_hash b \<noteq> block_hash genesis_block" if "hashed_block K P b" for b
    using that block_valid_hex64 [of K b] genesis_not_hex64(2)
    by (auto simp: hashed_block_def genesis_block_def)
qed (simp add: same_header_def)

text \<open>Everything that is hashed to identify a chain: headers and transaction payloads.\<close>

definition chain_preimages :: "block list \<Rightarrow> bytes set" where
  "chain_preimages blks = block_header_preimage_bytes ` set blks \<union>
     (\<Union>b \<in> set blks. unsigned_payload_bytes ` set (transactions b))"

lemma chain_wf_tail:
  assumes "chain_wf K i blks"
  shows "blks = genesis_block # tl blks" "b \<in> set (tl blks) \<Longrightarrow> block_basic_validate K b = Inr () \<and> height b \<noteq> 0"
    "successively (\<lambda>p b. previous_hash b = block_hash p) blks"
proof -
  show cons: "blks = genesis_block # tl blks" using assms by (auto simp: chain_wf_def)
  show "successively (\<lambda>p b. previous_hash b = block_hash p) blks"
    using assms by (auto simp: chain_wf_def valid_link_def elim: successively_mono)
  show "block_basic_validate K b = Inr () \<and> height b \<noteq> 0" if b: "b \<in> set (tl blks)"
  proof -
    from b obtain j where j: "j < length (tl blks)" "tl blks ! j = b" by (auto simp: in_set_conv_nth)
    then have sj: "Suc j < length blks" "blks ! Suc j = b" by (simp_all add: nth_tl)
    then have "valid_link K i (blks ! j) b"
      using assms unfolding chain_wf_def successively_conv_nth by blast
    moreover have "unat (height b) = Suc j" using assms sj unfolding chain_wf_def by blast
    ultimately show ?thesis by (auto simp: valid_link_def)
  qed
qed

lemma apply_same_transfer:
  assumes "same_transfer t u" "tx_basic_validate K t = Inr ()" "tx_basic_validate K u = Inr ()"
  shows "apply_transaction K s t = apply_transaction K s u"
proof -
  from assms(1) have eqs: "sender t = sender u" "receiver t = receiver u" "amount t = amount u"
    "fee t = fee u" "nonce t = nonce u" by (simp_all add: same_transfer_def)
  show ?thesis unfolding apply_transaction_def apply_self_transfer_def eqs assms(2,3) by (rule refl)
qed

lemma run_same_transfers:
  assumes "list_all2 same_transfer ts us"
    "\<forall>t \<in> set ts. tx_basic_validate K t = Inr ()" "\<forall>u \<in> set us. tx_basic_validate K u = Inr ()"
  shows "run_steps (apply_transaction K) s ts = run_steps (apply_transaction K) s us"
  using assms
proof (induction arbitrary: s rule: list_all2_induct)
  case (Cons t ts u us)
  then show ?case using apply_same_transfer [of t u K s] by (simp split: prod.split sum.split)
qed simp

lemma same_ids_same_transfers:
  assumes "digest_format K" "hex_injective K" "collision_free K P"
    "map tx_hash ts = map tx_hash us"
    "\<forall>t \<in> set ts. tx_basic_validate K t = Inr () \<and> unsigned_payload_bytes t \<in> P"
    "\<forall>u \<in> set us. tx_basic_validate K u = Inr () \<and> unsigned_payload_bytes u \<in> P"
  shows "list_all2 same_transfer ts us"
  unfolding list_all2_conv_all_nth
proof (intro conjI allI impI)
  show len: "length ts = length us" using assms(4) by (rule map_eq_imp_length_eq)
  fix j assume j: "j < length ts"
  with assms(4) len have "tx_hash (ts ! j) = tx_hash (us ! j)" by (metis nth_map)
  with j len assms(5,6) show "same_transfer (ts ! j) (us ! j)"
    using tx_hash_commits [OF assms(1-3)] by simp
qed

lemma same_headers_same_run:
  assumes "digest_format K" "hex_injective K" "collision_free K P"
    and "list_all2 same_header bs cs" "chain_preimages bs \<subseteq> P" "chain_preimages cs \<subseteq> P"
    and "\<forall>b \<in> set bs. block_basic_validate K b = Inr ()" "\<forall>c \<in> set cs. block_basic_validate K c = Inr ()"
  shows "run_steps (apply_block_txs K) s bs = run_steps (apply_block_txs K) s cs"
  using assms(4-8)
proof (induction arbitrary: s rule: list_all2_induct)
  case (Cons b bs c cs)
  have "list_all2 same_transfer (transactions b) (transactions c)"
    using Cons.hyps(1) Cons.prems block_valid_txs
    by (intro same_ids_same_transfers [OF assms(1-3)]) (auto simp: same_header_def chain_preimages_def)
  then have "apply_block_txs K s b = apply_block_txs K s c" for s
    using Cons.prems block_valid_txs unfolding apply_block_txs_def by (intro run_same_transfers) auto
  with Cons show ?case by (simp add: chain_preimages_def split: prod.split sum.split)
qed simp

lemma same_tip_same_headers:
  assumes "digest_format K" "hex_injective K" "collision_free K P"
    and "chain_wf K i bs" "chain_wf K j cs" "chain_preimages bs \<subseteq> P" "chain_preimages cs \<subseteq> P"
    and "block_hash (last bs) = block_hash (last cs)"
  shows "list_all2 same_header (tl bs) (tl cs)"
proof -
  note b = chain_wf_tail [OF assms(4)] and c = chain_wf_tail [OF assms(5)]
  have "hashed_block K P x" if "x \<in> set (tl bs)" for x
    using that b(2) assms(1-3,6) list.set_sel(2) [of bs x]
    by (cases bs) (auto simp: hashed_block_def chain_preimages_def)
  moreover have "hashed_block K P x" if "x \<in> set (tl cs)" for x
    using that c(2) assms(1-3,7) by (cases cs) (auto simp: hashed_block_def chain_preimages_def)
  ultimately show ?thesis
    using b(1,3) c(1,3) assms(8) by (intro block_chain.same_tip_same_chain [where K = K and P = P]) auto
qed

lemma chain_preimages_tl: "chain_preimages (tl bs) \<subseteq> chain_preimages bs"
  by (cases bs) (auto simp: chain_preimages_def)

lemma run_validates:
  "run_steps (apply_transaction K) s ts = (s', Inr ()) \<Longrightarrow> t \<in> set ts \<Longrightarrow> tx_basic_validate K t = Inr ()"
proof (induction ts arbitrary: s)
  case (Cons u ts)
  then show ?case
    by (auto simp: run_steps_Cons_ok apply_transaction_ok transfer_enabled_def simp del: run_steps.simps)
qed simp

lemma tip_hash_visible:
  assumes "digest_format K" "chain_wf K i blks"
  shows "trim (block_hash (last blks)) \<noteq> []"
  using chain_wf_last_valid [OF assms(2)]
proof
  have "trim ''GENESIS_HASH'' \<noteq> []" by code_simp
  then show ?thesis if "last blks = genesis_block" using that by (simp add: genesis_block_def)
next
  assume v: "block_basic_validate K (last blks) = Inr () \<and> height (last blks) \<noteq> 0"
  then have h: "hex64 (block_hash (last blks))" using block_valid_hex64 [OF assms(1)] by blast
  from hex64_trim [OF h] hex64_nonempty [OF h] show ?thesis by simp
qed

text \<open>The block the producer builds on the tip.\<close>

definition sealed_block :: "crypto \<Rightarrow> block \<Rightarrow> u64 \<Rightarrow> transaction list \<Rightarrow> block" where
  "sealed_block K tip ts sel =
    (let b = \<lparr>height = height tip + 1, previous_hash = block_hash tip, timestamp_unix = ts,
              transactions = sel, block_hash = ''''\<rparr>
     in b\<lparr>block_hash := compute_block_hash K b\<rparr>)"

lemma sealed_block_simps [simp]:
  "height (sealed_block K tip ts sel) = height tip + 1"
  "previous_hash (sealed_block K tip ts sel) = block_hash tip"
  "timestamp_unix (sealed_block K tip ts sel) = ts"
  "transactions (sealed_block K tip ts sel) = sel"
  by (simp_all add: sealed_block_def Let_def)

lemma sealed_block_hash:
  "block_hash (sealed_block K tip ts sel) = compute_block_hash K (sealed_block K tip ts sel)"
  by (simp add: sealed_block_def Let_def compute_block_hash_def block_header_preimage_bytes_def
      block_header_preimage_def)

lemma sealed_block_valid:
  assumes "digest_format K" "chain_wf K i blks" "unat (height (last blks)) + 1 < 2 ^ 64"
    and "distinct (map tx_hash sel)" "\<forall>tx \<in> set sel. tx_basic_validate K tx = Inr ()"
  shows "block_basic_validate K (sealed_block K (last blks) ts sel) = Inr ()"
proof -
  let ?b = "sealed_block K (last blks) ts sel"
  have "unat (height ?b) = unat (height (last blks)) + 1"
    using assms(3) by (simp add: unat_plus_no_overflow)
  then have nz: "height ?b \<noteq> 0" by auto
  have h: "hex64 (compute_block_hash K ?b)" by (simp add: compute_block_hash_def hash_bytes_hex64 assms(1))
  show ?thesis
    using nz assms(4,5) tip_hash_visible [OF assms(1,2)] hex64_trim [OF h] hex64_nonempty [OF h]
    by (simp add: block_basic_validate_ok sealed_block_hash)
qed

text \<open>Replaying the blocks of a chain.\<close>

lemma replay_blocks:
  assumes "from_genesis_with_consensus g (bc_consensus bc) = Inr bc0" "chain_inv K g bc"
  shows "run_steps (append_block K) bc0 (tl (bc_blocks bc)) = (bc, Inr ())"
  using assms
proof (induction "bc_blocks bc" arbitrary: bc rule: rev_induct)
  case Nil
  then show ?case by (simp add: chain_inv_def chain_wf_def)
next
  case (snoc b blks)
  note g = chain_inv_genesis [OF snoc.prems(1), of K]
  from snoc.hyps(2) have bs: "bc_blocks bc = blks @ [b]" by simp
  show ?case
  proof (cases "blks = []")
    case True
    with bs snoc.prems(2) g show ?thesis
      by (cases bc; cases bc0) (auto simp: chain_inv_def chain_wf_def recompute_single)
  next
    case False
    let ?i = "min_block_interval_secs (bc_consensus bc)"
    from snoc.prems(2) bs False obtain st where
      st: "recompute_state_from_blocks K blks g = Inr st" "apply_block_txs K st b = (bc_state bc, Inr ())"
      by (auto simp: chain_inv_def recompute_snoc)
    from snoc.prems(2) bs False have wf: "chain_wf K ?i blks \<and> valid_link K ?i (last blks) b"
      by (auto simp: chain_inv_def dest: chain_wf_butlast)
    let ?bc = "bc\<lparr>bc_blocks := blks, bc_state := st\<rparr>"
    from st(1) wf have "chain_inv K g ?bc" by (simp add: chain_inv_def)
    with snoc.hyps(1) [of ?bc] snoc.prems(1) have IH: "run_steps (append_block K) bc0 (tl blks) = (?bc, Inr ())"
      by simp
    have "append_block K ?bc b = (bc, Inr ())"
      using wf st(2) False bs by (cases bc) (simp add: append_block_ok)
    with IH bs False show ?thesis by (simp add: run_steps_append)
  qed
qed

lemma filter_from_index:
  assumes "\<forall>i < length xs. f (xs ! i) = i"
  shows "filter (\<lambda>x. n \<le> f x) xs = drop n xs"
  using assms
proof (induction xs rule: rev_induct)
  case (snoc x xs)
  have "\<forall>i < length xs. f (xs ! i) = i"
    using snoc.prems by (metis length_append_singleton less_SucI nth_append)
  moreover have "f x = length xs" using snoc.prems by (metis length_append_singleton lessI nth_append_length)
  ultimately show ?case using snoc.IH by simp
qed simp

section \<open>Properties\<close>

text \<open>
  C2. Chains stay well formed and their state stays the replay of their blocks: whatever blocks
  are offered, sealed, received or rolled back, the chain starts at the genesis block, block
  number \<open>i\<close> has height \<open>i\<close> (heights never wrap around), every block validates and links to its
  parent by hash and timestamp, and recomputing from genesis gives the account state held.
\<close>

theorem chain_invariant:
  assumes "digest_format K" "from_genesis_with_consensus g params = Inr bc0" "(chain_step K g)\<^sup>*\<^sup>* bc0 bc"
  shows "chain_inv K g bc"
  using chain_run.run_keeps [OF assms(3)] chain_inv_genesis [OF assms(2)] assms(1) by blast

text \<open>
  C1. The tip hash commits to the ledger: two nodes that started from the same genesis document
  and whose tips carry the same hash hold the same account state, and their chains agree block
  by block on height, parent, timestamp and transaction ids, unless SHA-256 collides on the
  headers and payloads involved.
\<close>

theorem tip_hash_determines_state:
  assumes "digest_format K" "hex_injective K"
    and "collision_free K (chain_preimages (bc_blocks c1) \<union> chain_preimages (bc_blocks c2))"
    and "chain_inv K g c1" "chain_inv K g c2"
    and "block_hash (last (bc_blocks c1)) = block_hash (last (bc_blocks c2))"
  shows "list_all2 same_header (bc_blocks c1) (bc_blocks c2) \<and> bc_state c1 = bc_state c2"
proof -
  let ?P = "chain_preimages (bc_blocks c1) \<union> chain_preimages (bc_blocks c2)"
  from assms(4,5) obtain i j where wf: "chain_wf K i (bc_blocks c1)" "chain_wf K j (bc_blocks c2)"
    by (auto simp: chain_inv_def)
  note t1 = chain_wf_tail [OF wf(1)] and t2 = chain_wf_tail [OF wf(2)]
  have eq: "list_all2 same_header (tl (bc_blocks c1)) (tl (bc_blocks c2))"
    by (rule same_tip_same_headers [OF assms(1-3) wf _ _ assms(6)]) auto
  have "run_steps (apply_block_txs K) s (tl (bc_blocks c1)) = run_steps (apply_block_txs K) s (tl (bc_blocks c2))" for s
    using same_headers_same_run [OF assms(1-3) eq] chain_preimages_tl t1(2) t2(2) by blast
  with assms(4,5) have "bc_state c1 = bc_state c2"
    by (auto simp: chain_inv_def recompute_state_from_blocks_def and_then_Inr_iff drop_Suc)
  moreover have "list_all2 same_header (bc_blocks c1) (bc_blocks c2)"
    using eq t1(1) t2(1) by (metis list_all2_Cons same_header_def)
  ultimately show ?thesis by simp
qed

lemma rollback_append:
  assumes "digest_format K" "chain_inv K g bc" "append_block K bc b = (bc', Inr ())"
  shows "rollback_last_block K bc' g = (bc, Inr ())"
proof -
  have inv: "chain_inv K g bc'" by (rule append_block_inv [OF assms])
  from assms(3) have bs: "bc_blocks bc' = bc_blocks bc @ [b]" "bc_blocks bc \<noteq> []" "bc_consensus bc' = bc_consensus bc"
    by (auto simp: append_block_ok)
  from rollback_last_block_spec [OF inv bs(1,2)] assms(2) bs(3) show ?thesis
    by (auto simp: chain_inv_def)
qed

text \<open>
  C9. Undoing a seal is exact: dropping a block that was just appended restores blocks and state
  to what they were, which is what the node does when the block cannot be written to disk.
\<close>

theorem append_then_rollback:
  assumes "digest_format K" "chain_inv K g bc" "append_block K bc b = (bc', Inr ())"
  shows "rollback_last_block K bc' g = (bc, Inr ())"
  using assms by (rule rollback_append)

text \<open>
  Rolling back to a height at or below the tip always succeeds, keeps exactly the blocks up
  to that height and leaves the state of that prefix.
\<close>

theorem rollback_to_height_effect:
  assumes "chain_inv K g bc" "target \<le> bc_height bc"
  shows "\<exists>bc'. rollback_to_height K bc target g = (bc', Inr ()) \<and>
    bc_blocks bc' = take (Suc (unat target)) (bc_blocks bc) \<and> bc_height bc' = target \<and> chain_inv K g bc'"
proof -
  from rollback_to_height_spec [OF assms] obtain st where
    r: "rollback_to_height K bc target g = (bc\<lparr>bc_blocks := take (Suc (unat target)) (bc_blocks bc), bc_state := st\<rparr>, Inr ())"
    "recompute_state_from_blocks K (take (Suc (unat target)) (bc_blocks bc)) g = Inr st" by blast
  let ?bs = "take (Suc (unat target)) (bc_blocks bc)"
  have wf: "chain_wf K (min_block_interval_secs (bc_consensus bc)) (bc_blocks bc)"
    using assms(1) by (simp add: chain_inv_def)
  note wf' = chain_wf_take [OF wf, of "Suc (unat target)"]
  have "unat target < length (bc_blocks bc)"
    using assms(2) chain_wf_last_height [OF wf] chain_wf_nonempty [OF wf]
    by (cases "bc_blocks bc") (simp_all add: bc_height_def chain_height_def word_le_nat_alt)
  then have "unat (height (last ?bs)) = unat target" using chain_wf_last_height [OF wf'] by simp
  then have "chain_height ?bs = target" using chain_wf_nonempty [OF wf'] by (simp add: chain_height_def word_unat_eq_iff)
  with r wf' show ?thesis by (simp add: chain_inv_def bc_height_def)
qed

lemma seal_pending:
  assumes "digest_format K" "chain_inv K g bc" "mempool_inv mp"
    and "ordered_candidates_for_seal K mp (bc_state bc) n = Inr sel" "sel \<noteq> []"
    and "unat (timestamp_unix (last (bc_blocks bc))) + unat (min_block_interval_secs (bc_consensus bc)) \<le> unat ts"
    and "unat (bc_height bc) + 1 < 2 ^ 64"
  shows "\<exists>bc'. append_block_from_mempool_pending_removal K bc mp n ts = (bc', Inr (Some (map tx_hash sel))) \<and>
    append_block K bc (sealed_block K (last (bc_blocks bc)) ts sel) = (bc', Inr ()) \<and>
    run_steps (apply_transaction K) (bc_state bc) sel = (bc_state bc', Inr ()) \<and> set sel \<subseteq> set (clone_fifo mp)"
proof -
  let ?tip = "last (bc_blocks bc)" and ?b = "sealed_block K (last (bc_blocks bc)) ts sel"
  from candidates_for_seal_sound [OF assms(4)] obtain s' where
    run: "run_steps (apply_transaction K) (bc_state bc) sel = (s', Inr ())" and sub: "subseq sel (clone_fifo mp)"
    by blast
  have wf: "chain_wf K (min_block_interval_secs (bc_consensus bc)) (bc_blocks bc)"
    using assms(2) by (simp add: chain_inv_def)
  note ne = chain_wf_nonempty [OF wf]
  have "distinct (map tx_hash sel)"
    using subseq_distinct [OF subseq_map [OF sub] fifo_distinct_hashes [OF assms(3)]] .
  then have "valid_link K (min_block_interval_secs (bc_consensus bc)) ?tip ?b"
    using sealed_block_valid [OF assms(1) wf] assms(6,7) ne run_validates [OF run]
    by (simp add: valid_link_def bc_height_def chain_height_def)
  then obtain bc' where ap: "append_block K bc ?b = (bc', Inr ())" and st: "bc_state bc' = s'"
    using ne run by (auto simp: append_block_ok apply_block_txs_def)
  from ap assms(4,5) ne have "append_block_from_mempool_pending_removal K bc mp n ts = (bc', Inr (Some (map tx_hash sel)))"
    by (simp add: append_block_from_mempool_pending_removal_def sealed_block_def Let_def)
  with ap st run subseq_set [OF sub] show ?thesis by blast
qed

text \<open>
  C8. Sealing delivers what was selected: when the selection is not empty, the clock respects the
  minimum interval and the chain is not at its last height, the producer appends one block that
  holds exactly the selected transactions, and takes exactly these out of the pool.
\<close>

theorem seal_effect:
  assumes "digest_format K" "chain_inv K g bc" "mempool_inv mp"
    and "ordered_candidates_for_seal K mp (bc_state bc) n = Inr sel" "sel \<noteq> []"
    and "unat (timestamp_unix (last (bc_blocks bc))) + unat (min_block_interval_secs (bc_consensus bc)) \<le> unat ts"
    and "unat (bc_height bc) + 1 < 2 ^ 64"
  shows "\<exists>bc' mp'. append_block_from_mempool K bc mp n ts = ((bc', mp'), Inr (length sel)) \<and>
    bc_blocks bc' = bc_blocks bc @ [sealed_block K (last (bc_blocks bc)) ts sel] \<and> chain_inv K g bc' \<and>
    clone_fifo mp' = filter (\<lambda>tx. tx \<notin> set sel) (clone_fifo mp)"
proof -
  from seal_pending [OF assms] obtain bc' where
    p: "append_block_from_mempool_pending_removal K bc mp n ts = (bc', Inr (Some (map tx_hash sel)))"
    and ap: "append_block K bc (sealed_block K (last (bc_blocks bc)) ts sel) = (bc', Inr ())" and sub: "set sel \<subseteq> set (clone_fifo mp)" by blast
  from p have "append_block_from_mempool K bc mp n ts =
      ((bc', remove_by_tx_hashes mp (map tx_hash sel)), Inr (length sel))"
    by (simp add: append_block_from_mempool_def)
  with append_block_inv [OF assms(1,2) ap] ap pool_queue.commit_contents [OF assms(3) sub]
  show ?thesis by (auto simp: append_block_ok)
qed

text \<open>
  A chain is a function of its blocks: appending the stored blocks one after the other to a
  fresh chain succeeds and gives back the chain, state included.
\<close>

theorem replay_reproduces_chain:
  assumes "chain_inv K g bc" "from_genesis_with_consensus g (bc_consensus bc) = Inr bc0"
  shows "run_steps (append_block K) bc0 (tl (bc_blocks bc)) = (bc, Inr ())"
  using assms(2,1) by (rule replay_blocks)

text \<open>
  C5. Money on a chain: the balances held plus all fees burned in its blocks are the genesis
  allocations, and no (sender, nonce) pair is spent twice anywhere in the chain.
\<close>

theorem chain_money:
  assumes "chain_inv K g bc"
  shows "total_supply (bc_state bc) +
      sum_list (map (\<lambda>tx. unat (fee tx)) (concat (map transactions (tl (bc_blocks bc))))) =
      sum_list (map (\<lambda>a. unat (alloc_balance a)) (allocations g)) \<and>
    distinct (map (\<lambda>tx. (sender tx, unat (nonce tx))) (concat (map transactions (tl (bc_blocks bc)))))"
proof -
  from assms obtain s0 where s0: "state_from_genesis g = Inr s0"
    and run: "run_steps (apply_transaction K) s0 (concat (map transactions (tl (bc_blocks bc)))) = (bc_state bc, Inr ())"
    by (auto simp: chain_inv_def recompute_eq_run drop_Suc)
  from ledger_run.run_burn [OF run] ledger_run.run_no_replay [OF run] supply_from_genesis [OF s0]
  show ?thesis by (simp add: o_def)
qed

text \<open>
  A catch-up reply is the slice of the chain that was asked for: blocks from the requested
  height on, at most as many as the limit.
\<close>

theorem blocks_from_height_slice:
  assumes "chain_inv K g bc"
  shows "blocks_from_height_limited bc start limit = take limit (drop (unat start) (bc_blocks bc))"
proof -
  have "\<forall>i < length (bc_blocks bc). unat (height (bc_blocks bc ! i)) = i"
    using assms by (simp add: chain_inv_def chain_wf_def)
  from filter_from_index [OF this, of "unat start"] show ?thesis
    by (simp add: blocks_from_height_limited_def word_le_nat_alt)
qed

end
