(* ===== verification/Wallet.thy ===== *)
theory Wallet
  imports Transaction
begin

text \<open>
  \<open>wallet.rs\<close>: one signing key per wallet, the address derived from its public key, and signed
  transfers.  A \<open>SigningKey\<close> is its 32-byte seed; the random generator is a parameter, the 32
  bytes that \<open>RngCore::fill_bytes\<close> writes.
\<close>

record wallet =
  signing_key :: bytes

definition generate_with_rng :: "bytes \<Rightarrow> wallet" where
  "generate_with_rng rng_bytes = \<lparr>signing_key = rng_bytes\<rparr>"

definition from_seed :: "bytes \<Rightarrow> wallet" where
  "from_seed seed = \<lparr>signing_key = seed\<rparr>"

definition seed_bytes :: "wallet \<Rightarrow> bytes" where
  "seed_bytes w = signing_key w"

definition verifying_key_bytes :: "crypto \<Rightarrow> wallet \<Rightarrow> bytes" where
  "verifying_key_bytes K w = sk_public K (signing_key w)"

definition wallet_address :: "crypto \<Rightarrow> wallet \<Rightarrow> address" where
  "wallet_address K w = Address (address_from_public_key K (verifying_key_bytes K w))"

definition sign_transfer ::
  "crypto \<Rightarrow> wallet \<Rightarrow> address \<Rightarrow> u64 \<Rightarrow> u64 \<Rightarrow> u64 \<Rightarrow> u64 \<Rightarrow> protocol_error + transaction" where
  "sign_transfer K w recv amt fe non ts =
    (if amt = 0 then Inl InvalidAmount
     else if \<not> address_is_valid recv then Inl InvalidAddress
     else
       let vk = verifying_key_bytes K w;
           sndr = Address (address_from_public_key K vk);
           tx = \<lparr>sender = sndr, receiver = recv, amount = amt, fee = fe, nonce = non,
                 tx_timestamp_unix = ts, public_key = vk, signature = [], tx_hash = []\<rparr>;
           payload = unsigned_payload_bytes tx
       in Inr (tx\<lparr>signature := sk_sign K (signing_key w) payload, tx_hash := hash_bytes K payload\<rparr>))"

lemma sign_transfer_fields:
  "sign_transfer K w recv amt fe non ts = Inr tx \<Longrightarrow>
     sender tx = wallet_address K w \<and> receiver tx = recv \<and> amount tx = amt \<and> fee tx = fe \<and>
     nonce tx = non \<and> tx_timestamp_unix tx = ts"
  by (auto simp: sign_transfer_def wallet_address_def Let_def split: if_splits)

lemma sign_transfer_valid:
  assumes "digest_format K" "signing_correct K" "length (signing_key w) = 32"
    and ok: "sign_transfer K w recv amt fe non ts = Inr tx"
  shows "tx_basic_validate K tx = Inr ()"
proof -
  let ?vk = "sk_public K (signing_key w)"
  have hash: "hex64 (hash_bytes K b)" for b using assms(1) by (rule hash_bytes_hex64)
  have sig: "length ?vk = 32" "vk_from_bytes K ?vk"
    "length (sk_sign K (signing_key w) m) = 64" "vk_verify K ?vk m (sk_sign K (signing_key w) m)" for m
    using assms(2,3) by (simp_all add: signing_correct_def)
  have nonempty: "?vk \<noteq> []" "sk_sign K (signing_key w) m \<noteq> []" for m
    using sig(1) sig(3) [of m] by auto
  from ok sig nonempty hash hex64_nonempty show ?thesis
    by (auto simp: sign_transfer_def tx_basic_validate_ok verifying_key_bytes_def Let_def
        address_from_public_key_def compute_tx_hash_def verify_signature_def hex64_trim
        hex64_address_valid unsigned_payload_bytes_def unsigned_payload_def split: if_splits)
qed

text \<open>
  A wallet signs what the ledger accepts: with a correct signature scheme, \<open>sign_transfer\<close>
  fails only on a zero amount or an invalid receiver, in this order, and otherwise builds a
  transaction with the requested fields, sent from the wallet's address, that passes
  \<open>basic_validate\<close>.
\<close>

theorem sign_transfer_validates:
  assumes "digest_format K" "signing_correct K" "length (signing_key w) = 32"
  shows "case sign_transfer K w recv amt fe non ts of
      Inl e \<Rightarrow> (if amt = 0 then e = InvalidAmount
                else e = InvalidAddress \<and> \<not> address_is_valid recv)
    | Inr tx \<Rightarrow> amt \<noteq> 0 \<and> address_is_valid recv \<and> tx_basic_validate K tx = Inr () \<and>
        sender tx = wallet_address K w \<and> receiver tx = recv \<and> amount tx = amt \<and> fee tx = fe \<and>
        nonce tx = non \<and> tx_timestamp_unix tx = ts"
proof (cases "sign_transfer K w recv amt fe non ts")
  case (Inl e)
  then show ?thesis by (auto simp: sign_transfer_def Let_def split: if_splits)
next
  case (Inr tx)
  then have "amt \<noteq> 0 \<and> address_is_valid recv"
    by (auto simp: sign_transfer_def Let_def split: if_splits)
  with Inr sign_transfer_fields [OF Inr] sign_transfer_valid [OF assms Inr]
  show ?thesis by simp
qed

end
