(* ===== verification/Examples.thy ===== *)
theory Examples
  imports Blockchain Wallet
begin

text \<open>
  A small concrete network: two wallets, a genesis document that funds the first of them, a few
  signed transfers, a pool and a chain, all built with the model's own operations over
  \<open>toy_crypto\<close>; and the properties of the core theories exhibited on this data.
\<close>

section \<open>Wallets and transfers\<close>

definition alice :: wallet where "alice = from_seed (replicate 32 1)"
definition bob :: wallet where "bob = from_seed (replicate 32 2)"

definition addr_a :: address where "addr_a = wallet_address toy_crypto alice"
definition addr_b :: address where "addr_b = wallet_address toy_crypto bob"

definition pay :: "wallet \<Rightarrow> address \<Rightarrow> u64 \<Rightarrow> u64 \<Rightarrow> u64 \<Rightarrow> transaction" where
  "pay w to amt fe non = projr (sign_transfer toy_crypto w to amt fe non 100)"

definition tx1 :: transaction where "tx1 = pay alice addr_b 5 1 0"
definition tx2 :: transaction where "tx2 = pay alice addr_b 7 1 1"

definition ex_genesis :: genesis where
  "ex_genesis = \<lparr>allocations = [\<lparr>alloc_address = str addr_a, alloc_balance = 100\<rparr>]\<rparr>"

lemma wallet_keys: "length (signing_key alice) = 32" "length (signing_key bob) = 32"
  by (simp_all add: alice_def bob_def from_seed_def)

lemma wallet_address_valid: "address_is_valid (wallet_address toy_crypto w)"
  by (simp add: wallet_address_def address_from_public_key_def hash_bytes_hex64 toy_digest_format
      hex64_address_valid)

lemma addrs_valid: "address_is_valid addr_a" "address_is_valid addr_b"
  by (simp_all add: addr_a_def addr_b_def wallet_address_valid)

lemma toy_hash_inject: "hash_bytes toy_crypto p = hash_bytes toy_crypto q \<longleftrightarrow> sha256 toy_crypto p = sha256 toy_crypto q"
  using toy_hex_injective by (auto simp: hash_bytes_def hex_injective_def)

lemma addr_neq: "addr_a \<noteq> addr_b"
proof -
  have "sha256 toy_crypto (replicate 32 1) \<noteq> sha256 toy_crypto (replicate 32 2)"
    by (simp add: toy_crypto_def)
  then have "hash_bytes toy_crypto (replicate 32 1) \<noteq> hash_bytes toy_crypto (replicate 32 2)"
    by (simp only: toy_hash_inject not_False_eq_True)
  then show ?thesis
    by (simp add: addr_a_def addr_b_def wallet_address_def verifying_key_bytes_def alice_def bob_def
        from_seed_def address_from_public_key_def toy_crypto_def)
qed

lemma pay_ok:
  assumes "length (signing_key w) = 32" "amt \<noteq> 0" "address_is_valid to"
  shows "tx_basic_validate toy_crypto (pay w to amt fe non) = Inr () \<and>
    sender (pay w to amt fe non) = wallet_address toy_crypto w \<and> receiver (pay w to amt fe non) = to \<and>
    amount (pay w to amt fe non) = amt \<and> fee (pay w to amt fe non) = fe \<and> nonce (pay w to amt fe non) = non"
proof -
  from assms(2,3) obtain tx where tx: "sign_transfer toy_crypto w to amt fe non 100 = Inr tx"
    by (auto simp: sign_transfer_def Let_def)
  then have "pay w to amt fe non = tx" by (simp add: pay_def)
  with sign_transfer_valid [OF toy_digest_format toy_signing_correct assms(1) tx] sign_transfer_fields [OF tx]
  show ?thesis by simp
qed

lemmas txs_ok =
  pay_ok [OF wallet_keys(1) _ addrs_valid(2), of 5 1 0, folded tx1_def addr_a_def, simplified]
  pay_ok [OF wallet_keys(1) _ addrs_valid(2), of 7 1 1, folded tx2_def addr_a_def, simplified]

lemma tx_fields [simp]:
  "sender tx1 = addr_a" "receiver tx1 = addr_b" "amount tx1 = 5" "fee tx1 = 1" "nonce tx1 = 0"
  "sender tx2 = addr_a" "receiver tx2 = addr_b" "amount tx2 = 7" "fee tx2 = 1" "nonce tx2 = 1"
  using txs_ok by simp_all

text \<open>The toy digest keeps the last 32 bytes, where the two transfers carry different nonces.\<close>

lemma toy_digest_nth:
  "n < 32 \<Longrightarrow> n < length p \<Longrightarrow> rev (sha256 toy_crypto p) ! n = rev p ! n"
  by (auto simp: toy_crypto_def rev_drop nth_append split: nat_diff_split)

lemma tx_hash_neq: "tx_hash tx1 \<noteq> tx_hash tx2"
proof
  assume eq: "tx_hash tx1 = tx_hash tx2"
  have "hash_bytes toy_crypto (unsigned_payload_bytes tx1) = hash_bytes toy_crypto (unsigned_payload_bytes tx2)"
    using eq txs_ok tx_valid_hash [of toy_crypto tx1] tx_valid_hash [of toy_crypto tx2]
    by (simp add: compute_tx_hash_def)
  then have "rev (sha256 toy_crypto (unsigned_payload_bytes tx1)) ! 4 = rev (sha256 toy_crypto (unsigned_payload_bytes tx2)) ! 4"
    by (simp only: toy_hash_inject)
  moreover have ts: "tx_timestamp_unix tx1 = 100" "tx_timestamp_unix tx2 = 100"
    using addrs_valid by (simp_all add: tx1_def tx2_def pay_def sign_transfer_def Let_def)
  have digits: "show_word (100 :: u64) = ''100''" "show_word (0 :: u64) = ''0''" "show_word (1 :: u64) = ''1''"
    by code_simp+
  ultimately show False
    using txs_ok ts
    by (simp add: toy_digest_nth unsigned_payload_bytes_def unsigned_payload_def digits as_bytes_def
        byte_of_char_def nth_append)
qed

section \<open>The ledger\<close>

definition ex_state :: state where "ex_state = projr (state_from_genesis ex_genesis)"

lemma ex_genesis_state: "state_from_genesis ex_genesis = Inr ex_state"
proof -
  have "genesis_valid ex_genesis"
    using addrs_valid by (simp add: genesis_valid_def alloc_pairs_def ex_genesis_def)
  then show ?thesis by (auto simp: ex_state_def state_from_genesis_def sorted_pairs_ok and_then_def split: sum.split)
      (metis sorted_pairs_ok Inl_Inr_False)
qed

lemma ex_state_accounts:
  "get_account ex_state addr_a = Some (account_new addr_a 100)" "get_account ex_state addr_b = None"
  using addr_neq by (auto simp: state_from_genesis_lookup [OF ex_genesis_state] alloc_pairs_def ex_genesis_def
      split: if_splits)

definition ex_state1 :: state where "ex_state1 = transfer_result ex_state tx1 (account_new addr_a 100)"
definition ex_state2 :: state where "ex_state2 = transfer_result ex_state1 tx2 (the (get_account ex_state1 addr_a))"

lemma ex_apply1: "apply_transaction toy_crypto ex_state tx1 = (ex_state1, Inr ())"
  using txs_ok(1) ex_state_accounts
  by (auto simp: apply_transaction_ok transfer_enabled_def ex_state1_def bal_def get_account_def addr_neq)

lemma ex_state1_accounts:
  "get_account ex_state1 addr_a = Some \<lparr>acc_address = addr_a, balance = 94, acc_nonce = 1\<rparr>"
  "get_account ex_state1 addr_b = Some (account_new addr_b 5)"
  using txs_ok(1) ex_state_accounts addr_neq
  by (auto simp: ex_state1_def transfer_result_def Let_def get_account_def account_new_def)

lemma ex_apply2: "apply_transaction toy_crypto ex_state1 tx2 = (ex_state2, Inr ())"
  using txs_ok(2) ex_state1_accounts
  by (auto simp: apply_transaction_ok transfer_enabled_def ex_state2_def bal_def get_account_def addr_neq)

lemma ex_run: "run_steps (apply_transaction toy_crypto) ex_state [tx1, tx2] = (ex_state2, Inr ())"
  by (simp add: ex_apply1 ex_apply2)

lemma ex_supply: "total_supply ex_state = 100"
  by (simp add: supply_from_genesis [OF ex_genesis_state] ex_genesis_def)

section \<open>The pool\<close>

definition ex_pool :: mempool where "ex_pool = restore_fifo (mempool_new 2) [tx1, tx2]"

lemma ex_pool_ok: "mempool_inv ex_pool \<and> clone_fifo ex_pool = [tx1, tx2] \<and> mp_capacity ex_pool = 2"
proof -
  have "distinct (map tx_hash [tx1, tx2])" using tx_hash_neq by simp
  moreover have "distinct (map (\<lambda>tx. (sender tx, nonce tx)) [tx1, tx2])" using txs_ok by simp
  ultimately show ?thesis
    using restore_fifo_inv [of "[tx1, tx2]" "mempool_new 2"] by (simp add: ex_pool_def mempool_new_def)
qed

lemmas ex_pool_inv = conjunct1 [OF ex_pool_ok]
lemmas ex_pool_fifo = conjunct1 [OF conjunct2 [OF ex_pool_ok]]
lemmas ex_pool_capacity = conjunct2 [OF conjunct2 [OF ex_pool_ok]]

lemma ex_pool_lookup:
  "fmlookup (mp_txs ex_pool) (tx_hash tx1) = Some tx1" "fmlookup (mp_txs ex_pool) (tx_hash tx2) = Some tx2"
  "mp_order ex_pool = [tx_hash tx1, tx_hash tx2]"
  using fifo_lookup [OF ex_pool_inv, of tx1] fifo_lookup [OF ex_pool_inv, of tx2] fifo_hashes [OF ex_pool_inv]
  by (simp_all add: ex_pool_fifo)

lemma ex_pool_steps: "(mempool_step toy_crypto)\<^sup>*\<^sup>* (mempool_new 2) ex_pool"
proof -
  have "mempool_step toy_crypto (mempool_new 2) (restore_fifo (mempool_new 2) (clone_fifo ex_pool))"
    by (rule mempool_step.rollback [OF ex_pool_inv]) (simp add: ex_pool_capacity mempool_new_def)
  then show ?thesis by (simp add: ex_pool_fifo ex_pool_def [symmetric])
qed

lemma ex_candidates: "ordered_candidates_for_seal toy_crypto ex_pool ex_state 5 = Inr [tx1, tx2]"
  using txs_ok
  by (simp add: ordered_candidates_for_seal_def ex_pool_lookup ex_state_accounts ex_state1_accounts ex_apply1 ex_apply2)

section \<open>The chain\<close>

definition ex_chain0 :: blockchain where
  "ex_chain0 = projr (from_genesis_with_consensus ex_genesis default_consensus_params)"

definition ex_block :: block where "ex_block = sealed_block toy_crypto genesis_block 100 [tx1, tx2]"

definition ex_chain :: blockchain where "ex_chain = fst (append_block toy_crypto ex_chain0 ex_block)"

lemma ex_chain0_eq:
  "from_genesis_with_consensus ex_genesis default_consensus_params = Inr ex_chain0"
  "ex_chain0 = \<lparr>bc_blocks = [genesis_block], bc_state = ex_state, bc_consensus = default_consensus_params\<rparr>"
  by (simp_all add: ex_chain0_def from_genesis_with_consensus_def blockchain_from_genesis_def ex_genesis_state)

lemma ex_chain0_inv: "chain_inv toy_crypto ex_genesis ex_chain0"
  using chain_inv_genesis [OF ex_chain0_eq(1)] by blast

lemma ex_block_valid: "valid_link toy_crypto 0 genesis_block ex_block"
proof -
  have "block_basic_validate toy_crypto (sealed_block toy_crypto (last [genesis_block]) 100 [tx1, tx2]) = Inr ()"
    by (rule sealed_block_valid [OF toy_digest_format chain_wf_genesis])
      (use txs_ok tx_hash_neq in \<open>auto simp: genesis_block_def\<close>)
  then show ?thesis by (simp add: valid_link_def ex_block_def genesis_block_def)
qed

lemma ex_append: "append_block toy_crypto ex_chain0 ex_block = (ex_chain, Inr ())"
proof -
  have "\<exists>bc. append_block toy_crypto ex_chain0 ex_block = (bc, Inr ())"
    using ex_block_valid ex_run
    by (simp add: append_block_ok ex_chain0_eq(2) default_consensus_params_def apply_block_txs_def)
      (simp add: ex_block_def)
  then show ?thesis by (auto simp: ex_chain_def)
qed

lemma ex_chain_eq:
  "ex_chain = \<lparr>bc_blocks = [genesis_block, ex_block], bc_state = ex_state2, bc_consensus = default_consensus_params\<rparr>"
  using ex_append ex_run by (auto simp: append_block_ok ex_chain0_eq(2) apply_block_txs_def ex_block_def)

lemma ex_chain_inv: "chain_inv toy_crypto ex_genesis ex_chain"
  by (rule append_block_inv [OF toy_digest_format ex_chain0_inv ex_append])

lemma ex_chain_steps: "(chain_step toy_crypto ex_genesis)\<^sup>*\<^sup>* ex_chain0 ex_chain"
  using chain_step.append [OF ex_append] by blast

section \<open>The properties on this data\<close>

theorem tx_id_commits_witness:
  "tx_basic_validate toy_crypto tx1 = Inr () \<and>
   collision_free toy_crypto {unsigned_payload_bytes tx1, unsigned_payload_bytes tx1} \<and> same_transfer tx1 tx1"
  using tx_id_commits_to_transfer [OF toy_digest_format toy_hex_injective, of tx1 tx1] txs_ok
  by (simp add: collision_free_def)

theorem sign_transfer_witness:
  "length (signing_key alice) = 32 \<and>
   (\<exists>tx. sign_transfer toy_crypto alice addr_b 5 1 0 100 = Inr tx \<and> tx_basic_validate toy_crypto tx = Inr () \<and>
      amount tx = 5 \<and> sender tx = addr_a)"
  using sign_transfer_validates [OF toy_digest_format toy_signing_correct wallet_keys(1),
      where recv = addr_b and amt = 5 and fe = 1 and non = 0 and ts = 100]
    addrs_valid wallet_keys
  by (auto simp: addr_a_def split: sum.splits)

definition ab_doc :: genesis where
  "ab_doc = \<lparr>allocations = [\<lparr>alloc_address = ''b'', alloc_balance = 2\<rparr>, \<lparr>alloc_address = ''a'', alloc_balance = 1\<rparr>]\<rparr>"

lemma docs_accepted:
  "sorted_pairs split_doc = Inr [(Address ''a'', 1), (Address ''b'', 2)]"
  "sorted_pairs ab_doc = Inr [(Address ''a'', 1), (Address ''b'', 2)]"
  by code_simp+

theorem commitment_order_witness:
  "mset (allocations split_doc) = mset (allocations ab_doc) \<and>
   sorted_pairs ab_doc = Inr [(Address ''a'', 1), (Address ''b'', 2)]"
  using commitment_order_independent [of split_doc ab_doc "[(Address ''a'', 1), (Address ''b'', 2)]"] docs_accepted(1)
  by (simp add: split_doc_def ab_doc_def)

theorem commitment_determines_witness:
  "state_commitment_hex toy_crypto split_doc = state_commitment_hex toy_crypto ab_doc \<and>
   set (alloc_pairs split_doc) = set (alloc_pairs ab_doc)"
proof -
  have "state_commitment_hex toy_crypto split_doc = state_commitment_hex toy_crypto ab_doc"
    by (simp add: state_commitment_hex_def state_commitment_raw32_def docs_accepted)
  with commitment_determines_allocations [OF toy_hex_injective docs_accepted] show ?thesis
    by (simp add: collision_free_def)
qed

theorem apply_effect_witness:
  "apply_transaction toy_crypto ex_state tx1 = (ex_state1, Inr ()) \<and>
   nonce_at ex_state1 addr_a = 1 \<and> bal ex_state addr_a = 100 \<and> bal ex_state1 addr_a = 94 \<and> bal ex_state1 addr_b = 5"
proof -
  note eff = apply_transaction_effect [OF ex_apply1]
  then have n: "nonce_at ex_state1 addr_a = 1" by simp
  have b: "bal ex_state1 a + (if a = addr_a then 6 else 0) = bal ex_state a + (if a = addr_b then 5 else 0)" for a
    using eff [unfolded tx_fields, THEN conjunct2, THEN conjunct2, THEN conjunct1, THEN spec, of a] by (simp cong: if_cong)
  have "bal ex_state addr_a = 100" "bal ex_state addr_b = 0"
    using ex_state_accounts by (simp_all add: bal_def get_account_def)
  with n b [of addr_a] b [of addr_b] ex_apply1 addr_neq show ?thesis by simp
qed

theorem supply_witness:
  "run_steps (apply_transaction toy_crypto) ex_state [tx1, tx2] = (ex_state2, Inr ()) \<and> total_supply ex_state2 = 98"
  using supply_conserved [OF ex_run] ex_run ex_supply txs_ok by simp

theorem nonces_witness:
  "run_steps (apply_transaction toy_crypto) ex_state [tx1, tx2] = (ex_state2, Inr ()) \<and> nonce_at ex_state2 addr_a = 2"
proof -
  have "nonce_at ex_state addr_a = 0" using ex_state_accounts by (simp add: nonce_at_def get_account_def)
  with nonces_gapless [OF ex_run, of addr_a] txs_ok have "[0, 1] = [0 ..< nonce_at ex_state2 addr_a]" by simp
  then have "length [0 ..< nonce_at ex_state2 addr_a] = length [0, Suc 0]" by simp
  with ex_run show ?thesis by simp
qed

theorem no_overflow_witness:
  "(\<exists>w. total_balance_sum ex_state = Inr w) \<and>
   snd (run_steps (apply_transaction toy_crypto) ex_state [tx2, tx1]) \<noteq> Inl (StateError ''receiver balance overflow'')"
proof -
  have "\<exists>w. total_balance_sum ex_state = Inr w" by (simp add: total_balance_sum_eq ex_supply)
  with no_balance_overflow [of ex_state _ toy_crypto "[tx2, tx1]"] show ?thesis by blast
qed

theorem mempool_invariant_witness:
  "(mempool_step toy_crypto)\<^sup>*\<^sup>* (mempool_new 2) ex_pool \<and> mempool_inv ex_pool \<and> mp_capacity ex_pool = 2"
  using mempool_invariant [OF ex_pool_steps] ex_pool_steps by blast

text \<open>A full pool that evicts its oldest entry.\<close>

definition small_pool :: mempool where "small_pool = restore_fifo (mempool_new 1) [tx1]"

lemma small_pool_ok: "mempool_inv small_pool \<and> clone_fifo small_pool = [tx1] \<and> mp_capacity small_pool = 1"
  using restore_fifo_inv [of "[tx1]" "mempool_new 1"] by (simp add: small_pool_def mempool_new_def)

lemma small_pool_checks: "submit_checks toy_crypto small_pool tx2 = Inr ()"
proof -
  have inv: "mempool_inv small_pool" using small_pool_ok by simp
  have none: "fmlookup (mp_txs small_pool) h = Some t \<longleftrightarrow> t = tx1 \<and> h = tx_hash tx1" for h t
    using fifo_lookup [OF inv, of t] agree_hash [OF inv_agree [OF inv], of h t] small_pool_ok by auto
  have "slot small_pool (sender tx2) (nonce tx2) \<noteq> Some h" for h
    using agree_slot [OF inv_agree [OF inv], of "sender tx2" "nonce tx2" h] none txs_ok by auto
  moreover have "fmlookup (mp_txs small_pool) (tx_hash tx2) = None"
    using none [of "tx_hash tx2"] tx_hash_neq by (metis option.exhaust)
  ultimately show ?thesis using txs_ok by (auto simp: submit_checks_ok)
qed

theorem try_submit_witness:
  "mempool_inv small_pool \<and> clone_fifo small_pool = [tx1] \<and>
   (\<exists>mp'. try_submit toy_crypto small_pool tx2 = Some (mp', Inr ()) \<and> clone_fifo mp' = [tx2])"
  using try_submit_fifo [of small_pool toy_crypto tx2] small_pool_ok small_pool_checks fifo_length [of small_pool]
  by auto

theorem seal_candidates_witness:
  "ordered_candidates_for_seal toy_crypto ex_pool ex_state 5 = Inr [tx1, tx2] \<and> subseq [tx1, tx2] (clone_fifo ex_pool)"
  using seal_candidates_apply [OF ex_candidates] ex_candidates by blast

theorem restore_clone_witness:
  "mempool_inv ex_pool \<and> mempool_step toy_crypto ex_pool (remove_by_tx_hashes ex_pool [tx_hash tx1]) \<and>
   restore_fifo (remove_by_tx_hashes ex_pool [tx_hash tx1]) (clone_fifo ex_pool) = ex_pool"
  using restore_clone_roundtrip [OF ex_pool_inv r_into_rtranclp [of "mempool_step toy_crypto", OF mempool_step.committed]]
    ex_pool_inv mempool_step.committed by blast

theorem hygiene_witness:
  "\<exists>mp'. hygiene_vs_committed_ledger toy_crypto ex_pool ex_state1 = (mp', (1, 0, 0)) \<and> clone_fifo mp' = [tx2]"
proof -
  have nv: "nonviable toy_crypto ex_state1 tx1" "\<not> nonviable toy_crypto ex_state1 tx2" "\<not> stale_vs ex_state1 tx2"
    using txs_ok ex_state1_accounts by (simp_all add: nonviable_def stale_vs_def)
  obtain mp' f s d where h: "hygiene_vs_committed_ledger toy_crypto ex_pool ex_state1 = (mp', (f, s, d))"
    by (metis prod.exhaust)
  from hygiene_spec [OF ex_pool_inv, of toy_crypto ex_state1] h nv have "f = 1" "s = 0"
    by (auto simp: ex_pool_fifo)
  with hygiene_effect [OF ex_pool_inv h] nv h show ?thesis by (simp add: ex_pool_fifo)
qed

theorem chain_invariant_witness:
  "from_genesis_with_consensus ex_genesis default_consensus_params = Inr ex_chain0 \<and>
   (chain_step toy_crypto ex_genesis)\<^sup>*\<^sup>* ex_chain0 ex_chain \<and> chain_inv toy_crypto ex_genesis ex_chain"
  using chain_invariant [OF toy_digest_format ex_chain0_eq(1) ex_chain_steps] ex_chain0_eq(1) ex_chain_steps by blast

text \<open>The digests of the genesis header, the block header and the two payloads differ.\<close>

lemma digest_diff:
  "n < 32 \<Longrightarrow> n < length p \<Longrightarrow> n < length q \<Longrightarrow> rev p ! n \<noteq> rev q ! n \<Longrightarrow> sha256 toy_crypto p \<noteq> sha256 toy_crypto q"
  using toy_digest_nth by metis

lemma ex_timestamps: "tx_timestamp_unix tx1 = 100" "tx_timestamp_unix tx2 = 100"
  using addrs_valid by (simp_all add: tx1_def tx2_def pay_def sign_transfer_def Let_def)

lemma ex_preimages_tail:
  "\<exists>r. unsigned_payload_bytes tx1 = r @ as_bytes ''|0|100''"
  "\<exists>r. unsigned_payload_bytes tx2 = r @ as_bytes ''|1|100''"
  "\<exists>r h. block_header_preimage_bytes ex_block = r @ as_bytes h \<and> hex64 h"
  "block_header_preimage_bytes genesis_block = as_bytes ''0|GENESIS|0|''"
proof -
  have digits: "show_word (100 :: u64) = ''100''" "show_word (0 :: u64) = ''0''" "show_word (1 :: u64) = ''1''"
    by code_simp+
  note defs = unsigned_payload_bytes_def unsigned_payload_def digits as_bytes_def ex_timestamps
  show "\<exists>r. unsigned_payload_bytes tx1 = r @ as_bytes ''|0|100''" by (simp add: defs)
  show "\<exists>r. unsigned_payload_bytes tx2 = r @ as_bytes ''|1|100''" by (simp add: defs)
  show "block_header_preimage_bytes genesis_block = as_bytes ''0|GENESIS|0|''"
    by (simp add: block_header_preimage_bytes_def block_header_preimage_def genesis_block_def digits)
  have "hex64 (tx_hash tx2)" using tx_valid_hex64 [OF toy_digest_format] txs_ok by blast
  moreover have "block_header_preimage ex_block = (show_word (height ex_block) @ ''|'' @ previous_hash ex_block @
      ''|'' @ show_word (timestamp_unix ex_block) @ ''|'' @ tx_hash tx1 @ ''|'') @ tx_hash tx2"
    by (simp add: block_header_preimage_def ex_block_def join_Cons)
  then have "\<exists>r. block_header_preimage_bytes ex_block = r @ as_bytes (tx_hash tx2)"
    unfolding block_header_preimage_bytes_def as_bytes_def by (metis map_append)
  ultimately show "\<exists>r h. block_header_preimage_bytes ex_block = r @ as_bytes h \<and> hex64 h" by blast
qed

lemma hex64_tail_nth:
  assumes "hex64 h" "n < 64"
  shows "rev (r @ as_bytes h) ! n \<noteq> byte_of_char CHR ''|''"
proof -
  have "rev (r @ as_bytes h) ! n = byte_of_char (rev h ! n)"
    using assms by (simp add: as_bytes_def nth_append hex64_def rev_map)
  moreover have "rev h ! n \<noteq> CHR ''|''"
    using hex64_no_bar [OF assms(1)] assms by (metis hex64_def length_rev nth_mem set_rev)
  ultimately show ?thesis by (metis char_byte_inverse)
qed

lemma ex_collision_free: "collision_free toy_crypto (chain_preimages (bc_blocks ex_chain))"
proof -
  let ?g = "block_header_preimage_bytes genesis_block" and ?b = "block_header_preimage_bytes ex_block"
    and ?p = "unsigned_payload_bytes tx1" and ?q = "unsigned_payload_bytes tx2"
  obtain rp rq rb h where tails: "?p = rp @ as_bytes ''|0|100''" "?q = rq @ as_bytes ''|1|100''"
    "?b = rb @ as_bytes h" "hex64 h" "?g = as_bytes ''0|GENESIS|0|''" using ex_preimages_tail by metis
  have bar: "rev (r @ as_bytes h) ! 3 \<noteq> byte_of_char CHR ''|''" "rev (r @ as_bytes h) ! 0 \<noteq> byte_of_char CHR ''|''" for r
    using hex64_tail_nth [OF tails(4)] by simp_all
  have len: "length h = 64" using tails(4) by (simp add: hex64_def)
  have "sha256 toy_crypto ?g \<noteq> sha256 toy_crypto ?b" "sha256 toy_crypto ?g \<noteq> sha256 toy_crypto ?p"
    "sha256 toy_crypto ?g \<noteq> sha256 toy_crypto ?q"
    by (rule digest_diff [of 0]; use bar(2) [of rb] in \<open>simp add: tails as_bytes_def byte_of_char_def len nth_append\<close>)+
  moreover have "sha256 toy_crypto ?b \<noteq> sha256 toy_crypto ?p" "sha256 toy_crypto ?b \<noteq> sha256 toy_crypto ?q"
    by (rule digest_diff [of 3]; use bar(1) [of rb] in \<open>simp add: tails as_bytes_def byte_of_char_def len nth_append\<close>)+
  moreover have "sha256 toy_crypto ?p \<noteq> sha256 toy_crypto ?q"
    by (rule digest_diff [of 4]; simp add: tails as_bytes_def byte_of_char_def nth_append)
  moreover have "chain_preimages (bc_blocks ex_chain) = {?g, ?b, ?p, ?q}"
    by (simp add: chain_preimages_def ex_chain_eq ex_block_def) (auto simp: genesis_block_def)
  ultimately show ?thesis by (auto simp: collision_free_def)
qed

theorem tip_hash_witness:
  "chain_inv toy_crypto ex_genesis ex_chain \<and>
   collision_free toy_crypto (chain_preimages (bc_blocks ex_chain) \<union> chain_preimages (bc_blocks ex_chain)) \<and>
   list_all2 same_header (bc_blocks ex_chain) (bc_blocks ex_chain)"
  using tip_hash_determines_state [OF toy_digest_format toy_hex_injective _ ex_chain_inv ex_chain_inv]
    ex_collision_free ex_chain_inv by simp

theorem append_rollback_witness:
  "append_block toy_crypto ex_chain0 ex_block = (ex_chain, Inr ()) \<and>
   rollback_last_block toy_crypto ex_chain ex_genesis = (ex_chain0, Inr ())"
  using append_then_rollback [OF toy_digest_format ex_chain0_inv ex_append] ex_append by blast

lemma ex_height: "bc_height ex_chain = 1" "bc_height ex_chain0 = 0"
  by (simp_all add: bc_height_def chain_height_def ex_chain_eq ex_chain0_eq(2) ex_block_def genesis_block_def)

theorem rollback_to_height_witness:
  "(0 :: u64) \<le> bc_height ex_chain \<and>
   (\<exists>bc'. rollback_to_height toy_crypto ex_chain 0 ex_genesis = (bc', Inr ()) \<and> bc_blocks bc' = [genesis_block])"
  using rollback_to_height_effect [OF ex_chain_inv, of 0] by (auto simp: ex_chain_eq)

theorem seal_effect_witness:
  "\<exists>bc' mp'. append_block_from_mempool toy_crypto ex_chain0 ex_pool 5 100 = ((bc', mp'), Inr 2) \<and>
     bc_blocks bc' = [genesis_block, ex_block] \<and> clone_fifo mp' = []"
proof -
  have c: "ordered_candidates_for_seal toy_crypto ex_pool (bc_state ex_chain0) 5 = Inr [tx1, tx2]"
    by (simp add: ex_candidates ex_chain0_eq(2))
  have "unat (timestamp_unix (last (bc_blocks ex_chain0))) + unat (min_block_interval_secs (bc_consensus ex_chain0)) \<le> unat (100 :: u64)"
    "unat (bc_height ex_chain0) + 1 < 2 ^ 64"
    by (simp_all add: ex_chain0_eq(2) genesis_block_def default_consensus_params_def bc_height_def chain_height_def)
  from seal_effect [OF toy_digest_format ex_chain0_inv ex_pool_inv c _ this] show ?thesis
    by (auto simp: ex_chain0_eq(2) ex_pool_fifo ex_block_def numeral_2_eq_2)
qed

theorem replay_witness:
  "chain_inv toy_crypto ex_genesis ex_chain \<and>
   from_genesis_with_consensus ex_genesis (bc_consensus ex_chain) = Inr ex_chain0 \<and>
   run_steps (append_block toy_crypto) ex_chain0 [ex_block] = (ex_chain, Inr ())"
proof -
  have g: "from_genesis_with_consensus ex_genesis (bc_consensus ex_chain) = Inr ex_chain0"
    using ex_chain0_eq(1) by (simp add: ex_chain_eq)
  have "tl (bc_blocks ex_chain) = [ex_block]" by (simp add: ex_chain_eq)
  with replay_reproduces_chain [OF ex_chain_inv g] g ex_chain_inv show ?thesis by simp
qed

theorem chain_money_witness:
  "chain_inv toy_crypto ex_genesis ex_chain \<and> total_supply (bc_state ex_chain) = 98"
  using chain_money [OF ex_chain_inv] ex_chain_inv
  by (simp add: ex_chain_eq ex_block_def ex_genesis_def)

theorem slice_witness:
  "chain_inv toy_crypto ex_genesis ex_chain \<and> blocks_from_height_limited ex_chain 1 8 = [ex_block]"
  using blocks_from_height_slice [OF ex_chain_inv, of 1 8] ex_chain_inv by (simp add: ex_chain_eq)

end
