(* ===== verification/Branch_Select.thy ===== *)
theory Branch_Select
  imports Tril_Prelude
begin

text \<open>
  \<open>v3/branch_select.rs\<close>: height-first selection among branch tips with the larger block hash as
  tie-break.  The derived \<open>Ord\<close> of \<open>BranchScore\<close> is an instance of the library's class of linear
  orders.
\<close>

record tip_descriptor =
  tip_height :: u64
  tip_block_hash :: string

datatype branch_score = Branch_Score (score_height: u64) (tie_break_lex: string)

instantiation branch_score :: linorder
begin

definition less_branch_score :: "branch_score \<Rightarrow> branch_score \<Rightarrow> bool" where
  "less_branch_score a b \<longleftrightarrow> score_height a < score_height b \<or>
     score_height a = score_height b \<and> tie_break_lex a < tie_break_lex b"

definition less_eq_branch_score :: "branch_score \<Rightarrow> branch_score \<Rightarrow> bool" where
  "less_eq_branch_score a b \<longleftrightarrow> score_height a < score_height b \<or>
     score_height a = score_height b \<and> tie_break_lex a \<le> tie_break_lex b"

instance
  by standard (auto simp: less_branch_score_def less_eq_branch_score_def branch_score.expand)

end

definition score_of :: "tip_descriptor \<Rightarrow> branch_score" where
  "score_of t = Branch_Score (tip_height t) (tip_block_hash t)"

datatype ordering = Ord_Less | Ord_Equal | Ord_Greater

definition cmp :: "'a::linorder \<Rightarrow> 'a \<Rightarrow> ordering" where
  "cmp a b = (if a < b then Ord_Less else if a = b then Ord_Equal else Ord_Greater)"

definition compare_tips_for_selection :: "tip_descriptor \<Rightarrow> tip_descriptor \<Rightarrow> ordering" where
  "compare_tips_for_selection a b = cmp (score_of a) (score_of b)"

text \<open>\<open>Iterator::max_by_key\<close>: of several maximal elements, the last.\<close>

fun max_by_key :: "('a \<Rightarrow> 'k::linorder) \<Rightarrow> 'a list \<Rightarrow> 'a option" where
  "max_by_key key [] = None"
| "max_by_key key (x # xs) =
    Some (foldl (\<lambda>best y. case cmp (key best) (key y) of Ord_Greater \<Rightarrow> best | _ \<Rightarrow> y) x xs)"

definition select_preferred_tip :: "tip_descriptor list \<Rightarrow> tip_descriptor option" where
  "select_preferred_tip tips = max_by_key score_of tips"

section \<open>Selection\<close>

lemma score_of_inject [simp]: "score_of a = score_of b \<longleftrightarrow> a = b"
  by (cases a; cases b) (auto simp: score_of_def)

lemma cmp_step: "(case cmp (key b) (key y) of Ord_Greater \<Rightarrow> b | _ \<Rightarrow> y) = (if key y < key b then b else y)"
  by (auto simp: cmp_def)

lemma max_by_key_fold:
  "foldl (\<lambda>best y. case cmp (key best) (key y) of Ord_Greater \<Rightarrow> best | _ \<Rightarrow> y) x xs \<in> set (x # xs) \<and>
   (\<forall>y \<in> set (x # xs). key y \<le> key (foldl (\<lambda>best y. case cmp (key best) (key y) of Ord_Greater \<Rightarrow> best | _ \<Rightarrow> y) x xs))"
proof (induction xs arbitrary: x)
  case (Cons z zs)
  let ?b = "if key z < key x then x else z"
  from Cons.IH [of ?b] show ?case unfolding foldl_Cons cmp_step by (auto split: if_splits)
qed simp

lemma max_by_key_Some:
  "max_by_key key xs = Some m \<Longrightarrow> m \<in> set xs \<and> (\<forall>y \<in> set xs. key y \<le> key m)"
proof (cases xs)
  case (Cons a as)
  assume "max_by_key key xs = Some m"
  with Cons max_by_key_fold [of key a as] show ?thesis by auto
qed simp

lemma max_by_key_None [simp]: "max_by_key key xs = None \<longleftrightarrow> xs = []"
  by (cases xs) simp_all

text \<open>
  Branch selection is a function of the set of candidates: it picks a candidate whenever there
  is one, no candidate is preferred to the one picked, and lists with the same candidates, in any
  order and with any repetitions, give the same tip.
\<close>

theorem select_preferred_tip_spec:
  "(select_preferred_tip tips = None \<longleftrightarrow> tips = []) \<and>
   (\<forall>t. select_preferred_tip tips = Some t \<longleftrightarrow>
      t \<in> set tips \<and> (\<forall>u \<in> set tips. compare_tips_for_selection u t \<noteq> Ord_Greater))"
proof -
  have cmp: "compare_tips_for_selection u t \<noteq> Ord_Greater \<longleftrightarrow> score_of u \<le> score_of t" for t u
    by (auto simp: compare_tips_for_selection_def cmp_def simp del: score_of_inject)
  have "select_preferred_tip tips = Some t" if "t \<in> set tips" "\<forall>u \<in> set tips. score_of u \<le> score_of t" for t
  proof -
    from that(1) obtain m where m: "select_preferred_tip tips = Some m"
      unfolding select_preferred_tip_def using max_by_key_None by fastforce
    then have "score_of m = score_of t"
      using max_by_key_Some that by (metis antisym select_preferred_tip_def)
    with m show ?thesis by simp
  qed
  moreover have "t \<in> set tips \<and> (\<forall>u \<in> set tips. score_of u \<le> score_of t)" if "select_preferred_tip tips = Some t" for t
    using that unfolding select_preferred_tip_def by (rule max_by_key_Some)
  moreover have "select_preferred_tip tips = None \<longleftrightarrow> tips = []" by (simp add: select_preferred_tip_def)
  ultimately show ?thesis unfolding cmp by blast
qed

end
