(* ===== verification/Block_Index.thy ===== *)
theory Block_Index
  imports Tril_Prelude
begin

text \<open>
  \<open>v3/block_index.rs\<close>: block header facts by hash, the hardened walk toward genesis, and the fork
  point between two tips.  The loops \<open>for _ in 0..limit\<close> are recursions on the number of rounds
  left.
\<close>

record block_index_entry =
  parent_hash :: string
  bie_height :: u64

record fork_slices =
  fork_hash :: string
  old_suffix :: "string list"
  new_suffix :: "string list"

datatype block_path_error =
    UnknownBlock string
  | MissingParentLink string
  | Cycle string
  | NoCommonAncestor
  | MalformedAncestry string string

record block_index =
  by_hash :: "(string, block_index_entry) fmap"

definition index_new :: block_index where
  "index_new = \<lparr>by_hash = fmempty\<rparr>"

definition index_insert :: "block_index \<Rightarrow> string \<Rightarrow> block_index_entry \<Rightarrow> block_index \<times> block_index_entry option" where
  "index_insert idx h e = (idx\<lparr>by_hash := fmupd h e (by_hash idx)\<rparr>, fmlookup (by_hash idx) h)"

definition index_get :: "block_index \<Rightarrow> string \<Rightarrow> block_index_entry option" where
  "index_get idx h = fmlookup (by_hash idx) h"

definition index_len :: "block_index \<Rightarrow> nat" where
  "index_len idx = fcard (fmdom (by_hash idx))"

definition index_is_empty :: "block_index \<Rightarrow> bool" where
  "index_is_empty idx = fm_is_empty (by_hash idx)"

text \<open>The soft walk has no bound and no cycle check: \<open>None\<close> is not returning.\<close>

partial_function (option) ancestors_from :: "block_index \<Rightarrow> string list \<Rightarrow> string \<Rightarrow> string list option" where
  "ancestors_from idx out cur =
    (case index_get idx cur of
       None \<Rightarrow> Some (out @ [cur])
     | Some e \<Rightarrow> if bie_height e = 0 then Some (out @ [cur])
                 else ancestors_from idx (out @ [cur]) (parent_hash e))"

definition ancestors_to_height_zero :: "block_index \<Rightarrow> string \<Rightarrow> string list option" where
  "ancestors_to_height_zero idx tip = ancestors_from idx [] tip"

definition validated_parent_hash :: "block_index \<Rightarrow> string \<Rightarrow> block_index_entry \<Rightarrow> block_path_error + string" where
  "validated_parent_hash idx b e =
    (let p = parent_hash e in
     if p = b then Inl (Cycle b)
     else if p = [] then Inl (MissingParentLink b)
     else and_then (ok_or (MissingParentLink b) (index_get idx p)) (\<lambda>pe.
          and_then (ok_or (MalformedAncestry b ''parent.height + 1 overflows u64'') (checked_add (bie_height pe) 1)) (\<lambda>expected.
          if expected \<noteq> bie_height e
          then Inl (MalformedAncestry b ''parent.height + 1 must equal child.height'')
          else Inr p)))"

fun path_walk ::
  "block_index \<Rightarrow> nat \<Rightarrow> string fset \<Rightarrow> string list \<Rightarrow> string \<Rightarrow> block_path_error + string list" where
  "path_walk idx 0 visited chain cur = Inl (Cycle cur)"
| "path_walk idx (Suc n) visited chain cur =
    (if cur |\<in>| visited then Inl (Cycle cur)
     else and_then (ok_or (UnknownBlock cur) (index_get idx cur)) (\<lambda>e.
       if bie_height e = 0 then Inr (chain @ [cur])
       else and_then (validated_parent_hash idx cur e) (\<lambda>p.
         path_walk idx n (finsert cur visited) (chain @ [cur]) p)))"

definition path_from_tip_toward_genesis :: "block_index \<Rightarrow> string \<Rightarrow> block_path_error + string list" where
  "path_from_tip_toward_genesis idx tip = path_walk idx (index_len idx + 2) {||} [] tip"

text \<open>The two loops of \<open>fork_slices_between_tips\<close>.\<close>

fun fork_new_walk ::
  "block_index \<Rightarrow> string fset \<Rightarrow> nat \<Rightarrow> string fset \<Rightarrow> string list \<Rightarrow> string \<Rightarrow> block_path_error + (string list \<times> string)" where
  "fork_new_walk idx old_set 0 visited sfx cur = Inl (Cycle cur)"
| "fork_new_walk idx old_set (Suc n) visited sfx cur =
    (if cur |\<in>| visited then Inl (Cycle cur)
     else if cur |\<in>| old_set then Inr (sfx, cur)
     else and_then (ok_or (UnknownBlock cur) (index_get idx cur)) (\<lambda>e.
       if bie_height e = 0 then Inl NoCommonAncestor
       else and_then (validated_parent_hash idx cur e) (\<lambda>p.
         fork_new_walk idx old_set n (finsert cur visited) (sfx @ [cur]) p)))"

fun fork_old_walk ::
  "block_index \<Rightarrow> string \<Rightarrow> nat \<Rightarrow> string fset \<Rightarrow> string list \<Rightarrow> string \<Rightarrow> block_path_error + string list" where
  "fork_old_walk idx fork 0 visited sfx cur = (if cur \<noteq> fork then Inl NoCommonAncestor else Inr sfx)"
| "fork_old_walk idx fork (Suc n) visited sfx cur =
    (if cur = fork then Inr sfx
     else if cur |\<in>| visited then Inl (Cycle cur)
     else and_then (ok_or (UnknownBlock cur) (index_get idx cur)) (\<lambda>e.
       if bie_height e = 0 then Inl NoCommonAncestor
       else and_then (validated_parent_hash idx cur e) (\<lambda>p.
         fork_old_walk idx fork n (finsert cur visited) (sfx @ [cur]) p)))"

definition fork_slices_between_tips :: "block_index \<Rightarrow> string \<Rightarrow> string \<Rightarrow> block_path_error + fork_slices" where
  "fork_slices_between_tips idx old_tip new_tip =
    and_then (path_from_tip_toward_genesis idx old_tip) (\<lambda>path_old.
    let limit = index_len idx + 2 in
    and_then (fork_new_walk idx (fset_of_list path_old) limit {||} [] new_tip) (\<lambda>(new_suffix, fork).
    and_then (fork_old_walk idx fork limit {||} [] old_tip) (\<lambda>old_suffix.
    Inr \<lparr>fork_hash = fork, old_suffix = old_suffix, new_suffix = new_suffix\<rparr>)))"

definition validate_block_ancestry :: "block_index \<Rightarrow> string \<Rightarrow> block_path_error + unit" where
  "validate_block_ancestry idx b =
    and_then (path_from_tip_toward_genesis idx b) (\<lambda>path.
    and_then (ok_or (UnknownBlock b) (if path = [] then None else Some (last path))) (\<lambda>genesis_hash.
    and_then (ok_or (UnknownBlock genesis_hash) (index_get idx genesis_hash)) (\<lambda>ge.
    if bie_height ge \<noteq> 0
    then Inl (MalformedAncestry genesis_hash ''path ended without reaching height-0 root'')
    else if parent_hash ge \<noteq> []
    then Inl (MalformedAncestry genesis_hash ''height-0 block must use empty parent_hash (genesis/root)'')
    else Inr ())))"

section \<open>Walking up a ranked parent relation\<close>

text \<open>\<open>seg up x xs y\<close>: following \<open>up\<close> from \<open>x\<close> passes exactly \<open>xs\<close> and arrives at \<open>y\<close>.\<close>

inductive seg :: "('a \<Rightarrow> 'a option) \<Rightarrow> 'a \<Rightarrow> 'a list \<Rightarrow> 'a \<Rightarrow> bool" for up where
  seg_here: "seg up x [] x"
| seg_up: "up x = Some z \<Longrightarrow> seg up z xs y \<Longrightarrow> seg up x (x # xs) y"

inductive_simps seg_Nil [simp]: "seg up x [] y"
inductive_simps seg_Cons: "seg up x (a # xs) y"

lemma seg_one: "up x = Some z \<Longrightarrow> seg up x [x] z"
  by (simp add: seg_Cons)

lemma seg_append: "seg up x xs y \<Longrightarrow> seg up y ys z \<Longrightarrow> seg up x (xs @ ys) z"
  by (induction rule: seg.induct) (auto intro: seg.intros)

lemma seg_split: "seg up x (xs @ y # ys) z \<Longrightarrow> seg up x xs y \<and> seg up y (y # ys) z"
  by (induction xs arbitrary: x) (auto simp: seg_Cons)

lemma seg_hd: "seg up x xs y \<Longrightarrow> hd (xs @ [y]) = x"
  by (induction rule: seg.induct) simp_all

lemma seg_split_end: "seg up x xs y \<Longrightarrow> xs @ [y] = us @ z # vs \<Longrightarrow> seg up x us z \<and> (\<exists>ws. z # vs = ws @ [y] \<and> seg up z ws y)"
proof (cases vs rule: rev_cases)
  case Nil
  assume "seg up x xs y" "xs @ [y] = us @ z # vs"
  with Nil show ?thesis by simp
next
  case (snoc vs' v)
  assume a: "seg up x xs y" "xs @ [y] = us @ z # vs"
  with snoc have "xs = us @ z # vs'" "v = y" by simp_all
  with a seg_split [of up x us z vs' y] snoc show ?thesis by auto
qed

text \<open>
  What the walks rely on: the parent relation is a partial function along which a rank decreases
  by one.
\<close>

locale ancestry =
  fixes up :: "'a \<Rightarrow> 'a option" and rank :: "'a \<Rightarrow> nat"
  assumes up_rank: "up x = Some y \<Longrightarrow> rank x = Suc (rank y)"
begin

lemma seg_rank: "seg up x xs y \<Longrightarrow> rank x = length xs + rank y"
  by (induction rule: seg.induct) (auto dest: up_rank)

lemma seg_rank_less: "seg up x xs y \<Longrightarrow> z \<in> set xs \<Longrightarrow> rank y < rank z \<and> rank z \<le> rank x"
proof (induction rule: seg.induct)
  case (seg_up x w xs y)
  have "rank x = Suc (rank w)" "rank w = length xs + rank y" using up_rank [OF seg_up(1)] seg_rank [OF seg_up(2)] .
  with seg_up show ?case by auto
qed simp

lemma seg_distinct: "seg up x xs y \<Longrightarrow> distinct (xs @ [y])"
proof (induction rule: seg.induct)
  case (seg_up x z xs y)
  have "rank z < rank x" "rank y \<le> rank z" using up_rank [OF seg_up(1)] seg_rank [OF seg_up(2)] by simp_all
  then have "x \<notin> set xs" "x \<noteq> y" using seg_rank_less [OF seg_up(2)] by fastforce+
  with seg_up show ?case by auto
qed simp

lemma seg_same_end: "seg up x xs y \<Longrightarrow> seg up x ys y \<Longrightarrow> xs = ys"
proof (induction arbitrary: ys rule: seg.induct)
  case (seg_here x)
  then show ?case using seg_rank by fastforce
next
  case (seg_up x z xs y)
  show ?case
  proof (cases ys)
    case Nil
    with seg_up have "x = y" by simp
    with up_rank [OF seg_up(1)] seg_rank [OF seg_up(2)] show ?thesis by simp
  next
    case (Cons a ys')
    with seg_up(4) have "a = x" "seg up z ys' y" using seg_up(1) by (auto simp: seg_Cons)
    with seg_up(3) Cons show ?thesis by simp
  qed
qed

lemma seg_root_unique: "seg up x xs r \<Longrightarrow> seg up x ys s \<Longrightarrow> up r = None \<Longrightarrow> up s = None \<Longrightarrow> xs = ys \<and> r = s"
proof (induction arbitrary: ys rule: seg.induct)
  case (seg_here x)
  then show ?case by (cases ys) (auto simp: seg_Cons)
next
  case (seg_up x z xs y)
  then show ?case by (cases ys) (auto simp: seg_Cons)
qed

end

section \<open>The walks find exactly the ancestors\<close>

text \<open>The validated parent link of a block above the root, and the height as rank.\<close>

definition index_up :: "block_index \<Rightarrow> string \<Rightarrow> string option" where
  "index_up idx b =
    (case index_get idx b of
       None \<Rightarrow> None
     | Some e \<Rightarrow> if bie_height e = 0 then None
                 else (case validated_parent_hash idx b e of Inl _ \<Rightarrow> None | Inr p \<Rightarrow> Some p))"

definition index_rank :: "block_index \<Rightarrow> string \<Rightarrow> nat" where
  "index_rank idx b = (case index_get idx b of None \<Rightarrow> 0 | Some e \<Rightarrow> unat (bie_height e))"

definition rooted :: "block_index \<Rightarrow> string \<Rightarrow> bool" where
  "rooted idx b \<longleftrightarrow> (\<exists>e. index_get idx b = Some e \<and> bie_height e = 0)"

lemma validated_parent_ok:
  "validated_parent_hash idx b e = Inr p \<longleftrightarrow> p = parent_hash e \<and> p \<noteq> b \<and> p \<noteq> [] \<and>
     (\<exists>pe. index_get idx p = Some pe \<and> checked_add (bie_height pe) 1 = Some (bie_height e))"
  by (auto simp: validated_parent_hash_def Let_def and_then_Inr_iff)

lemma index_up_iff:
  "index_up idx b = Some p \<longleftrightarrow> (\<exists>e. index_get idx b = Some e \<and> bie_height e \<noteq> 0 \<and> validated_parent_hash idx b e = Inr p)"
  by (auto simp: index_up_def split: option.split sum.split)

lemma index_up_known: "index_up idx b = Some p \<Longrightarrow> index_get idx b \<noteq> None \<and> index_get idx p \<noteq> None"
  by (auto simp: index_up_iff validated_parent_ok)

lemma rooted_up [simp]: "rooted idx b \<Longrightarrow> index_up idx b = None"
  by (auto simp: rooted_def index_up_def)

interpretation block_ancestry: ancestry "index_up idx" "index_rank idx" for idx
proof
  fix x y
  assume "index_up idx x = Some y"
  then show "index_rank idx x = Suc (index_rank idx y)"
    by (auto simp: index_up_iff validated_parent_ok index_rank_def dest: unat_checked_add)
qed

lemma seg_known: "seg (index_up idx) x xs y \<Longrightarrow> z \<in> set xs \<Longrightarrow> index_get idx z \<noteq> None"
  by (induction rule: seg.induct) (auto dest: index_up_known)

lemma seg_length:
  assumes "seg (index_up idx) x xs y"
  shows "length xs \<le> index_len idx"
proof -
  have "distinct xs" using block_ancestry.seg_distinct [OF assms] by simp
  moreover have "set xs \<subseteq> fset (fmdom (by_hash idx))"
    using seg_known [OF assms] by (auto simp: index_get_def fmlookup_dom_iff)
  ultimately show ?thesis
    by (metis distinct_card finite_fset card_mono index_len_def fcard.rep_eq)
qed

lemma path_walk_sound:
  "path_walk idx n visited chain cur = Inr path \<Longrightarrow>
     \<exists>xs r. path = chain @ xs @ [r] \<and> seg (index_up idx) cur xs r \<and> rooted idx r"
proof (induction idx n visited chain cur arbitrary: path rule: path_walk.induct)
  case (2 idx n visited chain cur)
  then obtain e where e: "index_get idx cur = Some e" "cur |\<notin>| visited"
    by (auto simp: and_then_Inr_iff split: if_splits)
  show ?case
  proof (cases "bie_height e = 0")
    case True
    with 2(2) e have "path = chain @ [] @ [cur]" "rooted idx cur" by (auto simp: rooted_def)
    then show ?thesis by (blast intro: seg_here)
  next
    case False
    with 2(2) e obtain p where p: "validated_parent_hash idx cur e = Inr p"
      "path_walk idx n (finsert cur visited) (chain @ [cur]) p = Inr path" by (auto simp: and_then_Inr_iff)
    from 2(1) [OF e(2) _ False p(1) p(2)] e(1) obtain xs r where
      "path = (chain @ [cur]) @ xs @ [r]" "seg (index_up idx) p xs r" "rooted idx r" by auto
    moreover have "index_up idx cur = Some p" using e(1) False p(1) by (simp add: index_up_iff)
    ultimately show ?thesis by (intro exI [of _ "cur # xs"] exI [of _ r]) (auto intro: seg_up)
  qed
qed simp

lemma path_walk_complete:
  "seg (index_up idx) cur xs r \<Longrightarrow> rooted idx r \<Longrightarrow> length xs < n \<Longrightarrow> fset visited \<inter> set (xs @ [r]) = {} \<Longrightarrow>
     path_walk idx n visited chain cur = Inr (chain @ xs @ [r])"
proof (induction arbitrary: n visited chain rule: seg.induct)
  case (seg_here x)
  then obtain m where "n = Suc m" by (cases n) auto
  with seg_here show ?case by (auto simp: rooted_def)
next
  case (seg_up x z xs y)
  then obtain m where n: "n = Suc m" by (cases n) auto
  from seg_up(1) obtain e where e: "index_get idx x = Some e" "bie_height e \<noteq> 0" "validated_parent_hash idx x e = Inr z"
    by (auto simp: index_up_iff)
  have "x \<notin> set (xs @ [y])" using block_ancestry.seg_distinct [OF seg.seg_up [OF seg_up(1,2)]] by simp
  then have "path_walk idx m (finsert x visited) (chain @ [x]) z = Inr ((chain @ [x]) @ xs @ [y])"
    using seg_up n by (intro seg_up.IH) auto
  with e n seg_up.prems(3) show ?case by auto
qed

text \<open>The bound on the number of rounds is never what ends a walk that has a root to reach.\<close>

lemma path_ok:
  "path_from_tip_toward_genesis idx tip = Inr path \<longleftrightarrow>
     (\<exists>xs r. path = xs @ [r] \<and> seg (index_up idx) tip xs r \<and> rooted idx r)"
proof
  assume "path_from_tip_toward_genesis idx tip = Inr path"
  then show "\<exists>xs r. path = xs @ [r] \<and> seg (index_up idx) tip xs r \<and> rooted idx r"
    unfolding path_from_tip_toward_genesis_def by (fastforce dest: path_walk_sound)
next
  assume "\<exists>xs r. path = xs @ [r] \<and> seg (index_up idx) tip xs r \<and> rooted idx r"
  then obtain xs r where p: "path = xs @ [r]" "seg (index_up idx) tip xs r" "rooted idx r" by blast
  with path_walk_complete [OF p(2,3), of "index_len idx + 2" "{||}" "[]"] seg_length [OF p(2)]
  show "path_from_tip_toward_genesis idx tip = Inr path"
    by (simp add: path_from_tip_toward_genesis_def)
qed

lemma path_length:
  "path_from_tip_toward_genesis idx tip = Inr path \<Longrightarrow> length path = Suc (index_rank idx tip) \<and> distinct path \<and> hd path = tip"
proof -
  assume "path_from_tip_toward_genesis idx tip = Inr path"
  then obtain xs r where p: "path = xs @ [r]" "seg (index_up idx) tip xs r" "rooted idx r" by (auto simp: path_ok)
  then have "index_rank idx r = 0" by (auto simp: rooted_def index_rank_def)
  with p show ?thesis
    using block_ancestry.seg_rank [OF p(2)] block_ancestry.seg_distinct [OF p(2)] seg_hd [OF p(2)] by simp
qed

lemma path_segment:
  assumes "path_from_tip_toward_genesis idx tip = Inr (us @ z # vs)"
  shows "seg (index_up idx) tip us z \<and> path_from_tip_toward_genesis idx z = Inr (z # vs)"
proof -
  from assms obtain xs r where p: "us @ z # vs = xs @ [r]" "seg (index_up idx) tip xs r" "rooted idx r"
    by (auto simp: path_ok)
  from seg_split_end [OF p(2), of us z vs] p(1) obtain ws where
    "seg (index_up idx) tip us z" "z # vs = ws @ [r]" "seg (index_up idx) z ws r" by auto
  with p(3) show ?thesis by (auto simp: path_ok)
qed

lemma path_prepend:
  assumes "seg (index_up idx) tip us z" "path_from_tip_toward_genesis idx z = Inr path"
  shows "path_from_tip_toward_genesis idx tip = Inr (us @ path)"
  using assms by (auto simp: path_ok dest: seg_append)

section \<open>Errors of the walk\<close>

text \<open>
  Since every validated link lowers the height by one, the only cycle the walk can report is a
  block that names itself as its parent.
\<close>

lemma path_walk_no_cycle:
  assumes "path_walk idx n visited chain cur = Inl (Cycle b)"
    and "index_rank idx cur < n" and "\<forall>v. v |\<in>| visited \<longrightarrow> index_rank idx cur < index_rank idx v"
  shows "\<exists>e. index_get idx b = Some e \<and> parent_hash e = b"
  using assms
proof (induction n arbitrary: visited chain cur)
  case (Suc n)
  have "cur |\<notin>| visited" using Suc.prems(3) by blast
  then obtain e where e: "index_get idx cur = Some e" "bie_height e \<noteq> 0"
    using Suc.prems(1) by (cases "index_get idx cur") (auto split: if_splits)
  show ?case
  proof (cases "validated_parent_hash idx cur e")
    case (Inl err)
    with Suc.prems(1) \<open>cur |\<notin>| visited\<close> e show ?thesis
      by (auto simp: validated_parent_hash_def Let_def and_then_Inl_iff ok_or_def split: if_splits option.splits)
  next
    case (Inr p)
    then have up: "index_up idx cur = Some p" using e by (simp add: index_up_iff)
    have r: "index_rank idx cur = Suc (index_rank idx p)" by (rule block_ancestry.up_rank [OF up])
    have "path_walk idx n (finsert cur visited) (chain @ [cur]) p = Inl (Cycle b)"
      using Suc.prems(1) \<open>cur |\<notin>| visited\<close> e Inr by simp
    moreover have "\<forall>v. v |\<in>| finsert cur visited \<longrightarrow> index_rank idx p < index_rank idx v"
      using Suc.prems(3) r by auto
    ultimately show ?thesis using Suc.IH Suc.prems(2) r by simp
  qed
qed simp

section \<open>The fork point\<close>

lemma fork_new_walk_sound:
  "fork_new_walk idx old n visited sfx cur = Inr (ns, f) \<Longrightarrow>
     \<exists>ys. ns = sfx @ ys \<and> seg (index_up idx) cur ys f \<and> f |\<in>| old \<and> set ys \<inter> fset old = {}"
proof (induction n arbitrary: visited sfx cur)
  case (Suc n)
  show ?case
  proof (cases "cur |\<in>| old")
    case True
    with Suc.prems show ?thesis by (auto split: if_splits intro: seg_here)
  next
    case False
    with Suc.prems obtain e p where e: "index_get idx cur = Some e" "bie_height e \<noteq> 0"
      "validated_parent_hash idx cur e = Inr p" "fork_new_walk idx old n (finsert cur visited) (sfx @ [cur]) p = Inr (ns, f)"
      by (auto simp: and_then_Inr_iff split: if_splits)
    from Suc.IH [OF e(4)] obtain ys where ys: "ns = (sfx @ [cur]) @ ys" "seg (index_up idx) p ys f" "f |\<in>| old"
      "set ys \<inter> fset old = {}" by blast
    moreover have "index_up idx cur = Some p" using e by (simp add: index_up_iff)
    ultimately show ?thesis using False by (intro exI [of _ "cur # ys"]) (auto intro: seg_up)
  qed
qed simp

lemma fork_new_walk_complete:
  "seg (index_up idx) cur ys f \<Longrightarrow> f |\<in>| old \<Longrightarrow> set ys \<inter> fset old = {} \<Longrightarrow> length ys < n \<Longrightarrow>
     fset visited \<inter> set (ys @ [f]) = {} \<Longrightarrow> fork_new_walk idx old n visited sfx cur = Inr (sfx @ ys, f)"
proof (induction arbitrary: n visited sfx rule: seg.induct)
  case (seg_here x)
  then show ?case by (cases n) auto
next
  case (seg_up x z xs y)
  then obtain m where n: "n = Suc m" by (cases n) auto
  from seg_up(1) obtain e where e: "index_get idx x = Some e" "bie_height e \<noteq> 0" "validated_parent_hash idx x e = Inr z"
    by (auto simp: index_up_iff)
  have "x \<notin> set (xs @ [y])" using block_ancestry.seg_distinct [OF seg.seg_up [OF seg_up(1,2)]] by simp
  then have "fork_new_walk idx old m (finsert x visited) (sfx @ [x]) z = Inr ((sfx @ [x]) @ xs, y)"
    using seg_up n by (intro seg_up.IH) auto
  with e n seg_up.prems show ?case by auto
qed

lemma fork_old_walk_sound:
  "fork_old_walk idx f n visited sfx cur = Inr os \<Longrightarrow> \<exists>ys. os = sfx @ ys \<and> seg (index_up idx) cur ys f"
proof (induction n arbitrary: visited sfx cur)
  case 0
  then show ?case by (auto split: if_splits)
next
  case (Suc n)
  show ?case
  proof (cases "cur = f")
    case True
    with Suc.prems show ?thesis by (auto intro: seg_here)
  next
    case False
    with Suc.prems obtain e p where e: "index_get idx cur = Some e" "bie_height e \<noteq> 0"
      "validated_parent_hash idx cur e = Inr p" "fork_old_walk idx f n (finsert cur visited) (sfx @ [cur]) p = Inr os"
      by (auto simp: and_then_Inr_iff split: if_splits)
    from Suc.IH [OF e(4)] obtain ys where "os = (sfx @ [cur]) @ ys" "seg (index_up idx) p ys f" by blast
    moreover have "index_up idx cur = Some p" using e by (simp add: index_up_iff)
    ultimately show ?thesis by (intro exI [of _ "cur # ys"]) (auto intro: seg_up)
  qed
qed

lemma fork_old_walk_complete:
  "seg (index_up idx) cur ys f \<Longrightarrow> length ys \<le> n \<Longrightarrow> fset visited \<inter> set ys = {} \<Longrightarrow>
     fork_old_walk idx f n visited sfx cur = Inr (sfx @ ys)"
proof (induction arbitrary: n visited sfx rule: seg.induct)
  case (seg_here x)
  then show ?case by (cases n) auto
next
  case (seg_up x z xs y)
  then obtain m where n: "n = Suc m" by (cases n) auto
  from seg_up(1) obtain e where e: "index_get idx x = Some e" "bie_height e \<noteq> 0" "validated_parent_hash idx x e = Inr z"
    by (auto simp: index_up_iff)
  have x: "x \<notin> set (xs @ [y])" using block_ancestry.seg_distinct [OF seg.seg_up [OF seg_up(1,2)]] by simp
  then have "fork_old_walk idx y m (finsert x visited) (sfx @ [x]) z = Inr ((sfx @ [x]) @ xs)"
    using seg_up n by (intro seg_up.IH) auto
  with e n seg_up.prems x show ?case by auto
qed

lemma fork_slices_ok:
  "fork_slices_between_tips idx old_tip new_tip = Inr s \<longleftrightarrow>
     (\<exists>tail. path_from_tip_toward_genesis idx old_tip = Inr (old_suffix s @ fork_hash s # tail) \<and>
        path_from_tip_toward_genesis idx new_tip = Inr (new_suffix s @ fork_hash s # tail) \<and>
        set (new_suffix s) \<inter> set (old_suffix s) = {})" (is "?lhs \<longleftrightarrow> ?rhs")
proof
  assume ?lhs
  then obtain path where po: "path_from_tip_toward_genesis idx old_tip = Inr path"
    and n: "fork_new_walk idx (fset_of_list path) (index_len idx + 2) {||} [] new_tip = Inr (new_suffix s, fork_hash s)"
    and o: "fork_old_walk idx (fork_hash s) (index_len idx + 2) {||} [] old_tip = Inr (old_suffix s)"
    by (auto simp: fork_slices_between_tips_def and_then_Inr_iff Let_def simp del: fork_new_walk.simps fork_old_walk.simps)
  from fork_new_walk_sound [OF n] have sn: "seg (index_up idx) new_tip (new_suffix s) (fork_hash s)"
    "fork_hash s \<in> set path" "set (new_suffix s) \<inter> set path = {}" by (auto simp: fset_of_list_elem fset_of_list.rep_eq)
  from fork_old_walk_sound [OF o] have so: "seg (index_up idx) old_tip (old_suffix s) (fork_hash s)" by simp
  from sn(2) obtain us vs where path: "path = us @ fork_hash s # vs" by (meson split_list)
  note seg = path_segment [OF po [unfolded path]]
  then have "us = old_suffix s" using block_ancestry.seg_same_end so by blast
  with seg path po sn path_prepend [OF sn(1)] show ?rhs by auto
next
  assume ?rhs
  then obtain tail where po: "path_from_tip_toward_genesis idx old_tip = Inr (old_suffix s @ fork_hash s # tail)"
    and pn: "path_from_tip_toward_genesis idx new_tip = Inr (new_suffix s @ fork_hash s # tail)"
    and d: "set (new_suffix s) \<inter> set (old_suffix s) = {}" by blast
  have so: "seg (index_up idx) old_tip (old_suffix s) (fork_hash s)" using path_segment [OF po] by blast
  have sn: "seg (index_up idx) new_tip (new_suffix s) (fork_hash s)" using path_segment [OF pn] by blast
  have "distinct (new_suffix s @ fork_hash s # tail)" using path_length [OF pn] by blast
  then have disj: "set (new_suffix s) \<inter> set (old_suffix s @ fork_hash s # tail) = {}" using d by auto
  have "fork_new_walk idx (fset_of_list (old_suffix s @ fork_hash s # tail)) (index_len idx + 2) {||} [] new_tip =
      Inr ([] @ new_suffix s, fork_hash s)"
    using disj seg_length [OF sn] by (intro fork_new_walk_complete [OF sn]) (auto simp: fset_of_list.rep_eq)
  moreover have "fork_old_walk idx (fork_hash s) (index_len idx + 2) {||} [] old_tip = Inr ([] @ old_suffix s)"
    using seg_length [OF so] by (intro fork_old_walk_complete [OF so]) auto
  ultimately show ?lhs using po
    by (simp add: fork_slices_between_tips_def Let_def del: fork_new_walk.simps fork_old_walk.simps)
qed

text \<open>The same for the refusal: it is given exactly if both paths exist and are disjoint.\<close>

lemma validated_parent_error: "validated_parent_hash idx b e \<noteq> Inl NoCommonAncestor"
  by (auto simp: validated_parent_hash_def Let_def and_then_def ok_or_def split: option.splits)

lemma path_walk_error: "path_walk idx n visited chain cur \<noteq> Inl NoCommonAncestor"
  using validated_parent_error
  by (induction idx n visited chain cur rule: path_walk.induct) (auto simp: and_then_def ok_or_def split: option.splits sum.splits)

lemma fork_new_walk_apart:
  "fork_new_walk idx old n visited sfx cur = Inl NoCommonAncestor \<Longrightarrow>
     \<exists>ys r. seg (index_up idx) cur ys r \<and> rooted idx r \<and> set (ys @ [r]) \<inter> fset old = {}"
proof (induction n arbitrary: visited sfx cur)
  case (Suc n)
  then obtain e where e: "index_get idx cur = Some e" "cur |\<notin>| old"
    by (auto simp: and_then_def ok_or_def split: if_splits option.splits)
  show ?case
  proof (cases "bie_height e = 0")
    case True
    with e show ?thesis by (intro exI [of _ "[]"] exI [of _ cur]) (auto simp: rooted_def intro: seg_here)
  next
    case False
    with Suc.prems e obtain p where p: "validated_parent_hash idx cur e = Inr p"
      "fork_new_walk idx old n (finsert cur visited) (sfx @ [cur]) p = Inl NoCommonAncestor"
      using validated_parent_error [of idx cur e] by (auto simp: and_then_def ok_or_def split: if_splits sum.splits)
    from Suc.IH [OF p(2)] obtain ys r where ys: "seg (index_up idx) p ys r" "rooted idx r" "set (ys @ [r]) \<inter> fset old = {}" by blast
    moreover have "index_up idx cur = Some p" using e(1) False p(1) by (simp add: index_up_iff)
    ultimately show ?thesis using e(2) by (intro exI [of _ "cur # ys"] exI [of _ r]) (auto intro: seg_up)
  qed
qed simp

lemma fork_new_walk_refuses:
  "seg (index_up idx) cur ys r \<Longrightarrow> rooted idx r \<Longrightarrow> set (ys @ [r]) \<inter> fset old = {} \<Longrightarrow> length ys < n \<Longrightarrow>
     fset visited \<inter> set (ys @ [r]) = {} \<Longrightarrow> fork_new_walk idx old n visited sfx cur = Inl NoCommonAncestor"
proof (induction arbitrary: n visited sfx rule: seg.induct)
  case (seg_here x)
  then show ?case by (cases n) (auto simp: rooted_def)
next
  case (seg_up x z xs y)
  then obtain m where n: "n = Suc m" by (cases n) auto
  from seg_up(1) obtain e where e: "index_get idx x = Some e" "bie_height e \<noteq> 0" "validated_parent_hash idx x e = Inr z"
    by (auto simp: index_up_iff)
  have "x \<notin> set (xs @ [y])" using block_ancestry.seg_distinct [OF seg.seg_up [OF seg_up(1,2)]] by simp
  then have "fork_new_walk idx old m (finsert x visited) (sfx @ [x]) z = Inl NoCommonAncestor"
    using seg_up n by (intro seg_up.IH) auto
  with e n seg_up.prems show ?case by auto
qed

lemma fork_slices_apart:
  "fork_slices_between_tips idx old_tip new_tip = Inl NoCommonAncestor \<longleftrightarrow>
     (\<exists>po pn. path_from_tip_toward_genesis idx old_tip = Inr po \<and>
        path_from_tip_toward_genesis idx new_tip = Inr pn \<and> set po \<inter> set pn = {})" (is "?lhs \<longleftrightarrow> ?rhs")
proof
  let ?n = "index_len idx + 2"
  assume l: ?lhs
  then obtain po where po: "path_from_tip_toward_genesis idx old_tip = Inr po"
    using path_walk_error [of idx ?n "{||}" "[]" old_tip]
    by (cases "path_from_tip_toward_genesis idx old_tip") (auto simp: fork_slices_between_tips_def path_from_tip_toward_genesis_def)
  have "fork_new_walk idx (fset_of_list po) ?n {||} [] new_tip = Inl NoCommonAncestor"
  proof (cases "fork_new_walk idx (fset_of_list po) ?n {||} [] new_tip")
    case (Inr nf)
    obtain ns f where nf: "nf = (ns, f)" by fastforce
    from fork_new_walk_sound [OF Inr [unfolded nf]] have "f \<in> set po" by (auto simp: fset_of_list_elem)
    then obtain us vs where "po = us @ f # vs" by (meson split_list)
    with po have so: "seg (index_up idx) old_tip us f" using path_segment by blast
    have "fork_old_walk idx f ?n {||} [] old_tip = Inr ([] @ us)"
      using seg_length [OF so] by (intro fork_old_walk_complete [OF so]) auto
    with l po Inr nf show ?thesis by (simp add: fork_slices_between_tips_def Let_def del: fork_new_walk.simps fork_old_walk.simps)
  qed (use l po in \<open>simp add: fork_slices_between_tips_def Let_def del: fork_new_walk.simps\<close>)
  from fork_new_walk_apart [OF this] obtain ys r where ys: "seg (index_up idx) new_tip ys r" "rooted idx r"
    "set (ys @ [r]) \<inter> set po = {}" by (auto simp: fset_of_list.rep_eq)
  then have "path_from_tip_toward_genesis idx new_tip = Inr (ys @ [r])" by (simp add: path_ok)
  with po ys(3) show ?rhs by blast
next
  assume ?rhs
  then obtain po pn where pp: "path_from_tip_toward_genesis idx old_tip = Inr po" "path_from_tip_toward_genesis idx new_tip = Inr pn"
    "set po \<inter> set pn = {}" by blast
  with path_ok [of idx new_tip pn] obtain ys r where p: "path_from_tip_toward_genesis idx old_tip = Inr po"
    "seg (index_up idx) new_tip ys r" "rooted idx r" "set (ys @ [r]) \<inter> set po = {}" by blast
  have "fork_new_walk idx (fset_of_list po) (index_len idx + 2) {||} [] new_tip = Inl NoCommonAncestor"
    using p(4) seg_length [OF p(2)] by (intro fork_new_walk_refuses [OF p(2,3)]) (auto simp: fset_of_list.rep_eq)
  with p(1) show ?lhs by (simp add: fork_slices_between_tips_def Let_def del: fork_new_walk.simps)
qed

text \<open>
  C35. The fork between two tips is computed exactly.  Branch suffixes and a fork hash are returned
  precisely if both tips have a validated path to a root and the two paths meet: the paths are then
  the suffixes followed by one common tail that starts at the fork, with no block in both suffixes, so
  the fork is the deepest common ancestor.  \<open>NoCommonAncestor\<close> is returned precisely if both tips have a
  validated path and no block lies on both.  The round limit of the loops never gets in the way.
\<close>

theorem fork_slices_spec:
  "(fork_slices_between_tips idx old_tip new_tip = Inr s \<longleftrightarrow>
     (\<exists>tail. path_from_tip_toward_genesis idx old_tip = Inr (old_suffix s @ fork_hash s # tail) \<and>
        path_from_tip_toward_genesis idx new_tip = Inr (new_suffix s @ fork_hash s # tail) \<and>
        set (new_suffix s) \<inter> set (old_suffix s) = {})) \<and>
   (fork_slices_between_tips idx old_tip new_tip = Inl NoCommonAncestor \<longleftrightarrow>
     (\<exists>path_old path_new. path_from_tip_toward_genesis idx old_tip = Inr path_old \<and>
        path_from_tip_toward_genesis idx new_tip = Inr path_new \<and> set path_old \<inter> set path_new = {}))"
  by (intro conjI fork_slices_ok fork_slices_apart)

lemma ancestry_ok:
  "validate_block_ancestry idx b = Inr () \<longleftrightarrow>
     (\<exists>path e. path_from_tip_toward_genesis idx b = Inr path \<and> index_get idx (last path) = Some e \<and>
        bie_height e = 0 \<and> parent_hash e = [])"
proof -
  have "path \<noteq> []" if "path_from_tip_toward_genesis idx b = Inr path" for path using path_length [OF that] by auto
  then show ?thesis
    by (cases "path_from_tip_toward_genesis idx b") (auto simp: validate_block_ancestry_def and_then_Inr_iff split: if_splits)
qed

text \<open>Ancestry is decided at the root, so it is shared along a branch.\<close>

lemma path_from_above:
  assumes "seg (index_up idx) x xs y" "path_from_tip_toward_genesis idx x = Inr path"
  shows "\<exists>zs. path = xs @ zs \<and> path_from_tip_toward_genesis idx y = Inr zs"
  using assms
proof (induction arbitrary: path rule: seg.induct)
  case (seg_up x z xs y)
  from seg_up.prems obtain us r where u: "path = us @ [r]" "seg (index_up idx) x us r" "rooted idx r" by (auto simp: path_ok)
  obtain us' where us: "us = x # us'" "seg (index_up idx) z us' r"
    using u(2,3) seg_up(1) by (cases us) (auto simp: seg_Cons)
  then have "path_from_tip_toward_genesis idx z = Inr (us' @ [r])" using u(3) by (auto simp: path_ok)
  from seg_up.IH [OF this] u(1) us(1) show ?case by auto
qed simp

lemma ancestry_above:
  assumes "seg (index_up idx) x xs y"
  shows "validate_block_ancestry idx x = Inr () \<longleftrightarrow> validate_block_ancestry idx y = Inr ()"
proof -
  have "last (xs @ zs) = last zs" if "path_from_tip_toward_genesis idx y = Inr zs" for zs
    using path_length [OF that] by (cases zs) simp_all
  then show ?thesis
    unfolding ancestry_ok using path_from_above [OF assms] path_prepend [OF assms] by metis
qed

text \<open>On an index with validated ancestry the soft walk returns, and agrees with the hardened one.\<close>

lemma soft_walk:
  "seg (index_up idx) cur xs r \<Longrightarrow> rooted idx r \<Longrightarrow> ancestors_from idx out cur = Some (out @ xs @ [r])"
proof (induction arbitrary: out rule: seg.induct)
  case (seg_here x)
  then show ?case by (subst ancestors_from.simps) (auto simp: rooted_def)
next
  case (seg_up x z xs y)
  from seg_up(1) obtain e where "index_get idx x = Some e" "bie_height e \<noteq> 0" "z = parent_hash e"
    by (auto simp: index_up_iff validated_parent_ok)
  with seg_up show ?case by (subst ancestors_from.simps) simp
qed

lemma soft_walk_agrees:
  "path_from_tip_toward_genesis idx tip = Inr path \<Longrightarrow> ancestors_to_height_zero idx tip = Some path"
  using soft_walk [of idx tip _ _ "[]"] by (auto simp: path_ok ancestors_to_height_zero_def)

end
