(* ===== verification/Reorg_Plan.thy ===== *)
theory Reorg_Plan
  imports Block_Index
begin

text \<open>
  \<open>v3/reorg_plan.rs\<close> and \<open>v3/reorg_preflight.rs\<close>: the explicit rollback and apply order of a
  planned reorganisation, its structural validation against the block index, and the preflight
  report that adds the local depth policy.
\<close>

datatype reorg_plan_validation_error =
    BlockPath block_path_error
  | BrokenRollbackChain string string
  | BrokenApplyChain string string
  | DuplicateBlock string string
  | DuplicateAcrossSegments string
  | ForkInsideSegments string

record reorg_plan =
  plan_fork_hash :: string
  rollback_ordered :: "string list"
  apply_ordered :: "string list"

definition from_fork_slices :: "fork_slices \<Rightarrow> reorg_plan" where
  "from_fork_slices s =
    \<lparr>plan_fork_hash = fork_hash s, rollback_ordered = old_suffix s, apply_ordered = rev (new_suffix s)\<rparr>"

definition try_from_tips :: "block_index \<Rightarrow> string \<Rightarrow> string \<Rightarrow> block_path_error + reorg_plan" where
  "try_from_tips idx old_tip new_tip =
    and_then (fork_slices_between_tips idx old_tip new_tip) (\<lambda>s. Inr (from_fork_slices s))"

definition is_noop :: "reorg_plan \<Rightarrow> bool" where
  "is_noop p \<longleftrightarrow> rollback_ordered p = [] \<and> apply_ordered p = []"

fun ensure_unique_from :: "string fset \<Rightarrow> string list \<Rightarrow> string \<Rightarrow> reorg_plan_validation_error + unit" where
  "ensure_unique_from seen [] side = Inr ()"
| "ensure_unique_from seen (h # hs) side =
    (if h |\<in>| seen then Inl (DuplicateBlock h side) else ensure_unique_from (finsert h seen) hs side)"

definition ensure_unique_hashes :: "string list \<Rightarrow> string \<Rightarrow> reorg_plan_validation_error + unit" where
  "ensure_unique_hashes hs side = ensure_unique_from {||} hs side"

definition ensure_no_duplicate_across_segments :: "string list \<Rightarrow> string list \<Rightarrow> reorg_plan_validation_error + unit" where
  "ensure_no_duplicate_across_segments rb ap =
    check_all (\<lambda>h. if h \<in> set ap then Inl (DuplicateAcrossSegments h) else Inr ()) rb"

definition fork_not_in :: "string \<Rightarrow> string list \<Rightarrow> reorg_plan_validation_error + unit" where
  "fork_not_in fork hs = check_all (\<lambda>h. if h = fork then Inl (ForkInsideSegments h) else Inr ()) hs"

text \<open>The loop over \<open>rollback_ordered\<close>; the wanted parent is the next entry, or the fork.\<close>

fun check_rollback :: "block_index \<Rightarrow> string \<Rightarrow> string list \<Rightarrow> reorg_plan_validation_error + unit" where
  "check_rollback idx fork [] = Inr ()"
| "check_rollback idx fork (h # hs) =
    and_then (map_err BlockPath (validate_block_ancestry idx h)) (\<lambda>_.
    and_then (ok_or (BlockPath (UnknownBlock h)) (index_get idx h)) (\<lambda>e.
    if parent_hash e \<noteq> (case hs of [] \<Rightarrow> fork | next # _ \<Rightarrow> next)
    then Inl (BrokenRollbackChain h ''parent must equal next rollback entry or fork_hash'')
    else check_rollback idx fork hs))"

text \<open>The loop over \<open>apply_ordered\<close>; the wanted parent is the previous entry, at first the fork.\<close>

fun check_apply :: "block_index \<Rightarrow> string \<Rightarrow> string list \<Rightarrow> reorg_plan_validation_error + unit" where
  "check_apply idx prev [] = Inr ()"
| "check_apply idx prev (h # hs) =
    and_then (map_err BlockPath (validate_block_ancestry idx h)) (\<lambda>_.
    and_then (ok_or (BlockPath (UnknownBlock h)) (index_get idx h)) (\<lambda>e.
    if parent_hash e \<noteq> prev
    then Inl (BrokenApplyChain h ''parent must equal fork_hash or previous apply entry'')
    else check_apply idx h hs))"

definition validate_against_index :: "reorg_plan \<Rightarrow> block_index \<Rightarrow> reorg_plan_validation_error + unit" where
  "validate_against_index p idx =
    and_then (map_err BlockPath (validate_block_ancestry idx (plan_fork_hash p))) (\<lambda>_.
    and_then (ensure_unique_hashes (rollback_ordered p) ''rollback'') (\<lambda>_.
    and_then (ensure_unique_hashes (apply_ordered p) ''apply'') (\<lambda>_.
    and_then (ensure_no_duplicate_across_segments (rollback_ordered p) (apply_ordered p)) (\<lambda>_.
    and_then (fork_not_in (plan_fork_hash p) (rollback_ordered p)) (\<lambda>_.
    and_then (fork_not_in (plan_fork_hash p) (apply_ordered p)) (\<lambda>_.
    and_then (check_rollback idx (plan_fork_hash p) (rollback_ordered p)) (\<lambda>_.
    check_apply idx (plan_fork_hash p) (apply_ordered p))))))))"

section \<open>Preflight\<close>

record reorg_preflight_policy =
  max_reorg_depth :: nat

datatype reorg_preflight_policy_error = MaxReorgDepthExceeded nat nat
datatype reorg_preflight_verdict = Verdict_NoOp | Verdict_Acceptable | Verdict_Rejected
datatype reorg_preflight_policy_phase = NotEvaluated | Policy_Ok | Policy_Failed reorg_preflight_policy_error

record reorg_preflight_report =
  rollback_depth :: nat
  apply_depth :: nat
  pf_structural :: "reorg_plan_validation_error + unit"
  pf_policy :: reorg_preflight_policy_phase
  pf_verdict :: reorg_preflight_verdict

definition check_policy :: "nat \<Rightarrow> reorg_preflight_policy \<Rightarrow> reorg_preflight_policy_error + unit" where
  "check_policy depth policy =
    (if depth > max_reorg_depth policy then Inl (MaxReorgDepthExceeded depth (max_reorg_depth policy)) else Inr ())"

definition preflight_evaluate ::
  "reorg_plan \<Rightarrow> block_index \<Rightarrow> reorg_preflight_policy \<Rightarrow> reorg_preflight_report" where
  "preflight_evaluate p idx policy =
    (let rd = length (rollback_ordered p);
         ad = length (apply_ordered p);
         structural = validate_against_index p idx;
         (phase, verdict) =
           (case structural of
              Inl _ \<Rightarrow> (NotEvaluated, Verdict_Rejected)
            | Inr _ \<Rightarrow>
                if is_noop p then (Policy_Ok, Verdict_NoOp)
                else (case check_policy rd policy of
                        Inr _ \<Rightarrow> (Policy_Ok, Verdict_Acceptable)
                      | Inl e \<Rightarrow> (Policy_Failed e, Verdict_Rejected)))
     in \<lparr>rollback_depth = rd, apply_depth = ad, pf_structural = structural, pf_policy = phase, pf_verdict = verdict\<rparr>)"

section \<open>Validation accepts exactly what planning produces\<close>

lemma ensure_unique_ok:
  "ensure_unique_from seen hs side = Inr () \<longleftrightarrow> distinct hs \<and> set hs \<inter> fset seen = {}"
  by (induction seen hs side rule: ensure_unique_from.induct) auto

lemma segment_checks_ok:
  "ensure_unique_hashes hs side = Inr () \<longleftrightarrow> distinct hs"
  "ensure_no_duplicate_across_segments rb ap = Inr () \<longleftrightarrow> set rb \<inter> set ap = {}"
  "fork_not_in fork hs = Inr () \<longleftrightarrow> fork \<notin> set hs"
  by (auto simp: ensure_unique_hashes_def ensure_unique_ok ensure_no_duplicate_across_segments_def fork_not_in_def
      split: if_splits)

text \<open>
  In an index with no block under the empty hash, a block with valid ancestry whose recorded
  parent is a non-empty hash is linked to that parent.
\<close>

lemma ancestry_link:
  assumes "validate_block_ancestry idx h = Inr ()" "index_get idx h = Some e" "parent_hash e \<noteq> []"
  shows "index_up idx h = Some (parent_hash e)"
proof -
  from assms(1) obtain xs r re where x: "seg (index_up idx) h xs r" "rooted idx r" "index_get idx r = Some re" "parent_hash re = []"
    by (auto simp: ancestry_ok path_ok)
  with assms show ?thesis
    by (cases xs) (auto simp: seg_Cons index_up_iff validated_parent_ok)
qed

lemma link_ancestry:
  assumes "index_up idx h = Some p" "validate_block_ancestry idx p = Inr ()"
  shows "validate_block_ancestry idx h = Inr () \<and> (\<exists>e. index_get idx h = Some e \<and> parent_hash e = p)"
  using assms ancestry_above [OF seg_one [of "index_up idx", OF assms(1)]] by (auto simp: index_up_iff validated_parent_ok)

lemma ancestry_known:
  assumes "validate_block_ancestry idx x = Inr ()"
  shows "index_get idx x \<noteq> None"
proof -
  from assms obtain xs r where "seg (index_up idx) x xs r" "rooted idx r" by (auto simp: ancestry_ok path_ok)
  then show ?thesis by (cases xs) (auto simp: seg_Cons rooted_def dest: index_up_known)
qed

lemma check_rollback_ok:
  assumes "index_get idx [] = None" "validate_block_ancestry idx fork = Inr ()"
  shows "check_rollback idx fork hs = Inr () \<longleftrightarrow> (\<exists>x. seg (index_up idx) x hs fork)"
proof (induction hs)
  case Nil
  then show ?case by simp
next
  case (Cons h hs)
  let ?want = "case hs of [] \<Rightarrow> fork | next # _ \<Rightarrow> next"
  have want: "?want = x" if "seg (index_up idx) x hs fork" for x
    using that by (cases hs) (auto simp: seg_Cons)
  show ?case
  proof
    assume "check_rollback idx fork (h # hs) = Inr ()"
    then obtain e where e: "validate_block_ancestry idx h = Inr ()" "index_get idx h = Some e"
      "parent_hash e = ?want" "check_rollback idx fork hs = Inr ()"
      by (auto simp: and_then_Inr_iff split: if_splits)
    with Cons.IH obtain x where x: "seg (index_up idx) x hs fork" by blast
    with e want have p: "parent_hash e = x" by simp
    have "validate_block_ancestry idx x = Inr ()" using ancestry_above [OF x] assms(2) by simp
    then have "x \<noteq> []" using ancestry_known assms(1) by metis
    with ancestry_link [OF e(1,2)] p x show "\<exists>x. seg (index_up idx) x (h # hs) fork" by (auto simp: seg_Cons)
  next
    assume "\<exists>x. seg (index_up idx) x (h # hs) fork"
    then obtain z where z: "index_up idx h = Some z" "seg (index_up idx) z hs fork" by (auto simp: seg_Cons)
    then have "validate_block_ancestry idx z = Inr ()" using ancestry_above [OF z(2)] assms(2) by simp
    from link_ancestry [OF z(1) this] Cons.IH want [OF z(2)] z(2)
    show "check_rollback idx fork (h # hs) = Inr ()" by auto
  qed
qed

lemma check_apply_ok:
  assumes "index_get idx [] = None" "validate_block_ancestry idx prev = Inr ()"
  shows "check_apply idx prev hs = Inr () \<longleftrightarrow> (\<exists>x. seg (index_up idx) x (rev hs) prev)"
  using assms(2)
proof (induction hs arbitrary: prev)
  case (Cons h hs)
  have nz: "prev \<noteq> []"
    using assms(1) ancestry_known [OF Cons.prems] by auto
  have "check_apply idx prev (h # hs) = Inr () \<longleftrightarrow> index_up idx h = Some prev \<and> check_apply idx h hs = Inr ()"
    using ancestry_link [of idx h] link_ancestry [OF _ Cons.prems, of h] nz
    by (auto simp: and_then_Inr_iff)
  also have "\<dots> \<longleftrightarrow> index_up idx h = Some prev \<and> (\<exists>x. seg (index_up idx) x (rev hs) h)"
    using Cons.IH link_ancestry [OF _ Cons.prems, of h] by blast
  also have "\<dots> \<longleftrightarrow> (\<exists>x. seg (index_up idx) x (rev (h # hs)) prev)"
    using seg_split [of "index_up idx" _ "rev hs" h "[]" prev] seg_append [of "index_up idx" _ "rev hs" h "[h]" prev] seg_one [of "index_up idx" h prev]
    by (auto simp: seg_Cons)
  finally show ?case .
qed simp

text \<open>
  C36. In an index that files no block under the empty hash, structural validation accepts a plan
  precisely if the fork block has valid ancestry down to a parentless root and the plan is the one
  computed between its own end points, the first block to roll back and the last one to apply.
\<close>

theorem validate_iff_planned:
  assumes "index_get idx [] = None"
  shows "validate_against_index p idx = Inr () \<longleftrightarrow>
    validate_block_ancestry idx (plan_fork_hash p) = Inr () \<and>
    try_from_tips idx (hd (rollback_ordered p @ [plan_fork_hash p])) (last (plan_fork_hash p # apply_ordered p)) = Inr p"
proof (cases "validate_block_ancestry idx (plan_fork_hash p) = Inr ()")
  case False
  then show ?thesis by (auto simp: validate_against_index_def and_then_Inr_iff)
next
  case True
  let ?f = "plan_fork_hash p" and ?rb = "rollback_ordered p" and ?ap = "apply_ordered p"
  let ?old = "hd (?rb @ [?f])" and ?new = "last (?f # ?ap)"
  from True obtain fpath where fp: "path_from_tip_toward_genesis idx ?f = Inr fpath" by (auto simp: ancestry_ok)
  then obtain tail where tail: "fpath = ?f # tail" using path_length [OF fp] by (cases fpath) auto
  have hd_new: "?new = hd (rev ?ap @ [?f])" by (cases ?ap rule: rev_cases) simp_all
  have start: "x = hd (hs @ [?f])" if "seg (index_up idx) x hs ?f" for x hs using seg_hd [OF that] by simp
  have rb: "check_rollback idx ?f ?rb = Inr () \<longleftrightarrow> seg (index_up idx) ?old ?rb ?f"
    unfolding check_rollback_ok [OF assms True] using start by metis
  have ap: "check_apply idx ?f ?ap = Inr () \<longleftrightarrow> seg (index_up idx) ?new (rev ?ap) ?f"
    unfolding check_apply_ok [OF assms True] hd_new using start by metis
  have "validate_against_index p idx = Inr () \<longleftrightarrow>
      set ?rb \<inter> set ?ap = {} \<and> seg (index_up idx) ?old ?rb ?f \<and> seg (index_up idx) ?new (rev ?ap) ?f"
    using True block_ancestry.seg_distinct [of idx ?old ?rb ?f] block_ancestry.seg_distinct [of idx ?new "rev ?ap" ?f]
    unfolding validate_against_index_def by (simp add: and_then_Inr_iff segment_checks_ok rb ap del: last.simps) blast
  also have "\<dots> \<longleftrightarrow> (\<exists>tail. path_from_tip_toward_genesis idx ?old = Inr (?rb @ ?f # tail) \<and>
      path_from_tip_toward_genesis idx ?new = Inr (rev ?ap @ ?f # tail) \<and> set (rev ?ap) \<inter> set ?rb = {})"
    using path_prepend [OF _ fp, of ?old ?rb] path_prepend [OF _ fp, of ?new "rev ?ap"] path_segment tail
    by (metis Int_commute set_rev)
  also have "\<dots> \<longleftrightarrow> fork_slices_between_tips idx ?old ?new =
      Inr \<lparr>fork_hash = ?f, old_suffix = ?rb, new_suffix = rev ?ap\<rparr>"
    by (simp add: fork_slices_ok)
  also have "\<dots> \<longleftrightarrow> try_from_tips idx ?old ?new = Inr p"
    by (auto simp: try_from_tips_def from_fork_slices_def and_then_Inr_iff intro: fork_slices.equality)
  finally show ?thesis using True by simp
qed

section \<open>The empty hash\<close>

text \<open>
  Without the hypothesis on the empty hash validation is too weak.  The parent field of a
  root is the empty string, and the loop over \<open>apply_ordered\<close> compares that field with the fork
  hash only; if a root is filed under the empty hash, a second root passes as its child, although
  no path leads from one to the other.
\<close>

definition blank_index :: block_index where
  "blank_index = \<lparr>by_hash = fmap_of_list
     [('''', \<lparr>parent_hash = '''', bie_height = 0\<rparr>), (''b'', \<lparr>parent_hash = '''', bie_height = 0\<rparr>)]\<rparr>"

lemma blank_fork_accepted:
  "validate_against_index \<lparr>plan_fork_hash = '''', rollback_ordered = [], apply_ordered = [''b'']\<rparr> blank_index = Inr () \<and>
   try_from_tips blank_index '''' ''b'' = Inl NoCommonAncestor"
  by code_simp

section \<open>Verdicts\<close>

lemma preflight_verdicts:
  "pf_verdict (preflight_evaluate p idx policy) = Verdict_NoOp \<longleftrightarrow> validate_against_index p idx = Inr () \<and> is_noop p"
  "pf_verdict (preflight_evaluate p idx policy) = Verdict_Acceptable \<longleftrightarrow>
     validate_against_index p idx = Inr () \<and> \<not> is_noop p \<and> length (rollback_ordered p) \<le> max_reorg_depth policy"
  "pf_structural (preflight_evaluate p idx policy) = validate_against_index p idx"
  "pf_policy (preflight_evaluate p idx policy) = NotEvaluated \<longleftrightarrow> validate_against_index p idx \<noteq> Inr ()"
  by (auto simp: preflight_evaluate_def check_policy_def Let_def split: sum.split)

end
