(* ===== verification/Encoding.thy ===== *)
theory Encoding
  imports Block
begin

text \<open>
  \<open>encoding.rs\<close>: the canonical binary format of transactions and blocks, used on disk and on the
  wire.  A \<open>Cursor\<close> over a byte slice is modelled by the bytes it has not consumed yet, and every
  \<open>take_*\<close> method by a function that returns the value with the remaining bytes.  The encoders
  panic on a length that does not fit in 32 bits (\<open>expect\<close>); a panic is the value \<open>None\<close>.
\<close>

datatype encode_error = EncodeError string

fun encode_error_text :: "encode_error \<Rightarrow> string" where
  "encode_error_text (EncodeError s) = s"

definition BLOCK_MAGIC :: bytes where "BLOCK_MAGIC = [0x54, 0x52, 0x42, 0x31]"
definition TX_MAGIC :: bytes where "TX_MAGIC = [0x54, 0x52, 0x54, 0x31]"
definition BLOCK_FORMAT_VERSION :: u8 where "BLOCK_FORMAT_VERSION = 1"
definition TX_FORMAT_VERSION :: u8 where "TX_FORMAT_VERSION = 1"

section \<open>The cursor\<close>

definition take_exact :: "nat \<Rightarrow> bytes \<Rightarrow> encode_error + (bytes \<times> bytes)" where
  "take_exact n bs =
    (if length bs < n then Inl (EncodeError ''unexpected end of input'') else Inr (take n bs, drop n bs))"

definition take_u8 :: "bytes \<Rightarrow> encode_error + (u8 \<times> bytes)" where
  "take_u8 bs = and_then (take_exact 1 bs) (\<lambda>(b, r). Inr (b ! 0, r))"

definition take_u32_be :: "bytes \<Rightarrow> encode_error + (u32 \<times> bytes)" where
  "take_u32_be bs = and_then (take_exact 4 bs) (\<lambda>(b, r). Inr (u32_of_be b, r))"

definition take_u64_be :: "bytes \<Rightarrow> encode_error + (u64 \<times> bytes)" where
  "take_u64_be bs = and_then (take_exact 8 bs) (\<lambda>(b, r). Inr (u64_of_be b, r))"

definition take_bytes :: "bytes \<Rightarrow> encode_error + (bytes \<times> bytes)" where
  "take_bytes bs = and_then (take_u32_be bs) (\<lambda>(n, r). take_exact (unat n) r)"

definition take_string :: "bytes \<Rightarrow> encode_error + (string \<times> bytes)" where
  "take_string bs = and_then (take_bytes bs) (\<lambda>(b, r).
     and_then (ok_or (EncodeError ''invalid utf-8'') (from_utf8 b)) (\<lambda>s. Inr (s, r)))"

definition finish :: "bytes \<Rightarrow> encode_error + unit" where
  "finish bs = (if bs \<noteq> [] then Inl (EncodeError ''trailing bytes after decode'') else Inr ())"

definition push_u32_be :: "bytes \<Rightarrow> u32 \<Rightarrow> bytes" where
  "push_u32_be buf v = buf @ u32_to_be v"

definition push_u64_be :: "bytes \<Rightarrow> u64 \<Rightarrow> bytes" where
  "push_u64_be buf v = buf @ u64_to_be v"

definition push_bytes :: "bytes \<Rightarrow> bytes \<Rightarrow> bytes option" where
  "push_bytes buf b = Option.bind (u32_try_from (length b)) (\<lambda>len. Some (push_u32_be buf len @ b))"

definition push_string :: "bytes \<Rightarrow> string \<Rightarrow> bytes option" where
  "push_string buf s = push_bytes buf (as_bytes s)"

section \<open>Transactions and blocks\<close>

definition encode_transaction :: "transaction \<Rightarrow> bytes option" where
  "encode_transaction tx =
    (let out = TX_MAGIC @ [TX_FORMAT_VERSION] in
     Option.bind (push_string out (str (sender tx))) (\<lambda>out.
     Option.bind (push_string out (str (receiver tx))) (\<lambda>out.
     let out = push_u64_be out (amount tx);
         out = push_u64_be out (fee tx);
         out = push_u64_be out (nonce tx);
         out = push_u64_be out (tx_timestamp_unix tx) in
     Option.bind (push_bytes out (public_key tx)) (\<lambda>out.
     Option.bind (push_bytes out (signature tx)) (\<lambda>out.
     push_string out (tx_hash tx))))))"

definition decode_transaction :: "bytes \<Rightarrow> encode_error + transaction" where
  "decode_transaction data =
    and_then (take_exact 4 data) (\<lambda>(magic, c).
    if magic \<noteq> TX_MAGIC then Inl (EncodeError ''bad transaction magic'')
    else and_then (take_u8 c) (\<lambda>(ver, c).
    if ver \<noteq> TX_FORMAT_VERSION then Inl (EncodeError ''unsupported tx format version'')
    else and_then (take_string c) (\<lambda>(s, c).
         and_then (take_string c) (\<lambda>(r, c).
         and_then (take_u64_be c) (\<lambda>(am, c).
         and_then (take_u64_be c) (\<lambda>(fe, c).
         and_then (take_u64_be c) (\<lambda>(no, c).
         and_then (take_u64_be c) (\<lambda>(ts, c).
         and_then (take_bytes c) (\<lambda>(pk, c).
         and_then (take_bytes c) (\<lambda>(sg, c).
         and_then (take_string c) (\<lambda>(h, c).
         and_then (finish c) (\<lambda>_.
         Inr \<lparr>sender = Address s, receiver = Address r, amount = am, fee = fe, nonce = no,
              tx_timestamp_unix = ts, public_key = pk, signature = sg, tx_hash = h\<rparr>))))))))))))"

text \<open>The loop of \<open>encode_block\<close> over the transactions.\<close>

fun push_transactions :: "bytes \<Rightarrow> transaction list \<Rightarrow> bytes option" where
  "push_transactions out [] = Some out"
| "push_transactions out (tx # txs) =
    Option.bind (encode_transaction tx) (\<lambda>nested.
    Option.bind (u32_try_from (length nested)) (\<lambda>len.
    push_transactions (push_u32_be out len @ nested) txs))"

definition encode_block :: "block \<Rightarrow> bytes option" where
  "encode_block b =
    (let out = push_u64_be (BLOCK_MAGIC @ [BLOCK_FORMAT_VERSION]) (height b) in
     Option.bind (push_string out (previous_hash b)) (\<lambda>out.
     let out = push_u64_be out (timestamp_unix b) in
     Option.bind (u32_try_from (length (transactions b))) (\<lambda>n.
     Option.bind (push_transactions (push_u32_be out n) (transactions b)) (\<lambda>out.
     push_string out (block_hash b)))))"

text \<open>The loop \<open>for i in 0..n\<close> of \<open>decode_block\<close>.\<close>

fun take_transactions :: "nat \<Rightarrow> nat \<Rightarrow> bytes \<Rightarrow> encode_error + (transaction list \<times> bytes)" where
  "take_transactions i 0 c = Inr ([], c)"
| "take_transactions i (Suc k) c =
    and_then (take_u32_be c) (\<lambda>(len, c).
    and_then (take_exact (unat len) c) (\<lambda>(chunk, c).
    and_then (map_err (\<lambda>e. EncodeError (''tx '' @ show_nat i @ '': '' @ encode_error_text e))
        (decode_transaction chunk)) (\<lambda>tx.
    and_then (take_transactions (i + 1) k c) (\<lambda>(txs, c). Inr (tx # txs, c)))))"

text \<open>
  Decoding a block: the header with the transaction count, then the rest.  The decoder reserves
  memory for the announced number of transactions (\<open>Vec::with_capacity(n)\<close>) in between; the number it
  reserves is returned beside the result.
\<close>

definition decode_block_header :: "bytes \<Rightarrow> encode_error + ((u64 \<times> string \<times> u64 \<times> u32) \<times> bytes)" where
  "decode_block_header data =
    and_then (take_exact 4 data) (\<lambda>(magic, c).
    if magic \<noteq> BLOCK_MAGIC then Inl (EncodeError ''bad block magic'')
    else and_then (take_u8 c) (\<lambda>(ver, c).
    if ver \<noteq> BLOCK_FORMAT_VERSION then Inl (EncodeError ''unsupported block format version'')
    else and_then (take_u64_be c) (\<lambda>(h, c).
         and_then (take_string c) (\<lambda>(prev, c).
         and_then (take_u64_be c) (\<lambda>(ts, c).
         and_then (take_u32_be c) (\<lambda>(n, c).
         Inr ((h, prev, ts, n), c)))))))"

definition decode_block_reserving :: "bytes \<Rightarrow> nat \<times> (encode_error + block)" where
  "decode_block_reserving data =
    (case decode_block_header data of
       Inl e \<Rightarrow> (0, Inl e)
     | Inr ((h, prev, ts, n), c) \<Rightarrow>
        let reserved = unat n in
        (reserved,
         and_then (take_transactions 0 (unat n) c) (\<lambda>(txs, c).
         and_then (take_string c) (\<lambda>(bh, c).
         and_then (finish c) (\<lambda>_.
         Inr \<lparr>height = h, previous_hash = prev, timestamp_unix = ts, transactions = txs,
              block_hash = bh\<rparr>)))))"

definition decode_block :: "bytes \<Rightarrow> encode_error + block" where
  "decode_block data = snd (decode_block_reserving data)"

lemma decode_block_unfold:
  "decode_block data =
    and_then (decode_block_header data) (\<lambda>((h, prev, ts, n), c).
    and_then (take_transactions 0 (unat n) c) (\<lambda>(txs, c).
    and_then (take_string c) (\<lambda>(bh, c).
    and_then (finish c) (\<lambda>_.
    Inr \<lparr>height = h, previous_hash = prev, timestamp_unix = ts, transactions = txs, block_hash = bh\<rparr>))))"
  by (cases "decode_block_header data") (auto simp: decode_block_def decode_block_reserving_def Let_def)

section \<open>Fields\<close>

text \<open>
  A field format: writing a value and reading it back from the front of any input returns the
  value and the rest; and whatever a reader accepts is what the writer would have written.
\<close>

locale field_codec =
  fixes put :: "'a \<Rightarrow> bytes"
    and get :: "bytes \<Rightarrow> 'e + ('a \<times> bytes)"
    and fits :: "'a \<Rightarrow> bool"
  assumes get_put: "fits x \<Longrightarrow> get (put x @ r) = Inr (x, r)"
    and put_get: "get bs = Inr (x, r) \<Longrightarrow> fits x \<and> bs = put x @ r"
begin

lemma get_iff: "get bs = Inr (x, r) \<longleftrightarrow> fits x \<and> bs = put x @ r"
  using get_put put_get by blast

lemma put_prefix_free: "fits x \<Longrightarrow> fits y \<Longrightarrow> put x @ r = put y @ s \<Longrightarrow> x = y \<and> r = s"
  by (metis get_put Inr_inject prod.inject)

end

text \<open>A loop that reads records of such a format until the input is used up.\<close>

locale framing = field_codec put get fits
  for put :: "'a \<Rightarrow> bytes" and get :: "bytes \<Rightarrow> 'e + ('a \<times> bytes)" and fits :: "'a \<Rightarrow> bool" +
  fixes loop :: "bytes \<Rightarrow> 'e + 'a list"
  assumes put_nonempty: "fits x \<Longrightarrow> put x \<noteq> []"
    and loop_unfold: "loop bs = (if bs = [] then Inr []
      else and_then (get bs) (\<lambda>(x, r). and_then (loop r) (\<lambda>xs. Inr (x # xs))))"
begin

lemma loop_frames: "\<forall>x \<in> set xs. fits x \<Longrightarrow> loop (concat (map put xs)) = Inr xs"
proof (induction xs)
  case Nil
  show ?case by (subst loop_unfold) simp
next
  case (Cons x xs)
  then show ?case by (subst loop_unfold) (simp add: put_nonempty get_put)
qed

lemma frames_loop: "loop bs = Inr xs \<Longrightarrow> (\<forall>x \<in> set xs. fits x) \<and> bs = concat (map put xs)"
proof (induction xs arbitrary: bs)
  case Nil
  then show ?case by (subst (asm) loop_unfold) (auto simp: and_then_Inr_iff split: if_splits)
next
  case (Cons x xs)
  from Cons.prems obtain r where "get bs = Inr (x, r)" "loop r = Inr xs"
    by (subst (asm) loop_unfold) (auto simp: and_then_Inr_iff split: if_splits)
  with Cons.IH put_get show ?case by fastforce
qed

lemma loop_error:
  assumes "t \<noteq> []" "get t = Inl e"
  shows "\<forall>x \<in> set xs. fits x \<Longrightarrow> loop (concat (map put xs) @ t) = Inl e"
proof (induction xs)
  case Nil
  from assms show ?case by (subst loop_unfold) simp
next
  case (Cons x xs)
  then show ?case by (subst loop_unfold) (simp add: put_nonempty get_put)
qed

lemma loop_iff: "loop bs = Inr xs \<longleftrightarrow> (\<forall>x \<in> set xs. fits x) \<and> bs = concat (map put xs)"
  using loop_frames frames_loop by blast

end

definition framed :: "bytes \<Rightarrow> bytes" where
  "framed b = u32_to_be (word_of_nat (length b)) @ b"

lemma take_exact_ok: "take_exact n bs = Inr (x, r) \<longleftrightarrow> length x = n \<and> bs = x @ r"
  by (auto simp: take_exact_def append_eq_conv_conj split: if_splits)

interpretation u32_field: field_codec u32_to_be take_u32_be "\<lambda>_. True"
  by unfold_locales (auto simp: take_u32_be_def and_then_Inr_iff take_exact_ok take_exact_def
      split: if_splits)

interpretation u64_field: field_codec u64_to_be take_u64_be "\<lambda>_. True"
  by unfold_locales (auto simp: take_u64_be_def and_then_Inr_iff take_exact_ok take_exact_def
      split: if_splits)

interpretation bytes_field: field_codec framed take_bytes "\<lambda>b. length b < 2 ^ 32"
proof
  show "take_bytes (framed x @ r) = Inr (x, r)" if "length x < 2 ^ 32" for x r
    using that by (simp add: take_bytes_def framed_def u32_field.get_put take_exact_def)
  show "length x < 2 ^ 32 \<and> bs = framed x @ r" if "take_bytes bs = Inr (x, r)" for bs x r
  proof -
    from that obtain n where n: "bs = u32_to_be n @ x @ r" "length x = unat n"
      by (auto simp: take_bytes_def and_then_Inr_iff u32_field.get_iff take_exact_ok)
    then have "length x < 2 ^ 32" "word_of_nat (length x) = n" using unat_bound [of n] by simp_all
    with n show ?thesis by (simp add: framed_def)
  qed
qed

interpretation string_field: field_codec "\<lambda>s. framed (as_bytes s)" take_string
  "\<lambda>s. length s < 2 ^ 32 \<and> rust_string s"
  by unfold_locales
    (auto simp: take_string_def and_then_Inr_iff bytes_field.get_iff bytes_field.get_put from_utf8_Some_iff)

lemmas field_iffs = u32_field.get_iff u64_field.get_iff bytes_field.get_iff string_field.get_iff

lemma take_u8_ok: "take_u8 bs = Inr (x, r) \<longleftrightarrow> bs = x # r"
  by (cases bs) (auto simp: take_u8_def take_exact_def)

lemma take_magic: "take_exact 4 (TX_MAGIC @ r) = Inr (TX_MAGIC, r)" "take_exact 4 (BLOCK_MAGIC @ r) = Inr (BLOCK_MAGIC, r)"
  by (simp_all add: take_exact_ok TX_MAGIC_def BLOCK_MAGIC_def)

lemma take_u8_Cons: "take_u8 (x # r) = Inr (x, r)"
  by (simp add: take_u8_ok)

lemmas field_reads =
  take_magic take_u8_Cons u32_field.get_put [OF TrueI] u64_field.get_put [OF TrueI]
  bytes_field.get_put string_field.get_put string_field.get_put [where r = "[]", simplified]

lemma finish_ok: "finish c = Inr () \<longleftrightarrow> c = []"
  by (simp add: finish_def)

lemma push_bytes_ok: "push_bytes buf b = Some out \<longleftrightarrow> length b < 2 ^ 32 \<and> out = buf @ framed b"
  by (auto simp: push_bytes_def push_u32_be_def framed_def bind_eq_Some_conv)

lemma push_string_ok: "push_string buf s = Some out \<longleftrightarrow> length s < 2 ^ 32 \<and> out = buf @ framed (as_bytes s)"
  by (simp add: push_string_def push_bytes_ok)

section \<open>Round trips\<close>

text \<open>The type invariants of the Rust values: every \<open>String\<close> is UTF-8.\<close>

definition rust_transaction :: "transaction \<Rightarrow> bool" where
  "rust_transaction tx \<longleftrightarrow> rust_string (str (sender tx)) \<and> rust_string (str (receiver tx)) \<and> rust_string (tx_hash tx)"

definition rust_block :: "block \<Rightarrow> bool" where
  "rust_block b \<longleftrightarrow> rust_string (previous_hash b) \<and> rust_string (block_hash b) \<and>
     (\<forall>tx \<in> set (transactions b). rust_transaction tx)"

definition tx_image :: "transaction \<Rightarrow> bytes" where
  "tx_image tx = TX_MAGIC @ TX_FORMAT_VERSION # framed (as_bytes (str (sender tx))) @
     framed (as_bytes (str (receiver tx))) @ u64_to_be (amount tx) @ u64_to_be (fee tx) @
     u64_to_be (nonce tx) @ u64_to_be (tx_timestamp_unix tx) @ framed (public_key tx) @
     framed (signature tx) @ framed (as_bytes (tx_hash tx))"

definition tx_fits :: "transaction \<Rightarrow> bool" where
  "tx_fits tx \<longleftrightarrow> length (str (sender tx)) < 2 ^ 32 \<and> length (str (receiver tx)) < 2 ^ 32 \<and>
     length (public_key tx) < 2 ^ 32 \<and> length (signature tx) < 2 ^ 32 \<and> length (tx_hash tx) < 2 ^ 32"

lemma encode_transaction_ok: "encode_transaction tx = Some bs \<longleftrightarrow> tx_fits tx \<and> bs = tx_image tx"
  by (auto simp: encode_transaction_def Let_def bind_eq_Some_conv push_string_ok push_bytes_ok
      push_u64_be_def tx_fits_def tx_image_def)

lemma decode_transaction_ok:
  "decode_transaction bs = Inr tx \<longleftrightarrow> rust_transaction tx \<and> tx_fits tx \<and> bs = tx_image tx"
proof
  assume "decode_transaction bs = Inr tx"
  then show "rust_transaction tx \<and> tx_fits tx \<and> bs = tx_image tx"
    by (auto simp: decode_transaction_def and_then_Inr_iff take_exact_ok take_u8_ok field_iffs finish_ok
        tx_image_def tx_fits_def rust_transaction_def split: if_splits)
next
  assume "rust_transaction tx \<and> tx_fits tx \<and> bs = tx_image tx"
  then show "decode_transaction bs = Inr tx"
    by (cases tx; cases "sender tx"; cases "receiver tx")
      (simp add: decode_transaction_def tx_image_def tx_fits_def rust_transaction_def field_reads finish_def)
qed

definition txs_fit :: "transaction list \<Rightarrow> bool" where
  "txs_fit txs \<longleftrightarrow> (\<forall>tx \<in> set txs. tx_fits tx \<and> length (tx_image tx) < 2 ^ 32)"

definition txs_image :: "transaction list \<Rightarrow> bytes" where
  "txs_image txs = concat (map (\<lambda>tx. framed (tx_image tx)) txs)"

lemma push_transactions_ok:
  "push_transactions out txs = Some bs \<longleftrightarrow> txs_fit txs \<and> bs = out @ txs_image txs"
proof (induction txs arbitrary: out)
  case (Cons tx txs)
  then show ?case
    by (auto simp: bind_eq_Some_conv encode_transaction_ok txs_fit_def txs_image_def framed_def push_u32_be_def)
qed (auto simp: txs_fit_def txs_image_def)

lemma take_chunk:
  "and_then (take_u32_be c) (\<lambda>(len, c). and_then (take_exact (unat len) c) f) = and_then (take_bytes c) f"
  by (cases "take_u32_be c") (simp_all add: take_bytes_def split: prod.split)

lemma take_transactions_ok:
  "take_transactions i n c = Inr (txs, r) \<longleftrightarrow>
     length txs = n \<and> txs_fit txs \<and> (\<forall>tx \<in> set txs. rust_transaction tx) \<and> c = txs_image txs @ r"
proof (induction n arbitrary: i c txs)
  case 0
  then show ?case by (auto simp: txs_fit_def txs_image_def)
next
  case (Suc k)
  have "take_transactions i (Suc k) c = Inr (txs, r) \<longleftrightarrow>
    (\<exists>tx txs' c'. txs = tx # txs' \<and> take_bytes c = Inr (tx_image tx, c') \<and> rust_transaction tx \<and> tx_fits tx \<and>
       take_transactions (i + 1) k c' = Inr (txs', r))"
    unfolding take_transactions.simps take_chunk
    by (auto simp: and_then_Inr_iff decode_transaction_ok)
  also have "\<dots> \<longleftrightarrow> (\<exists>tx txs' c'. txs = tx # txs' \<and> length (tx_image tx) < 2 ^ 32 \<and> c = framed (tx_image tx) @ c' \<and>
      rust_transaction tx \<and> tx_fits tx \<and>
      length txs' = k \<and> txs_fit txs' \<and> (\<forall>t \<in> set txs'. rust_transaction t) \<and> c' = txs_image txs' @ r)"
    by (simp add: Suc.IH bytes_field.get_iff conj_ac)
  also have "\<dots> \<longleftrightarrow> length txs = Suc k \<and> txs_fit txs \<and> (\<forall>tx \<in> set txs. rust_transaction tx) \<and> c = txs_image txs @ r"
    by (auto simp: txs_fit_def txs_image_def length_Suc_conv)
  finally show ?case .
qed

definition block_image :: "block \<Rightarrow> bytes" where
  "block_image b = BLOCK_MAGIC @ BLOCK_FORMAT_VERSION # u64_to_be (height b) @ framed (as_bytes (previous_hash b)) @
     u64_to_be (timestamp_unix b) @ u32_to_be (word_of_nat (length (transactions b))) @
     txs_image (transactions b) @ framed (as_bytes (block_hash b))"

definition block_fits :: "block \<Rightarrow> bool" where
  "block_fits b \<longleftrightarrow> length (previous_hash b) < 2 ^ 32 \<and> length (block_hash b) < 2 ^ 32 \<and>
     length (transactions b) < 2 ^ 32 \<and> txs_fit (transactions b)"

lemma encode_block_ok: "encode_block b = Some bs \<longleftrightarrow> block_fits b \<and> bs = block_image b"
  by (auto simp: encode_block_def Let_def bind_eq_Some_conv push_string_ok push_transactions_ok
      push_u64_be_def push_u32_be_def block_fits_def block_image_def)

lemma decode_block_ok: "decode_block bs = Inr b \<longleftrightarrow> rust_block b \<and> block_fits b \<and> bs = block_image b"
proof
  assume "decode_block bs = Inr b"
  then obtain n where n: "bs = BLOCK_MAGIC @ BLOCK_FORMAT_VERSION # u64_to_be (height b) @ framed (as_bytes (previous_hash b)) @
     u64_to_be (timestamp_unix b) @ u32_to_be n @ txs_image (transactions b) @ framed (as_bytes (block_hash b))"
    "length (transactions b) = unat n" and "rust_block b" and
    "txs_fit (transactions b)" "length (previous_hash b) < 2 ^ 32" "length (block_hash b) < 2 ^ 32"
    by (auto simp: decode_block_unfold decode_block_header_def and_then_Inr_iff take_exact_ok take_u8_ok field_iffs take_transactions_ok
        finish_ok rust_block_def split: if_splits)
  moreover from n(2) have "length (transactions b) < 2 ^ 32" "word_of_nat (length (transactions b)) = n"
    using unat_bound [of n] by simp_all
  ultimately show "rust_block b \<and> block_fits b \<and> bs = block_image b"
    by (simp add: block_fits_def block_image_def)
next
  assume b: "rust_block b \<and> block_fits b \<and> bs = block_image b"
  then have "take_transactions 0 (length (transactions b)) (txs_image (transactions b) @ r) = Inr (transactions b, r)" for r
    by (simp add: take_transactions_ok rust_block_def block_fits_def)
  with b show "decode_block bs = Inr b"
    by (cases b) (simp add: decode_block_unfold decode_block_header_def block_image_def block_fits_def rust_block_def field_reads finish_def)
qed

section \<open>Properties\<close>

text \<open>
  Transactions have exactly one encoding: decoding accepts a byte string as a transaction if
  and only if it is what encoding that transaction produces; in particular nothing is lost, no
  trailing bytes are tolerated, and no second encoding of a transaction is accepted.
\<close>

theorem transaction_codec:
  "decode_transaction bs = Inr tx \<longleftrightarrow> rust_transaction tx \<and> encode_transaction tx = Some bs"
  by (auto simp: decode_transaction_ok encode_transaction_ok)

text \<open>
  C29. Blocks have exactly one encoding as well, nested transactions included; encoding fails
  only on lengths of 4 GiB and more.
\<close>

theorem block_codec:
  "decode_block bs = Inr b \<longleftrightarrow> rust_block b \<and> encode_block b = Some bs"
  by (auto simp: decode_block_ok encode_block_ok)

text \<open>The bytes of a header that announces \<open>n\<close> transactions.\<close>

definition header_image :: "u64 \<Rightarrow> string \<Rightarrow> u64 \<Rightarrow> u32 \<Rightarrow> bytes" where
  "header_image h prev ts n =
    BLOCK_MAGIC @ BLOCK_FORMAT_VERSION # u64_to_be h @ framed (as_bytes prev) @ u64_to_be ts @ u32_to_be n"

lemma decode_header_image:
  assumes "rust_string prev" "length prev < 2 ^ 32"
  shows "decode_block_header (header_image h prev ts n @ r) = Inr ((h, prev, ts, n), r)"
  using assms by (simp add: decode_block_header_def header_image_def field_reads)

lemma length_header_image: "length (header_image h prev ts n) = 29 + length prev"
  by (simp add: header_image_def BLOCK_MAGIC_def framed_def as_bytes_def)

lemma no_transactions: "k \<noteq> 0 \<Longrightarrow> take_transactions i k [] = Inl (EncodeError ''unexpected end of input'')"
  by (cases k) (simp_all add: take_u32_be_def take_exact_def)

text \<open>
  C30. What the decoder reserves is what the sender announces.  For a block that is accepted this is the
  number of its transactions; but for every count whatsoever there is an input that makes the decoder
  reserve room for that many transactions although it holds none and is refused: a bare header, of 29
  bytes plus the parent hash.
\<close>

theorem decode_block_reserves_unbounded:
  "(\<forall>b. decode_block data = Inr b \<longrightarrow> fst (decode_block_reserving data) = length (transactions b)) \<and>
   (rust_string prev \<and> length prev < 2 ^ 32 \<and> n \<noteq> 0 \<longrightarrow>
     length (header_image h prev ts n) = 29 + length prev \<and>
     fst (decode_block_reserving (header_image h prev ts n)) = unat n \<and>
     decode_block (header_image h prev ts n) = Inl (EncodeError ''unexpected end of input''))"
proof (intro conjI allI impI)
  fix b assume b: "decode_block data = Inr b"
  then obtain h' p' t' n' c txs c' where "decode_block_header data = Inr ((h', p', t', n'), c)"
    "take_transactions 0 (unat n') c = Inr (txs, c')" "transactions b = txs"
    by (auto simp: decode_block_unfold and_then_Inr_iff)
  then show "fst (decode_block_reserving data) = length (transactions b)"
    by (simp add: decode_block_reserving_def Let_def take_transactions_ok)
next
  assume p: "rust_string prev \<and> length prev < 2 ^ 32 \<and> n \<noteq> 0"
  then have hd: "decode_block_header (header_image h prev ts n) = Inr ((h, prev, ts, n), [])"
    using decode_header_image [of prev h ts n "[]"] by simp
  show "length (header_image h prev ts n) = 29 + length prev" by (rule length_header_image)
  show "fst (decode_block_reserving (header_image h prev ts n)) = unat n"
    by (simp add: decode_block_reserving_def hd)
  have "unat n \<noteq> 0" using p by (simp add: unat_eq_0)
  then show "decode_block (header_image h prev ts n) = Inl (EncodeError ''unexpected end of input'')"
    by (simp add: decode_block_unfold hd no_transactions)
qed

theorem reserves_witness:
  "decode_block (block_image \<lparr>height = 0, previous_hash = [], timestamp_unix = 0, transactions = [], block_hash = []\<rparr>) =
     Inr \<lparr>height = 0, previous_hash = [], timestamp_unix = 0, transactions = [], block_hash = []\<rparr> \<and>
   length (header_image 0 [] 0 (- 1)) = 29 \<and> fst (decode_block_reserving (header_image 0 [] 0 (- 1))) = 4294967295"
proof -
  let ?b = "\<lparr>height = 0, previous_hash = [], timestamp_unix = 0, transactions = [], block_hash = []\<rparr> :: block"
  have "decode_block (block_image ?b) = Inr ?b"
    by (simp add: decode_block_ok rust_block_def rust_string_def block_fits_def txs_fit_def)
  moreover have "unat (- 1 :: u32) = 4294967295" by (simp add: unsigned_minus_1_eq_mask mask_eq_exp_minus_1)
  moreover have "rust_string []" by (simp add: rust_string_def)
  ultimately show ?thesis
    using decode_block_reserves_unbounded [of "block_image ?b" "[]" "- 1" 0 0] by simp
qed

end
