(* ===== verification/Replay_Sandbox.thy ===== *)
theory Replay_Sandbox
  imports Reorg_Plan Blockchain Encoding
begin

text \<open>
  \<open>v3/replay_sandbox.rs\<close>: the read-only simulation of a planned reorganisation on cloned state.
  An \<open>expect\<close> that fails is a panic, the value \<open>None\<close> of the outer option.
\<close>

record replay_sandbox_material =
  state_at_fork :: state
  blocks_by_hash :: "(string, block) fmap"
  expected_state_at_old_tip :: "state option"
  rs_consensus :: consensus_params
  parent_blocks_by_hash :: "(string, block) fmap"

definition account_preimage :: "address \<times> account \<Rightarrow> bytes" where
  "account_preimage p =
    (let addr_bytes = as_bytes (str (fst p)) in
     u32_to_be (word_of_nat (length addr_bytes)) @ addr_bytes @ u64_to_be (balance (snd p)) @ u64_to_be (acc_nonce (snd p)))"

definition sandbox_state_fingerprint_preimage :: "state \<Rightarrow> bytes" where
  "sandbox_state_fingerprint_preimage s =
    (let accs = accounts_sorted s;
         n = (if length accs < 2 ^ 64 then word_of_nat (length accs) else - 1)
     in u64_to_be n @ concat (map account_preimage accs))"

definition sandbox_state_fingerprint :: "crypto \<Rightarrow> state \<Rightarrow> string" where
  "sandbox_state_fingerprint K s = hash_bytes K (sandbox_state_fingerprint_preimage s)"

datatype index_link_mismatch =
    BlockHashKey string string
  | MissingIndexEntry string
  | HeightMismatch string u64 u64
  | ParentHashMismatch string string string
  | ParentBlockHash string string

datatype replay_sandbox_replay_error =
    MissingExpectedOldTipState
  | MissingBlockBody string
  | IndexLinkMismatch index_link_mismatch
  | OldTipStateMismatch string string
  | BasicValidation string protocol_error
  | StateTransition string protocol_error
  | SupplyAudit protocol_error
  | MissingParentBlock string
  | TimestampPolicy string protocol_error

record replay_sandbox_replay_ok =
  rollback_blocks_verified :: nat
  apply_blocks_simulated :: nat
  final_state_fingerprint :: string
  final_supply_total :: u64

datatype replay_sandbox_replay_phase =
    SkippedDueToStructuralInvalid
  | SkippedDueToPolicy
  | Completed "replay_sandbox_replay_error + replay_sandbox_replay_ok"

record replay_sandbox_report =
  rr_structural :: "reorg_plan_validation_error + unit"
  rr_preflight :: reorg_preflight_report
  rr_replay :: replay_sandbox_replay_phase

definition validate_block_against_index ::
  "block \<Rightarrow> block_index \<Rightarrow> string \<Rightarrow> replay_sandbox_replay_error + unit" where
  "validate_block_against_index b idx expected_hash =
    (if block_hash b \<noteq> expected_hash
     then Inl (IndexLinkMismatch (BlockHashKey expected_hash (block_hash b)))
     else and_then (ok_or (IndexLinkMismatch (MissingIndexEntry expected_hash)) (index_get idx expected_hash)) (\<lambda>entry.
     if height b \<noteq> bie_height entry
     then Inl (IndexLinkMismatch (HeightMismatch expected_hash (bie_height entry) (height b)))
     else if previous_hash b \<noteq> parent_hash entry
     then Inl (IndexLinkMismatch (ParentHashMismatch expected_hash (parent_hash entry) (previous_hash b)))
     else Inr ()))"

definition resolve_parent_block ::
  "replay_sandbox_material \<Rightarrow> string \<Rightarrow> replay_sandbox_replay_error + block" where
  "resolve_parent_block m parent_key =
    and_then (ok_or (MissingParentBlock parent_key)
       (case fmlookup (parent_blocks_by_hash m) parent_key of
          Some p \<Rightarrow> Some p | None \<Rightarrow> fmlookup (blocks_by_hash m) parent_key)) (\<lambda>parent.
    if block_hash parent \<noteq> parent_key
    then Inl (IndexLinkMismatch (ParentBlockHash parent_key (block_hash parent)))
    else Inr parent)"

definition validate_timestamp_vs_parent ::
  "replay_sandbox_material \<Rightarrow> block \<Rightarrow> string \<Rightarrow> replay_sandbox_replay_error + unit" where
  "validate_timestamp_vs_parent m child child_hash =
    (if is_genesis child then Inr ()
     else and_then (resolve_parent_block m (previous_hash child)) (\<lambda>parent.
       map_err (TimestampPolicy child_hash) (validate_block_timestamps_vs_parent parent child (rs_consensus m))))"

definition apply_block_to_state ::
  "crypto \<Rightarrow> replay_sandbox_material \<Rightarrow> block_index \<Rightarrow> state \<Rightarrow> block \<Rightarrow> string \<Rightarrow>
     state \<times> (replay_sandbox_replay_error + unit)" where
  "apply_block_to_state K m idx s b h =
    (case validate_block_against_index b idx h of
       Inl e \<Rightarrow> (s, Inl e)
     | Inr _ \<Rightarrow>
    (case validate_timestamp_vs_parent m b h of
       Inl e \<Rightarrow> (s, Inl e)
     | Inr _ \<Rightarrow>
    (case block_basic_validate K b of
       Inl e \<Rightarrow> (s, Inl (BasicValidation h e))
     | Inr _ \<Rightarrow>
       (case run_steps (apply_transaction K) s (transactions b) of
          (s', Inl e) \<Rightarrow> (s', Inl (StateTransition h e))
        | (s', Inr _) \<Rightarrow> (s', Inr ())))))"

text \<open>The loops over planned hashes, on a clone of the fork state.\<close>

fun replay_hashes ::
  "crypto \<Rightarrow> replay_sandbox_material \<Rightarrow> block_index \<Rightarrow> state \<Rightarrow> string list \<Rightarrow>
     (replay_sandbox_replay_error + state) option" where
  "replay_hashes K m idx s [] = Some (Inr s)"
| "replay_hashes K m idx s (h # hs) =
    (case fmlookup (blocks_by_hash m) h of
       None \<Rightarrow> None
     | Some b \<Rightarrow> (case apply_block_to_state K m idx s b h of
                    (_, Inl e) \<Rightarrow> Some (Inl e)
                  | (s', Inr _) \<Rightarrow> replay_hashes K m idx s' hs))"

definition verify_old_branch ::
  "crypto \<Rightarrow> reorg_plan \<Rightarrow> block_index \<Rightarrow> replay_sandbox_material \<Rightarrow> (replay_sandbox_replay_error + unit) option" where
  "verify_old_branch K p idx m =
    (if rollback_ordered p = [] then Some (Inr ())
     else (case replay_hashes K m idx (state_at_fork m) (rev (rollback_ordered p)) of
         None \<Rightarrow> None
       | Some (Inl e) \<Rightarrow> Some (Inl e)
       | Some (Inr walk) \<Rightarrow>
          (case expected_state_at_old_tip m of
             None \<Rightarrow> None
           | Some expected \<Rightarrow>
              let replayed_fp = sandbox_state_fingerprint K walk;
                  expected_fp = sandbox_state_fingerprint K expected
              in if replayed_fp \<noteq> expected_fp then Some (Inl (OldTipStateMismatch expected_fp replayed_fp))
                 else Some (Inr ()))))"

definition require_bodies :: "replay_sandbox_material \<Rightarrow> string list \<Rightarrow> replay_sandbox_replay_error + unit" where
  "require_bodies m hs =
    check_all (\<lambda>h. if fmlookup (blocks_by_hash m) h = None then Inl (MissingBlockBody h) else Inr ()) hs"

definition run_replay_on_clones ::
  "crypto \<Rightarrow> reorg_plan \<Rightarrow> block_index \<Rightarrow> replay_sandbox_material \<Rightarrow>
     (replay_sandbox_replay_error + replay_sandbox_replay_ok) option" where
  "run_replay_on_clones K p idx m =
    (if rollback_ordered p \<noteq> [] \<and> expected_state_at_old_tip m = None then Some (Inl MissingExpectedOldTipState)
     else case require_bodies m (rollback_ordered p @ apply_ordered p) of
       Inl e \<Rightarrow> Some (Inl e)
     | Inr _ \<Rightarrow>
    (case verify_old_branch K p idx m of
       None \<Rightarrow> None
     | Some (Inl e) \<Rightarrow> Some (Inl e)
     | Some (Inr _) \<Rightarrow>
    (case replay_hashes K m idx (state_at_fork m) (apply_ordered p) of
       None \<Rightarrow> None
     | Some (Inl e) \<Rightarrow> Some (Inl e)
     | Some (Inr sandbox) \<Rightarrow>
        Some (and_then (map_err SupplyAudit (total_balance_sum sandbox)) (\<lambda>supply_total.
          Inr \<lparr>rollback_blocks_verified = length (rollback_ordered p),
               apply_blocks_simulated = length (apply_ordered p),
               final_state_fingerprint = sandbox_state_fingerprint K sandbox,
               final_supply_total = supply_total\<rparr>)))))"

definition run_report ::
  "crypto \<Rightarrow> reorg_plan \<Rightarrow> block_index \<Rightarrow> reorg_preflight_policy \<Rightarrow> replay_sandbox_material \<Rightarrow> replay_sandbox_report option" where
  "run_report K p idx policy m =
    (let structural = validate_against_index p idx;
         preflight = preflight_evaluate p idx policy
     in case (structural, pf_verdict preflight) of
          (Inl _, _) \<Rightarrow>
            Some \<lparr>rr_structural = structural, rr_preflight = preflight, rr_replay = SkippedDueToStructuralInvalid\<rparr>
        | (Inr _, Verdict_Rejected) \<Rightarrow>
            Some \<lparr>rr_structural = structural, rr_preflight = preflight, rr_replay = SkippedDueToPolicy\<rparr>
        | (Inr _, _) \<Rightarrow>
            (case run_replay_on_clones K p idx m of
               None \<Rightarrow> None
             | Some r \<Rightarrow>
                 Some \<lparr>rr_structural = structural, rr_preflight = preflight, rr_replay = Completed r\<rparr>))"

section \<open>The fingerprint identifies the ledger\<close>

definition fingerprint_fits :: "state \<Rightarrow> bool" where
  "fingerprint_fits s \<longleftrightarrow> accounts_wf s \<and> account_count s < 2 ^ 64 \<and>
     (\<forall>a acc. fmlookup (accounts s) a = Some acc \<longrightarrow> length (str a) < 2 ^ 32)"

lemma account_preimage_prefix_free:
  assumes "account_preimage p @ r = account_preimage q @ t"
    and "length (str (fst p)) < 2 ^ 32" "length (str (fst q)) < 2 ^ 32"
    and "acc_address (snd p) = fst p" "acc_address (snd q) = fst q"
  shows "p = q \<and> r = t"
proof -
  have img: "account_preimage x = framed (as_bytes (str (fst x))) @ u64_to_be (balance (snd x)) @ u64_to_be (acc_nonce (snd x))" for x
    by (simp add: account_preimage_def framed_def Let_def)
  from assms(1) have "framed (as_bytes (str (fst p))) @ (u64_to_be (balance (snd p)) @ u64_to_be (acc_nonce (snd p)) @ r) =
    framed (as_bytes (str (fst q))) @ (u64_to_be (balance (snd q)) @ u64_to_be (acc_nonce (snd q)) @ t)" by (simp add: img)
  from bytes_field.put_prefix_free [OF _ _ this] assms(2,3) have "str (fst p) = str (fst q)"
    "u64_to_be (balance (snd p)) @ u64_to_be (acc_nonce (snd p)) @ r =
     u64_to_be (balance (snd q)) @ u64_to_be (acc_nonce (snd q)) @ t" by simp_all
  with u64_field.put_prefix_free have "fst p = fst q" "balance (snd p) = balance (snd q)"
    "acc_nonce (snd p) = acc_nonce (snd q)" "r = t" by (metis address.expand)+
  with assms(4,5) show ?thesis by (cases p; cases q) (simp add: account.equality)
qed

lemma accounts_preimage_inject:
  assumes "concat (map account_preimage ps) = concat (map account_preimage qs)" "length ps = length qs"
    and "\<forall>p \<in> set ps \<union> set qs. length (str (fst p)) < 2 ^ 32 \<and> acc_address (snd p) = fst p"
  shows "ps = qs"
  using assms(2,1,3)
proof (induction ps qs rule: list_induct2)
  case (Cons p ps q qs)
  with account_preimage_prefix_free [of p "concat (map account_preimage ps)" q "concat (map account_preimage qs)"]
  show ?case by simp
qed simp

lemma accounts_sorted_entries:
  assumes "fingerprint_fits s" "p \<in> set (accounts_sorted s)"
  shows "length (str (fst p)) < 2 ^ 32 \<and> acc_address (snd p) = fst p"
  using assms by (auto simp: fingerprint_fits_def accounts_sorted_def accounts_wf_def sorted_list_of_fset.rep_eq fmlookup_dom_iff)

lemma accounts_sorted_inject:
  assumes "accounts_sorted s = accounts_sorted t"
  shows "s = t"
proof -
  have dom: "fmdom (accounts s) = fmdom (accounts t)"
  proof -
    have "set (map fst (accounts_sorted s)) = set (map fst (accounts_sorted t))" using assms by simp
    then show ?thesis by (simp add: accounts_sorted_def comp_def sorted_list_of_fset.rep_eq fset_inject)
  qed
  have "fmlookup (accounts s) a = fmlookup (accounts t) a" for a
  proof (cases "a |\<in>| fmdom (accounts s)")
    case True
    have "the (fmlookup (accounts s) a) = the (fmlookup (accounts t) a)"
      using assms True dom by (auto simp: accounts_sorted_def sorted_list_of_fset.rep_eq)
    with True dom show ?thesis by (metis fmdomI fmdom_notI option.collapse)
  next
    case False
    with dom show ?thesis by (metis fmdom_notD)
  qed
  then show ?thesis by (intro state.equality fmap_ext) simp_all
qed

text \<open>
  The fingerprint's preimage is unambiguous: two ledgers whose accounts are filed under their
  own addresses (of less than 4 GiB) have the same preimage only if they are the same ledger, so
  equal fingerprints mean equal ledgers unless SHA-256 collides.
\<close>

theorem fingerprint_identifies_ledger:
  assumes "hex_injective K" "fingerprint_fits s" "fingerprint_fits t"
    and "collision_free K {sandbox_state_fingerprint_preimage s, sandbox_state_fingerprint_preimage t}"
  shows "sandbox_state_fingerprint K s = sandbox_state_fingerprint K t \<longleftrightarrow> s = t"
proof
  assume "sandbox_state_fingerprint K s = sandbox_state_fingerprint K t"
  then have pre: "sandbox_state_fingerprint_preimage s = sandbox_state_fingerprint_preimage t"
    using hash_bytes_inject [OF assms(1,4)] by (simp add: sandbox_state_fingerprint_def)
  have len: "length (accounts_sorted x) < 2 ^ 64" if "fingerprint_fits x" for x
    using that by (simp add: fingerprint_fits_def account_count_def accounts_sorted_def sorted_list_of_fset.rep_eq fcard.rep_eq)
  from pre have "u64_to_be (word_of_nat (length (accounts_sorted s))) @ concat (map account_preimage (accounts_sorted s)) =
      u64_to_be (word_of_nat (length (accounts_sorted t))) @ concat (map account_preimage (accounts_sorted t))"
    using len [OF assms(2)] len [OF assms(3)] by (simp add: sandbox_state_fingerprint_preimage_def Let_def)
  from u64_field.put_prefix_free [OF _ _ this] have eq: "(word_of_nat (length (accounts_sorted s)) :: u64) = word_of_nat (length (accounts_sorted t))"
    "concat (map account_preimage (accounts_sorted s)) = concat (map account_preimage (accounts_sorted t))" by simp_all
  have "length (accounts_sorted s) = length (accounts_sorted t)"
    using arg_cong [OF eq(1), of unat] len [OF assms(2)] len [OF assms(3)] by (simp add: unat_of_nat)
  from accounts_preimage_inject [OF eq(2) this] accounts_sorted_entries [OF assms(2)] accounts_sorted_entries [OF assms(3)]
  show "s = t" by (intro accounts_sorted_inject) blast
qed simp

section \<open>The sandbox predicts the chain\<close>

text \<open>The blocks of a list are linked upward from \<open>prev\<close>, each with ancestry that validates.\<close>

fun linked_from :: "block_index \<Rightarrow> string \<Rightarrow> string list \<Rightarrow> bool" where
  "linked_from idx prev [] = True"
| "linked_from idx prev (h # hs) =
    (validate_block_ancestry idx h = Inr () \<and> (\<exists>e. index_get idx h = Some e \<and> parent_hash e = prev) \<and> linked_from idx h hs)"

lemma linked_from_append: "linked_from idx prev (xs @ ys) \<longleftrightarrow> linked_from idx prev xs \<and> linked_from idx (last (prev # xs)) ys"
  by (induction xs arbitrary: prev) auto

lemma check_apply_linked: "check_apply idx prev hs = Inr () \<Longrightarrow> linked_from idx prev hs"
  by (induction idx prev hs rule: check_apply.induct) (auto simp: and_then_Inr_iff split: if_splits)

lemma check_rollback_linked: "check_rollback idx fork hs = Inr () \<Longrightarrow> linked_from idx fork (rev hs)"
proof (induction hs)
  case (Cons h hs)
  have "last (fork # rev hs) = (case hs of [] \<Rightarrow> fork | next # _ \<Rightarrow> next)" by (cases hs) simp_all
  with Cons show ?case by (auto simp: linked_from_append and_then_Inr_iff simp del: last.simps split: if_splits)
qed simp

lemma apply_block_to_state_ok:
  "apply_block_to_state K m idx s b h = (s', Inr ()) \<longleftrightarrow>
     block_hash b = h \<and> (\<exists>e. index_get idx h = Some e \<and> height b = bie_height e \<and> previous_hash b = parent_hash e) \<and>
     (is_genesis b \<or> (\<exists>p. resolve_parent_block m (previous_hash b) = Inr p \<and>
        unat (timestamp_unix p) + unat (min_block_interval_secs (rs_consensus m)) \<le> unat (timestamp_unix b))) \<and>
     block_basic_validate K b = Inr () \<and> apply_block_txs K s b = (s', Inr ())"
proof -
  have "validate_block_against_index b idx h = Inr () \<longleftrightarrow> block_hash b = h \<and>
      (\<exists>e. index_get idx h = Some e \<and> height b = bie_height e \<and> previous_hash b = parent_hash e)"
    by (auto simp: validate_block_against_index_def and_then_Inr_iff)
  moreover have "validate_timestamp_vs_parent m b h = Inr () \<longleftrightarrow>
      is_genesis b \<or> (\<exists>p. resolve_parent_block m (previous_hash b) = Inr p \<and>
        unat (timestamp_unix p) + unat (min_block_interval_secs (rs_consensus m)) \<le> unat (timestamp_unix b))"
    by (auto simp: validate_timestamp_vs_parent_def and_then_Inr_iff timestamps_ok_iff)
  ultimately show ?thesis
    by (auto simp: apply_block_to_state_def apply_block_txs_def split: sum.splits prod.splits)
qed

text \<open>A block that replays sits above its parent: a root would have to be the genesis block.\<close>

lemma replayed_link:
  assumes "apply_block_to_state K m idx s b h = (s', Inr ())" "validate_block_ancestry idx h = Inr ()"
    and "index_get idx h = Some e"
  shows "index_up idx h = Some (parent_hash e) \<and> height b \<noteq> 0"
proof -
  from assms(1,3) have b: "height b = bie_height e" "previous_hash b = parent_hash e" "block_basic_validate K b = Inr ()"
    by (auto simp: apply_block_to_state_ok)
  have "parent_hash e \<noteq> []"
  proof
    assume blank: "parent_hash e = []"
    with b(2,3) have "height b \<noteq> 0" by (auto simp: genesis_basic_validate_ok)
    with b(1) assms(2,3) blank show False
      by (auto simp: ancestry_ok path_ok rooted_def seg_Cons index_up_iff validated_parent_ok elim: seg.cases)
  qed
  with ancestry_link [OF assms(2,3)] have up: "index_up idx h = Some (parent_hash e)" by blast
  with assms(3) b(1) show ?thesis by (auto simp: index_up_iff)
qed

definition material_consistent :: "replay_sandbox_material \<Rightarrow> bool" where
  "material_consistent m \<longleftrightarrow> (\<forall>k p b. fmlookup (parent_blocks_by_hash m) k = Some p \<longrightarrow>
     fmlookup (blocks_by_hash m) k = Some b \<longrightarrow> p = b)"

abbreviation body :: "replay_sandbox_material \<Rightarrow> string \<Rightarrow> block" where
  "body m h \<equiv> the (fmlookup (blocks_by_hash m) h)"

text \<open>The chain stands at the block \<open>prev\<close> of the index, under the sandbox's consensus parameters.\<close>

definition stands_at :: "replay_sandbox_material \<Rightarrow> block_index \<Rightarrow> string \<Rightarrow> blockchain \<Rightarrow> bool" where
  "stands_at m idx prev bc \<longleftrightarrow> bc_blocks bc \<noteq> [] \<and> bc_consensus bc = rs_consensus m \<and>
     resolve_parent_block m prev = Inr (last (bc_blocks bc)) \<and>
     (\<exists>e. index_get idx prev = Some e \<and> bie_height e = height (last (bc_blocks bc)))"

lemma resolve_parent_hash: "resolve_parent_block m k = Inr p \<Longrightarrow> block_hash p = k"
  by (auto simp: resolve_parent_block_def and_then_Inr_iff split: if_splits)

lemma resolve_own_body:
  assumes "material_consistent m" "fmlookup (blocks_by_hash m) h = Some b" "block_hash b = h"
  shows "resolve_parent_block m h = Inr b"
  using assms by (auto simp: resolve_parent_block_def material_consistent_def split: option.split)

lemma replay_step_appends:
  assumes "material_consistent m" "stands_at m idx prev bc" "fmlookup (blocks_by_hash m) h = Some b"
    and "validate_block_ancestry idx h = Inr ()" "index_get idx h = Some e" "parent_hash e = prev"
    and "apply_block_to_state K m idx (bc_state bc) b h = (s', Inr ())"
  shows "\<exists>bc'. append_block K bc b = (bc', Inr ()) \<and> stands_at m idx h bc' \<and> bc_state bc' = s'"
proof -
  let ?tip = "last (bc_blocks bc)"
  from replayed_link [OF assms(7,4,5)] have up: "index_up idx h = Some prev" and nz: "height b \<noteq> 0" using assms(6) by simp_all
  from assms(2) obtain pe where pe: "index_get idx prev = Some pe" "bie_height pe = height ?tip"
    and rp: "resolve_parent_block m prev = Inr ?tip" by (auto simp: stands_at_def)
  from up assms(5) pe(1) have "bie_height e = bie_height pe + 1" by (auto simp: index_up_iff validated_parent_ok checked_add_Some_iff)
  with assms(5,6,7) pe(2) have b: "height b = height ?tip + 1" "previous_hash b = prev" "block_hash b = h"
    "block_basic_validate K b = Inr ()" "apply_block_txs K (bc_state bc) b = (s', Inr ())" "bie_height e = height b"
    by (auto simp: apply_block_to_state_ok)
  have "valid_link K (min_block_interval_secs (bc_consensus bc)) ?tip b"
    using b rp nz assms(2,7) resolve_parent_hash [OF rp]
    by (auto simp: valid_link_def apply_block_to_state_ok is_genesis_def stands_at_def)
  then have "append_block K bc b = (bc\<lparr>bc_state := s', bc_blocks := bc_blocks bc @ [b]\<rparr>, Inr ())"
    using b(5) assms(2) by (simp add: append_block_ok stands_at_def)
  moreover have "stands_at m idx h (bc\<lparr>bc_state := s', bc_blocks := bc_blocks bc @ [b]\<rparr>)"
    using assms(2,5) b(6) resolve_own_body [OF assms(1,3) b(3)] by (simp add: stands_at_def)
  ultimately show ?thesis by simp
qed

lemma replay_appends:
  assumes "material_consistent m" "linked_from idx prev hs" "stands_at m idx prev bc"
    and "replay_hashes K m idx (bc_state bc) hs = Some (Inr s')"
  shows "\<exists>bc'. run_steps (append_block K) bc (map (body m) hs) = (bc', Inr ()) \<and> bc_state bc' = s'"
  using assms(2-)
proof (induction hs arbitrary: prev bc)
  case (Cons h hs)
  from Cons.prems(3) obtain b s1 where b: "fmlookup (blocks_by_hash m) h = Some b"
    and s1: "apply_block_to_state K m idx (bc_state bc) b h = (s1, Inr ())" "replay_hashes K m idx s1 hs = Some (Inr s')"
    by (auto split: option.splits prod.splits sum.splits)
  from Cons.prems(1) obtain e where e: "validate_block_ancestry idx h = Inr ()" "index_get idx h = Some e" "parent_hash e = prev"
    and link: "linked_from idx h hs" by auto
  from replay_step_appends [OF assms(1) Cons.prems(2) b e s1(1)] obtain bc1 where
    bc1: "append_block K bc b = (bc1, Inr ())" "stands_at m idx h bc1" "bc_state bc1 = s1" by blast
  from Cons.IH [OF link bc1(2)] bc1 s1(2) b show ?case by simp
qed simp

lemma replay_hashes_total:
  "\<forall>h \<in> set hs. fmlookup (blocks_by_hash m) h \<noteq> None \<Longrightarrow> \<exists>r. replay_hashes K m idx s hs = Some r"
proof (induction hs arbitrary: s)
  case (Cons h hs)
  then obtain b where b: "fmlookup (blocks_by_hash m) h = Some b" by auto
  obtain s1 r1 where "apply_block_to_state K m idx s b h = (s1, r1)" by fastforce
  with Cons b show ?case by (cases r1) auto
qed simp

lemma require_bodies_ok: "require_bodies m hs = Inr () \<longleftrightarrow> (\<forall>h \<in> set hs. fmlookup (blocks_by_hash m) h \<noteq> None)"
  by (auto simp: require_bodies_def)

lemma run_replay_total: "\<exists>r. run_replay_on_clones K p idx m = Some r"
proof (cases "(rollback_ordered p \<noteq> [] \<longrightarrow> expected_state_at_old_tip m \<noteq> None) \<and>
    require_bodies m (rollback_ordered p @ apply_ordered p) = Inr ()")
  case False
  then show ?thesis
    by (cases "require_bodies m (rollback_ordered p @ apply_ordered p)") (auto simp: run_replay_on_clones_def)
next
  case True
  then have bodies: "\<forall>h \<in> set (rev (rollback_ordered p)). fmlookup (blocks_by_hash m) h \<noteq> None"
    "\<forall>h \<in> set (apply_ordered p). fmlookup (blocks_by_hash m) h \<noteq> None" by (auto simp: require_bodies_ok)
  obtain r1 r2 where "replay_hashes K m idx (state_at_fork m) (rev (rollback_ordered p)) = Some r1"
    "replay_hashes K m idx (state_at_fork m) (apply_ordered p) = Some r2"
    using replay_hashes_total [OF bodies(1)] replay_hashes_total [OF bodies(2)] by blast
  with True show ?thesis
    by (cases r1; cases r2) (auto simp: run_replay_on_clones_def verify_old_branch_def Let_def)
qed

lemma run_replay_ok:
  "run_replay_on_clones K p idx m = Some (Inr ok) \<longleftrightarrow>
     (\<forall>h \<in> set (rollback_ordered p @ apply_ordered p). fmlookup (blocks_by_hash m) h \<noteq> None) \<and>
     (rollback_ordered p \<noteq> [] \<longrightarrow> (\<exists>walk expected. expected_state_at_old_tip m = Some expected \<and>
        replay_hashes K m idx (state_at_fork m) (rev (rollback_ordered p)) = Some (Inr walk) \<and>
        sandbox_state_fingerprint K walk = sandbox_state_fingerprint K expected)) \<and>
     (\<exists>s'. replay_hashes K m idx (state_at_fork m) (apply_ordered p) = Some (Inr s') \<and>
        total_balance_sum s' = Inr (final_supply_total ok) \<and>
        final_state_fingerprint ok = sandbox_state_fingerprint K s' \<and>
        rollback_blocks_verified ok = length (rollback_ordered p) \<and> apply_blocks_simulated ok = length (apply_ordered p))"
proof -
  have old: "verify_old_branch K p idx m = Some (Inr ()) \<longleftrightarrow> (rollback_ordered p \<noteq> [] \<longrightarrow> (\<exists>walk expected.
      expected_state_at_old_tip m = Some expected \<and>
      replay_hashes K m idx (state_at_fork m) (rev (rollback_ordered p)) = Some (Inr walk) \<and>
      sandbox_state_fingerprint K walk = sandbox_state_fingerprint K expected))"
    by (auto simp: verify_old_branch_def Let_def split: option.split sum.split)
  have ok: "Inr \<lparr>rollback_blocks_verified = a, apply_blocks_simulated = b, final_state_fingerprint = c, final_supply_total = d\<rparr> = Inr ok \<longleftrightarrow>
      rollback_blocks_verified ok = a \<and> apply_blocks_simulated ok = b \<and> final_state_fingerprint ok = c \<and> final_supply_total ok = d" for a b c d
    by (cases ok) auto
  show ?thesis
    unfolding run_replay_on_clones_def old [symmetric] require_bodies_ok [symmetric]
    by (cases "require_bodies m (rollback_ordered p @ apply_ordered p)"; cases "verify_old_branch K p idx m")
      (auto simp: and_then_Inr_iff ok old split: option.split sum.split)
qed

text \<open>
  C37. The sandbox always delivers a report, and it predicts the chain: when it reports a completed
  replay of material whose parent blocks are the supplied bodies wherever both are given, then on every chain that stands at the fork block with the fork state, appending the
  plan's blocks in order succeeds block by block and ends in a state with the reported fingerprint
  and supply; and if blocks were to be rolled back, they too append from the fork, to a state with
  the fingerprint of the expected old tip.
\<close>

theorem sandbox_predicts_chain:
  "\<exists>r. run_report K p idx policy m = Some r \<and>
     (\<forall>ok bc. rr_replay r = Completed (Inr ok) \<and> material_consistent m \<and>
        stands_at m idx (plan_fork_hash p) bc \<and> bc_state bc = state_at_fork m \<longrightarrow>
        (\<exists>bc'. run_steps (append_block K) bc (map (body m) (apply_ordered p)) = (bc', Inr ()) \<and>
           final_state_fingerprint ok = sandbox_state_fingerprint K (bc_state bc') \<and>
           total_balance_sum (bc_state bc') = Inr (final_supply_total ok)) \<and>
        (rollback_ordered p \<noteq> [] \<longrightarrow> (\<exists>bo. run_steps (append_block K) bc (map (body m) (rev (rollback_ordered p))) = (bo, Inr ()) \<and>
           (\<exists>expected. expected_state_at_old_tip m = Some expected \<and>
              sandbox_state_fingerprint K (bc_state bo) = sandbox_state_fingerprint K expected))))"
proof -
  obtain rep where rep: "run_replay_on_clones K p idx m = Some rep" using run_replay_total by blast
  then obtain r where r: "run_report K p idx policy m = Some r"
    by (cases "validate_against_index p idx"; cases "pf_verdict (preflight_evaluate p idx policy)") (auto simp: run_report_def Let_def)
  show ?thesis
  proof (cases "validate_against_index p idx = Inr () \<and> (\<exists>ok. rr_replay r = Completed (Inr ok))")
    case False
    then have "rr_replay r \<noteq> Completed (Inr ok)" for ok
      using r rep by (cases "validate_against_index p idx") (auto simp: run_report_def Let_def)
    with r show ?thesis by simp
  next
    case True
    then have "linked_from idx (plan_fork_hash p) (apply_ordered p)" "linked_from idx (plan_fork_hash p) (rev (rollback_ordered p))"
      by (auto simp: validate_against_index_def and_then_Inr_iff check_apply_linked check_rollback_linked)
    note app = replay_appends [OF _ this(1)] and old = replay_appends [OF _ this(2)]
    from True obtain ok where ok: "rr_replay r = Completed (Inr ok)" by blast
    with r rep True have "rep = Inr ok"
      by (cases "pf_verdict (preflight_evaluate p idx policy)") (auto simp: run_report_def Let_def)
    note rok = rep [unfolded this run_replay_ok]
    show ?thesis
    proof (intro exI [of _ r] conjI r allI impI)
      fix ok' bc
      assume a: "rr_replay r = Completed (Inr ok') \<and> material_consistent m \<and>
        stands_at m idx (plan_fork_hash p) bc \<and> bc_state bc = state_at_fork m"
      with ok have ok': "ok' = ok" by simp
      show "\<exists>bc'. run_steps (append_block K) bc (map (body m) (apply_ordered p)) = (bc', Inr ()) \<and>
           final_state_fingerprint ok' = sandbox_state_fingerprint K (bc_state bc') \<and>
           total_balance_sum (bc_state bc') = Inr (final_supply_total ok')"
        using rok a app [of m bc K] ok' by fastforce
      show "\<exists>bo. run_steps (append_block K) bc (map (body m) (rev (rollback_ordered p))) = (bo, Inr ()) \<and>
           (\<exists>expected. expected_state_at_old_tip m = Some expected \<and>
              sandbox_state_fingerprint K (bc_state bo) = sandbox_state_fingerprint K expected)" if "rollback_ordered p \<noteq> []"
        using rok a old [of m bc K] that by fastforce
    qed
  qed
qed

end
