(* ===== verification/Examples_V3.thy ===== *)
theory Examples_V3
  imports Examples Branch_Select Replay_Sandbox
begin

text \<open>
  The properties of the reorganisation tooling on the small network of \<open>Examples\<close>: an index with
  the genesis block and the one block above it, and the plan that applies this block.
\<close>

definition G :: string where "G = ''GENESIS_HASH''"
definition H :: string where "H = block_hash ex_block"

definition ex_index :: block_index where
  "ex_index = fst (index_insert (fst (index_insert index_new G \<lparr>parent_hash = [], bie_height = 0\<rparr>)) H \<lparr>parent_hash = G, bie_height = 1\<rparr>)"

definition ex_plan :: reorg_plan where
  "ex_plan = \<lparr>plan_fork_hash = G, rollback_ordered = [], apply_ordered = [H]\<rparr>"

definition ex_material :: replay_sandbox_material where
  "ex_material = \<lparr>state_at_fork = ex_state, blocks_by_hash = fmupd H ex_block fmempty, expected_state_at_old_tip = None,
     rs_consensus = default_consensus_params, parent_blocks_by_hash = fmupd G genesis_block fmempty\<rparr>"

lemma GH: "G \<noteq> []" "H \<noteq> []" "G \<noteq> H" "H \<noteq> G"
proof -
  have "hex64 H"
    unfolding H_def ex_block_def by (subst sealed_block_hash) (simp add: compute_block_hash_def hash_bytes_hex64 toy_digest_format)
  then show "G \<noteq> []" "H \<noteq> []" "G \<noteq> H" "H \<noteq> G"
    using hex64_nonempty genesis_not_hex64 by (auto simp: G_def)
qed

lemma ex_index_get:
  "index_get ex_index G = Some \<lparr>parent_hash = [], bie_height = 0\<rparr>"
  "index_get ex_index H = Some \<lparr>parent_hash = G, bie_height = 1\<rparr>"
  "index_get ex_index [] = None" "index_len ex_index = 2"
  using GH by (simp_all add: ex_index_def index_get_def index_insert_def index_new_def index_len_def fcard.rep_eq)

lemma ex_paths:
  "path_from_tip_toward_genesis ex_index G = Inr [G]"
  "path_from_tip_toward_genesis ex_index H = Inr [H, G]"
proof -
  have rounds: "index_len ex_index + 2 = Suc (Suc (Suc (Suc 0)))" by (simp add: ex_index_get)
  have "validated_parent_hash ex_index H \<lparr>parent_hash = G, bie_height = 1\<rparr> = Inr G"
    using GH by (simp add: validated_parent_hash_def ex_index_get checked_add_def)
  with GH show "path_from_tip_toward_genesis ex_index G = Inr [G]"
    "path_from_tip_toward_genesis ex_index H = Inr [H, G]"
    unfolding path_from_tip_toward_genesis_def rounds by (simp_all add: ex_index_get(1,2))
qed

lemma ex_ancestry: "validate_block_ancestry ex_index G = Inr ()" "validate_block_ancestry ex_index H = Inr ()"
  by (simp_all add: ancestry_ok ex_paths ex_index_get)

lemma ex_plan_valid: "validate_against_index ex_plan ex_index = Inr ()"
  using GH by (simp add: validate_against_index_def ex_plan_def ex_ancestry segment_checks_ok ex_index_get and_then_Inr_iff)

theorem validate_plan_witness:
  "index_get ex_index [] = None \<and> validate_against_index ex_plan ex_index = Inr () \<and>
   try_from_tips ex_index G H = Inr ex_plan"
  using validate_iff_planned [OF ex_index_get(3), of ex_plan] ex_plan_valid ex_index_get(3)
  by (simp add: ex_plan_def)

theorem select_tip_witness:
  "select_preferred_tip [\<lparr>tip_height = 1, tip_block_hash = ''a''\<rparr>, \<lparr>tip_height = 2, tip_block_hash = ''b''\<rparr>] =
     Some \<lparr>tip_height = 2, tip_block_hash = ''b''\<rparr>"
proof -
  let ?ts = "[\<lparr>tip_height = 1, tip_block_hash = ''a''\<rparr>, \<lparr>tip_height = 2, tip_block_hash = ''b''\<rparr>]"
  have "\<forall>u \<in> set ?ts. compare_tips_for_selection u \<lparr>tip_height = 2, tip_block_hash = ''b''\<rparr> \<noteq> Ord_Greater"
    by code_simp
  with select_preferred_tip_spec [of ?ts] show ?thesis by simp
qed

section \<open>Fingerprints\<close>

definition one_account :: "u64 \<Rightarrow> state" where
  "one_account n = \<lparr>accounts = fmupd (Address ''a'') \<lparr>acc_address = Address ''a'', balance = 7, acc_nonce = n\<rparr> fmempty\<rparr>"

lemma one_account_sorted:
  "accounts_sorted (one_account n) = [(Address ''a'', \<lparr>acc_address = Address ''a'', balance = 7, acc_nonce = n\<rparr>)]"
  by (simp add: accounts_sorted_def one_account_def sorted_list_of_fset.rep_eq)

lemma one_account_fits: "fingerprint_fits (one_account n)"
  by (simp add: fingerprint_fits_def accounts_wf_def account_count_def one_account_def fcard.rep_eq)

theorem fingerprint_witness:
  "sandbox_state_fingerprint toy_crypto (one_account 0) \<noteq> sandbox_state_fingerprint toy_crypto (one_account 1)"
proof -
  have "sha256 toy_crypto (sandbox_state_fingerprint_preimage (one_account 0)) \<noteq>
    sha256 toy_crypto (sandbox_state_fingerprint_preimage (one_account 1))"
    by (rule digest_diff [of 0])
      (simp_all add: sandbox_state_fingerprint_preimage_def one_account_sorted account_preimage_def Let_def rev_nth nth_append, code_simp)
  then have "collision_free toy_crypto {sandbox_state_fingerprint_preimage (one_account 0), sandbox_state_fingerprint_preimage (one_account 1)}"
    by (auto simp: collision_free_def)
  from fingerprint_identifies_ledger [OF toy_hex_injective one_account_fits one_account_fits this]
  have "sandbox_state_fingerprint toy_crypto (one_account 0) = sandbox_state_fingerprint toy_crypto (one_account 1) \<longleftrightarrow>
    one_account 0 = one_account 1" .
  moreover have "accounts_sorted (one_account 0) \<noteq> accounts_sorted (one_account 1)" by (simp add: one_account_sorted)
  ultimately show ?thesis by metis
qed

section \<open>The sandbox\<close>

lemma ex_replay: "replay_hashes toy_crypto ex_material ex_index ex_state [H] = Some (Inr ex_state2)"
proof -
  have "apply_block_to_state toy_crypto ex_material ex_index ex_state ex_block H = (ex_state2, Inr ())"
    unfolding apply_block_to_state_ok
  proof (intro conjI)
    show "block_hash ex_block = H" by (simp add: H_def)
    have "height ex_block = 1" "previous_hash ex_block = G" by (simp_all add: ex_block_def genesis_block_def G_def)
    then show "\<exists>e. index_get ex_index H = Some e \<and> height ex_block = bie_height e \<and> previous_hash ex_block = parent_hash e"
      by (simp add: ex_index_get)
    have "resolve_parent_block ex_material G = Inr genesis_block"
      by (simp add: resolve_parent_block_def ex_material_def genesis_block_def G_def)
    then show "is_genesis ex_block \<or> (\<exists>p. resolve_parent_block ex_material (previous_hash ex_block) = Inr p \<and>
        unat (timestamp_unix p) + unat (min_block_interval_secs (rs_consensus ex_material)) \<le> unat (timestamp_unix ex_block))"
      using ex_block_valid \<open>previous_hash ex_block = G\<close>
      by (simp add: valid_link_def ex_material_def default_consensus_params_def)
    show "block_basic_validate toy_crypto ex_block = Inr ()" using ex_block_valid by (simp add: valid_link_def)
    show "apply_block_txs toy_crypto ex_state ex_block = (ex_state2, Inr ())"
      using ex_run by (simp add: apply_block_txs_def ex_block_def)
  qed
  then show ?thesis by (simp add: ex_material_def)
qed

theorem sandbox_witness:
  "\<exists>r ok. run_report toy_crypto ex_plan ex_index \<lparr>max_reorg_depth = 8\<rparr> ex_material = Some r \<and>
     rr_replay r = Completed (Inr ok) \<and> material_consistent ex_material \<and>
     stands_at ex_material ex_index (plan_fork_hash ex_plan) ex_chain0 \<and>
     (\<exists>bc'. run_steps (append_block toy_crypto) ex_chain0 [ex_block] = (bc', Inr ()) \<and>
        final_state_fingerprint ok = sandbox_state_fingerprint toy_crypto (bc_state bc'))"
proof -
  have fork: "rollback_ordered ex_plan = []" "apply_ordered ex_plan = [H]" "plan_fork_hash ex_plan = G"
    and m: "state_at_fork ex_material = ex_state" "fmlookup (blocks_by_hash ex_material) H = Some ex_block"
    by (simp_all add: ex_plan_def ex_material_def)
  have "total_supply ex_state2 < 2 ^ 64"
    using ledger_run.accepted_burn [OF ex_apply1] ledger_run.accepted_burn [OF ex_apply2] ex_supply by simp
  then obtain t where t: "total_balance_sum ex_state2 = Inr t" by (simp add: total_balance_sum_eq)
  obtain r where r: "run_report toy_crypto ex_plan ex_index \<lparr>max_reorg_depth = 8\<rparr> ex_material = Some r"
    "\<exists>ok. rr_replay r = Completed (Inr ok)"
    by (simp add: run_report_def ex_plan_valid preflight_evaluate_def fork is_noop_def check_policy_def
        run_replay_on_clones_def verify_old_branch_def require_bodies_def m ex_replay t Let_def del: replay_hashes.simps)
  moreover have c: "material_consistent ex_material" using GH by (simp add: material_consistent_def ex_material_def)
  moreover have s: "stands_at ex_material ex_index (plan_fork_hash ex_plan) ex_chain0"
    by (simp add: stands_at_def ex_chain0_eq(2) ex_plan_def ex_index_get ex_material_def resolve_parent_block_def)
      (simp add: genesis_block_def G_def)
  moreover have "bc_state ex_chain0 = state_at_fork ex_material" by (simp add: ex_chain0_eq(2) m)
  moreover have "map (body ex_material) (apply_ordered ex_plan) = [ex_block]" by (simp add: fork m)
  ultimately show ?thesis
    using sandbox_predicts_chain [of toy_crypto ex_plan ex_index "\<lparr>max_reorg_depth = 8\<rparr>" ex_material]
    by (metis (no_types, lifting) option.inject)
qed

end
