(* ===== verification/Storage.thy ===== *)
theory Storage
  imports Blockchain Encoding
begin

unbundle bit_operations_syntax

text \<open>
  \<open>storage.rs\<close>: the append-only block file.  A file is its bytes, \<open>None\<close> if it does not exist.
  What the operating system does with a write is a parameter of \<open>append_payload\<close>: an \<open>io_plan\<close>
  says for each \<open>write_all\<close> whether it succeeds or fails after some bytes have reached the file, and
  for each \<open>sync_all\<close> whether it succeeds.  Opening and reading an existing file is taken to succeed.
\<close>

definition MAX_FRAME_BYTES :: nat where "MAX_FRAME_BYTES = 64 * 1024 * 1024"

definition CHAIN_FILE_MAGIC_V2 :: bytes where "CHAIN_FILE_MAGIC_V2 = as_bytes ''TRILBC01''"

datatype chain_file_format = Legacy | V2

datatype storage_error = Io string | Decode string | Replay protocol_error | Genesis string

section \<open>Checksum\<close>

text \<open>One round of the inner loop, on the least significant bit.\<close>

definition crc_round :: "u32 \<Rightarrow> u32" where
  "crc_round c = (if c AND 1 \<noteq> 0 then drop_bit 1 c XOR 0xEDB88320 else drop_bit 1 c)"

definition crc_byte :: "u32 \<Rightarrow> u8 \<Rightarrow> u32" where
  "crc_byte c b = (crc_round ^^ 8) (c XOR ucast b)"

definition crc32_ieee :: "bytes \<Rightarrow> u32" where
  "crc32_ieee payload = NOT (foldl crc_byte 0xFFFFFFFF payload)"

section \<open>Writing\<close>

record block_store =
  bs_file :: bytes
  poisoned :: bool
  bs_format :: chain_file_format
  v2_magic_on_disk :: bool

definition open_append :: "bytes option \<Rightarrow> string + block_store" where
  "open_append file =
    (let data = (case file of None \<Rightarrow> [] | Some d \<Rightarrow> d) in
     if length data = 0
     then Inr \<lparr>bs_file = data, poisoned = False, bs_format = V2, v2_magic_on_disk = False\<rparr>
     else if length data < length CHAIN_FILE_MAGIC_V2
     then Inl ''chain.blocks: file too short''
     else if take 8 data = CHAIN_FILE_MAGIC_V2
     then Inr \<lparr>bs_file = data, poisoned = False, bs_format = V2, v2_magic_on_disk = True\<rparr>
     else Inr \<lparr>bs_file = data, poisoned = False, bs_format = Legacy, v2_magic_on_disk = False\<rparr>)"

text \<open>\<open>Some k\<close>: the write fails after \<open>k\<close> bytes have reached the file.\<close>

record io_plan =
  magic_write :: "nat option"
  magic_sync :: bool
  frame_write :: "nat option"
  frame_sync :: bool

definition write_all :: "nat option \<Rightarrow> bytes \<Rightarrow> bytes \<Rightarrow> bytes \<times> (string + unit)" where
  "write_all outcome data file =
    (case outcome of None \<Rightarrow> (file @ data, Inr ()) | Some k \<Rightarrow> (file @ take k data, Inl ''write failed''))"

definition sync_all :: "bool \<Rightarrow> string + unit" where
  "sync_all ok = (if ok then Inr () else Inl ''sync failed'')"

definition frame_bytes :: "chain_file_format \<Rightarrow> u32 \<Rightarrow> bytes \<Rightarrow> bytes" where
  "frame_bytes fmt len payload =
    (case fmt of
       Legacy \<Rightarrow> u32_to_be len @ payload
     | V2 \<Rightarrow> u32_to_be len @ payload @ u32_to_be (crc32_ieee payload))"

text \<open>The closure of \<open>append_payload\<close>: the one-time magic, then the frame.\<close>

definition write_magic :: "io_plan \<Rightarrow> block_store \<Rightarrow> block_store \<times> (string + unit)" where
  "write_magic io st =
    (if bs_format st = V2 \<and> \<not> v2_magic_on_disk st then
       (case write_all (magic_write io) CHAIN_FILE_MAGIC_V2 (bs_file st) of
          (f, Inl e) \<Rightarrow> (st\<lparr>bs_file := f\<rparr>, Inl e)
        | (f, Inr _) \<Rightarrow>
          (case sync_all (magic_sync io) of
             Inl e \<Rightarrow> (st\<lparr>bs_file := f\<rparr>, Inl e)
           | Inr _ \<Rightarrow> (st\<lparr>bs_file := f, v2_magic_on_disk := True\<rparr>, Inr ())))
     else (st, Inr ()))"

definition write_frame :: "io_plan \<Rightarrow> block_store \<Rightarrow> u32 \<Rightarrow> bytes \<Rightarrow> block_store \<times> (string + unit)" where
  "write_frame io st len payload =
    (case write_magic io st of
       (st, Inl e) \<Rightarrow> (st, Inl e)
     | (st, Inr _) \<Rightarrow>
       (case write_all (frame_write io) (frame_bytes (bs_format st) len payload) (bs_file st) of
          (f, Inl e) \<Rightarrow> (st\<lparr>bs_file := f\<rparr>, Inl e)
        | (f, Inr _) \<Rightarrow> (st\<lparr>bs_file := f\<rparr>, sync_all (frame_sync io))))"

definition append_payload :: "io_plan \<Rightarrow> block_store \<Rightarrow> bytes \<Rightarrow> block_store \<times> (string + unit)" where
  "append_payload io st payload =
    (if poisoned st then (st, Inl ''fail-closed: refusing chain.blocks append after a prior write/sync failure'')
     else case u32_try_from (length payload) of
       None \<Rightarrow> (st, Inl ''encoded block exceeds u32 frame length'')
     | Some len \<Rightarrow>
       if unat len > MAX_FRAME_BYTES then (st, Inl ''encoded block exceeds MAX_FRAME_BYTES'')
       else (case write_frame io st len payload of
          (st, Inl e) \<Rightarrow> (st\<lparr>poisoned := True\<rparr>, Inl e)
        | (st, Inr _) \<Rightarrow> (st, Inr ())))"

text \<open>\<open>None\<close>: the encoder panics on a length of 4 GiB or more.\<close>

definition store_append_block :: "io_plan \<Rightarrow> block_store \<Rightarrow> block \<Rightarrow> (block_store \<times> (string + unit)) option" where
  "store_append_block io st b = map_option (append_payload io st) (encode_block b)"

section \<open>Reading\<close>

text \<open>
  The bodies of the four parsing loops: one frame from the front of the data that is left.  The
  strict parsers report a partial frame as an error; the prefix parsers stop before it, which is
  the value \<open>Inr None\<close>.
\<close>

definition decode_payload :: "bytes \<Rightarrow> storage_error + block" where
  "decode_payload payload = map_err (\<lambda>e. Decode (encode_error_text e)) (decode_block payload)"

definition legacy_frame :: "bytes \<Rightarrow> storage_error + (block \<times> bytes)" where
  "legacy_frame data =
    (if length data < 4 then Inl (Decode ''truncated frame length'')
     else let len = unat (u32_of_be (take 4 data)); r = drop 4 data in
     if len > MAX_FRAME_BYTES then Inl (Decode ''frame exceeds max size'')
     else if length r < len then Inl (Decode ''truncated frame body'')
     else and_then (decode_payload (take len r)) (\<lambda>b. Inr (b, drop len r)))"

definition v2_frame :: "bytes \<Rightarrow> storage_error + (block \<times> bytes)" where
  "v2_frame data =
    (if length data < 4 then Inl (Decode ''truncated frame length (v2)'')
     else let len = unat (u32_of_be (take 4 data)); r = drop 4 data in
     if len > MAX_FRAME_BYTES then Inl (Decode ''frame exceeds max size (v2)'')
     else if length r < len + 4 then Inl (Decode ''truncated v2 frame (crc or body)'')
     else let payload = take len r; stored_crc = u32_of_be (take 4 (drop len r)) in
       if stored_crc \<noteq> crc32_ieee payload then Inl (Decode ''v2 frame crc mismatch'')
       else and_then (decode_payload payload) (\<lambda>b. Inr (b, drop (len + 4) r)))"

definition legacy_frame_prefix :: "bytes \<Rightarrow> storage_error + (block \<times> bytes) option" where
  "legacy_frame_prefix data =
    (if length data < 4 then Inr None
     else let len = unat (u32_of_be (take 4 data)); r = drop 4 data in
     if len > MAX_FRAME_BYTES then Inl (Decode ''frame exceeds max size'')
     else if length r < len then Inr None
     else and_then (decode_payload (take len r)) (\<lambda>b. Inr (Some (b, drop len r))))"

definition v2_frame_prefix :: "bytes \<Rightarrow> storage_error + (block \<times> bytes) option" where
  "v2_frame_prefix data =
    (if length data < 4 then Inr None
     else let len = unat (u32_of_be (take 4 data)); r = drop 4 data in
     if len > MAX_FRAME_BYTES then Inl (Decode ''frame exceeds max size (v2)'')
     else if length r < len + 4 then Inr None
     else let payload = take len r; stored_crc = u32_of_be (take 4 (drop len r)) in
       if stored_crc \<noteq> crc32_ieee payload then Inl (Decode ''v2 frame crc mismatch'')
       else and_then (decode_payload payload) (\<lambda>b. Inr (Some (b, drop (len + 4) r))))"

lemma frames_consume:
  "legacy_frame data = Inr (b, r) \<Longrightarrow> length r < length data"
  "v2_frame data = Inr (b, r) \<Longrightarrow> length r < length data"
  "legacy_frame_prefix data = Inr (Some (b, r)) \<Longrightarrow> length r < length data"
  "v2_frame_prefix data = Inr (Some (b, r)) \<Longrightarrow> length r < length data"
  by (auto simp: legacy_frame_def v2_frame_def legacy_frame_prefix_def v2_frame_prefix_def Let_def
      and_then_Inr_iff split: if_splits)

function parse_legacy_block_frames :: "bytes \<Rightarrow> storage_error + block list" where
  "parse_legacy_block_frames data =
    (if data = [] then Inr []
     else and_then (legacy_frame data) (\<lambda>(b, r).
          and_then (parse_legacy_block_frames r) (\<lambda>bs. Inr (b # bs))))"
  by auto
termination by (relation "measure length") (auto dest: frames_consume)

function parse_v2_block_frames :: "bytes \<Rightarrow> storage_error + block list" where
  "parse_v2_block_frames data =
    (if data = [] then Inr []
     else and_then (v2_frame data) (\<lambda>(b, r).
          and_then (parse_v2_block_frames r) (\<lambda>bs. Inr (b # bs))))"
  by auto
termination by (relation "measure length") (auto dest: frames_consume)

text \<open>The second component of the result is the number of bytes consumed.\<close>

function parse_legacy_block_frames_prefix :: "bytes \<Rightarrow> storage_error + (block list \<times> nat)" where
  "parse_legacy_block_frames_prefix data =
    (if data = [] then Inr ([], 0)
     else and_then (legacy_frame_prefix data) (\<lambda>fr.
       case fr of
         None \<Rightarrow> Inr ([], 0)
       | Some (b, r) \<Rightarrow> and_then (parse_legacy_block_frames_prefix r) (\<lambda>(bs, n).
           Inr (b # bs, length data - length r + n))))"
  by auto
termination by (relation "measure length") (auto dest: frames_consume)

function parse_v2_block_frames_prefix :: "bytes \<Rightarrow> storage_error + (block list \<times> nat)" where
  "parse_v2_block_frames_prefix data =
    (if data = [] then Inr ([], 0)
     else and_then (v2_frame_prefix data) (\<lambda>fr.
       case fr of
         None \<Rightarrow> Inr ([], 0)
       | Some (b, r) \<Rightarrow> and_then (parse_v2_block_frames_prefix r) (\<lambda>(bs, n).
           Inr (b # bs, length data - length r + n))))"
  by auto
termination by (relation "measure length") (auto dest: frames_consume)

declare parse_legacy_block_frames.simps [simp del] parse_v2_block_frames.simps [simp del]
  parse_legacy_block_frames_prefix.simps [simp del] parse_v2_block_frames_prefix.simps [simp del]

definition has_v2_magic :: "bytes \<Rightarrow> bool" where
  "has_v2_magic data \<longleftrightarrow> length data \<ge> length CHAIN_FILE_MAGIC_V2 \<and>
     take (length CHAIN_FILE_MAGIC_V2) data = CHAIN_FILE_MAGIC_V2"

definition read_all_blocks :: "bytes option \<Rightarrow> storage_error + block list" where
  "read_all_blocks file =
    (case file of
       None \<Rightarrow> Inr []
     | Some data \<Rightarrow>
       if data = [] then Inr []
       else if has_v2_magic data then parse_v2_block_frames (drop (length CHAIN_FILE_MAGIC_V2) data)
       else parse_legacy_block_frames data)"

text \<open>\<open>rewrite\<close> is the outcome of the final \<open>fs::write\<close>, which truncates the file first.\<close>

definition read_all_blocks_repairing_tail ::
  "nat option \<Rightarrow> bytes option \<Rightarrow> bytes option \<times> (storage_error + (block list \<times> bool))" where
  "read_all_blocks_repairing_tail rewrite file =
    (case file of
       None \<Rightarrow> (file, Inr ([], False))
     | Some data \<Rightarrow>
       if data = [] then (file, Inr ([], False))
       else
       let body_off = (if has_v2_magic data then length CHAIN_FILE_MAGIC_V2 else 0);
           body = drop body_off data;
           parsed = (if has_v2_magic data then parse_v2_block_frames_prefix body
                     else parse_legacy_block_frames_prefix body) in
       (case parsed of
          Inl e \<Rightarrow> (file, Inl e)
        | Inr (bs, consumed_in_body) \<Rightarrow>
          let valid_end = body_off + consumed_in_body;
              repaired = (valid_end < length data) in
          if repaired then
            if bs = [] \<and> consumed_in_body = 0
            then (file, Inl (Decode ''chain.blocks corrupt or truncated (no complete block frame)''))
            else if length data - valid_end \<ge> 4
            then (file, Inl (Decode ''chain.blocks truncated after last complete block frame''))
            else (case write_all rewrite (take valid_end data) [] of
                (f, Inl e) \<Rightarrow> (Some f, Inl (Io e))
              | (f, Inr _) \<Rightarrow> (Some f, Inr (bs, repaired)))
          else (file, Inr (bs, repaired))))"

definition chain_from_genesis :: "genesis \<Rightarrow> storage_error + blockchain" where
  "chain_from_genesis g =
    map_err (\<lambda>e. case e of GenesisError s \<Rightarrow> Genesis s | other \<Rightarrow> Replay other) (blockchain_from_genesis g)"

definition load_blockchain_from_disk ::
  "crypto \<Rightarrow> nat option \<Rightarrow> bytes option \<Rightarrow> genesis \<Rightarrow> bytes option \<times> (storage_error + (blockchain \<times> bool))" where
  "load_blockchain_from_disk K rewrite file g =
    (case read_all_blocks_repairing_tail rewrite file of
       (file, Inl e) \<Rightarrow> (file, Inl e)
     | (file, Inr (bs, repaired)) \<Rightarrow>
       (file, and_then (chain_from_genesis g) (\<lambda>chain.
          case run_steps (append_block K) chain bs of
            (_, Inl e) \<Rightarrow> Inl (Replay e)
          | (chain, Inr _) \<Rightarrow> Inr (chain, repaired))))"

section \<open>Frames\<close>

text \<open>A loop that stops in front of a partial frame and reports how much it consumed.\<close>

locale framing_prefix = framing put get fits loop
  for put :: "'a \<Rightarrow> bytes" and get :: "bytes \<Rightarrow> 'e + ('a \<times> bytes)" and fits :: "'a \<Rightarrow> bool"
    and loop :: "bytes \<Rightarrow> 'e + 'a list" +
  fixes get_prefix :: "bytes \<Rightarrow> 'e + ('a \<times> bytes) option"
    and loop_prefix :: "bytes \<Rightarrow> 'e + ('a list \<times> nat)"
  assumes get_prefix_put: "fits x \<Longrightarrow> get_prefix (put x @ r) = Inr (Some (x, r))"
    and get_prefix_get: "get_prefix bs = Inr (Some (x, r)) \<Longrightarrow> get bs = Inr (x, r)"
    and loop_prefix_unfold: "loop_prefix bs = (if bs = [] then Inr ([], 0)
      else and_then (get_prefix bs) (\<lambda>fr. case fr of None \<Rightarrow> Inr ([], 0)
        | Some (x, r) \<Rightarrow> and_then (loop_prefix r) (\<lambda>(xs, n). Inr (x # xs, length bs - length r + n))))"
begin

lemma loop_prefix_frames:
  assumes "t = [] \<or> get_prefix t = Inr None"
  shows "\<forall>x \<in> set xs. fits x \<Longrightarrow>
    loop_prefix (concat (map put xs) @ t) = Inr (xs, length (concat (map put xs)))"
proof (induction xs)
  case Nil
  from assms show ?case by (subst loop_prefix_unfold) auto
next
  case (Cons x xs)
  then show ?case by (subst loop_prefix_unfold) (simp add: put_nonempty get_prefix_put)
qed

lemma loop_prefix_inv:
  "loop_prefix bs = Inr (xs, n) \<Longrightarrow>
     (\<forall>x \<in> set xs. fits x) \<and> n = length (concat (map put xs)) \<and> (\<exists>t. bs = concat (map put xs) @ t)"
proof (induction xs arbitrary: bs n)
  case Nil
  then show ?case
    by (subst (asm) loop_prefix_unfold) (auto simp: and_then_Inr_iff split: if_splits option.splits)
next
  case (Cons x xs)
  then obtain r m where r: "get_prefix bs = Inr (Some (x, r))" "loop_prefix r = Inr (xs, m)" "n = length bs - length r + m"
    by (subst (asm) loop_prefix_unfold) (auto simp: and_then_Inr_iff split: if_splits option.splits)
  with put_get [OF get_prefix_get [OF r(1)]] Cons.IH [OF r(2)] show ?case by auto
qed

text \<open>Consuming all of the input is the same as parsing without a tail.\<close>

lemma loop_prefix_whole: "loop_prefix bs = Inr (xs, length bs) \<longleftrightarrow> loop bs = Inr xs"
proof
  assume "loop_prefix bs = Inr (xs, length bs)"
  from loop_prefix_inv [OF this] show "loop bs = Inr xs" by (auto simp: loop_iff)
next
  assume "loop bs = Inr xs"
  then show "loop_prefix bs = Inr (xs, length bs)"
    using loop_prefix_frames [of "[]" xs] by (auto simp: loop_iff)
qed

lemma loop_prefix_error:
  assumes "t \<noteq> []" "get_prefix t = Inl e"
  shows "\<forall>x \<in> set xs. fits x \<Longrightarrow> loop_prefix (concat (map put xs) @ t) = Inl e"
proof (induction xs)
  case Nil
  from assms show ?case by (subst loop_prefix_unfold) simp
next
  case (Cons x xs)
  then show ?case by (subst loop_prefix_unfold) (simp add: put_nonempty get_prefix_put)
qed

end

definition stored_frame :: "chain_file_format \<Rightarrow> block \<Rightarrow> bytes" where
  "stored_frame fmt b = frame_bytes fmt (word_of_nat (length (block_image b))) (block_image b)"

definition storable :: "block \<Rightarrow> bool" where
  "storable b \<longleftrightarrow> rust_block b \<and> block_fits b \<and> length (block_image b) \<le> MAX_FRAME_BYTES"

lemma max_frame_u32: "n \<le> MAX_FRAME_BYTES \<Longrightarrow> n < 2 ^ 32"
  by (simp add: MAX_FRAME_BYTES_def)

lemma decode_payload_ok: "decode_payload p = Inr b \<longleftrightarrow> rust_block b \<and> block_fits b \<and> p = block_image b"
  by (simp add: decode_payload_def decode_block_ok)

lemma decode_payload_image [simp]: "rust_block b \<Longrightarrow> block_fits b \<Longrightarrow> decode_payload (block_image b) = Inr b"
  by (simp add: decode_payload_ok)

lemma unat_frame_len [simp]: "n \<le> MAX_FRAME_BYTES \<Longrightarrow> unat (word_of_nat n :: u32) = n"
  by (simp add: MAX_FRAME_BYTES_def)

lemma length_split: "4 \<le> length bs \<Longrightarrow> bs = u32_to_be (u32_of_be (take 4 bs)) @ drop 4 bs"
  by simp

interpretation legacy_framing: framing_prefix "stored_frame Legacy" legacy_frame storable parse_legacy_block_frames
  legacy_frame_prefix parse_legacy_block_frames_prefix
proof
  show "legacy_frame (stored_frame Legacy b @ r) = Inr (b, r)" if "storable b" for b r
    using that by (simp add: legacy_frame_def stored_frame_def frame_bytes_def Let_def storable_def)
  show "legacy_frame_prefix (stored_frame Legacy b @ r) = Inr (Some (b, r))" if "storable b" for b r
    using that by (simp add: legacy_frame_prefix_def stored_frame_def frame_bytes_def Let_def storable_def)
  show "legacy_frame bs = Inr (b, r)" if "legacy_frame_prefix bs = Inr (Some (b, r))" for bs b r
    using that by (auto simp: legacy_frame_prefix_def legacy_frame_def Let_def and_then_Inr_iff split: if_splits)
  show "storable b \<and> bs = stored_frame Legacy b @ r" if "legacy_frame bs = Inr (b, r)" for bs b r
  proof -
    from that have "4 \<le> length bs" and len: "unat (u32_of_be (take 4 bs)) \<le> MAX_FRAME_BYTES"
      "unat (u32_of_be (take 4 bs)) \<le> length (drop 4 bs)"
      and b: "rust_block b" "block_fits b" "take (unat (u32_of_be (take 4 bs))) (drop 4 bs) = block_image b"
        "r = drop (unat (u32_of_be (take 4 bs))) (drop 4 bs)"
      by (auto simp: legacy_frame_def Let_def and_then_Inr_iff decode_payload_ok not_less split: if_splits)
    from len b(3) have n: "length (block_image b) = unat (u32_of_be (take 4 bs))" by (metis length_take min.absorb2)
    then have "word_of_nat (length (block_image b)) = u32_of_be (take 4 bs)" by simp
    moreover have "drop 4 bs = block_image b @ r" using b(3,4) by (metis append_take_drop_id)
    ultimately show ?thesis
      using length_split [OF \<open>4 \<le> length bs\<close>] b n len by (simp add: stored_frame_def frame_bytes_def storable_def)
  qed
qed (simp_all add: stored_frame_def frame_bytes_def parse_legacy_block_frames.simps parse_legacy_block_frames_prefix.simps)

interpretation v2_framing: framing_prefix "stored_frame V2" v2_frame storable parse_v2_block_frames
  v2_frame_prefix parse_v2_block_frames_prefix
proof
  show "v2_frame (stored_frame V2 b @ r) = Inr (b, r)" if "storable b" for b r
    using that by (simp add: v2_frame_def stored_frame_def frame_bytes_def Let_def storable_def)
  show "v2_frame_prefix (stored_frame V2 b @ r) = Inr (Some (b, r))" if "storable b" for b r
    using that by (simp add: v2_frame_prefix_def stored_frame_def frame_bytes_def Let_def storable_def)
  show "v2_frame bs = Inr (b, r)" if "v2_frame_prefix bs = Inr (Some (b, r))" for bs b r
    using that by (auto simp: v2_frame_prefix_def v2_frame_def Let_def and_then_Inr_iff split: if_splits)
  show "storable b \<and> bs = stored_frame V2 b @ r" if "v2_frame bs = Inr (b, r)" for bs b r
  proof -
    let ?n = "unat (u32_of_be (take 4 bs))" and ?r = "drop 4 bs"
    from that have "4 \<le> length bs" and len: "?n \<le> MAX_FRAME_BYTES" "?n + 4 \<le> length ?r"
      and b: "rust_block b" "block_fits b" "take ?n ?r = block_image b"
        "u32_of_be (take 4 (drop ?n ?r)) = crc32_ieee (block_image b)" "r = drop (?n + 4) ?r"
      by (auto simp: v2_frame_def Let_def and_then_Inr_iff decode_payload_ok not_less split: if_splits)
    from len b(3) have n: "length (block_image b) = ?n" by (metis length_take min.absorb2 add_leD1)
    then have "word_of_nat (length (block_image b)) = u32_of_be (take 4 bs)" by simp
    moreover have "?r = block_image b @ take 4 (drop ?n ?r) @ r"
      using b(3,5) by (metis add.commute append_take_drop_id drop_drop)
    moreover have "take 4 (drop ?n ?r) = u32_to_be (crc32_ieee (block_image b))"
      using b(4) len by (metis to_be_of_be(2) length_take length_drop min.absorb2 add_le_imp_le_diff le_diff_conv add.commute)
    ultimately show ?thesis
      using length_split [OF \<open>4 \<le> length bs\<close>] b n len by (simp add: stored_frame_def frame_bytes_def storable_def)
  qed
qed (simp_all add: stored_frame_def frame_bytes_def parse_v2_block_frames.simps parse_v2_block_frames_prefix.simps)

section \<open>The checksum detects a damaged byte\<close>

lemma bit_crc_round:
  "bit (crc_round c) n \<longleftrightarrow> bit c (Suc n) \<noteq> (bit c 0 \<and> bit (0xEDB88320 :: u32) n)"
  by (auto simp: crc_round_def bit_simps and_one_eq bit_0 even_iff_mod_2_eq_zero)

lemma crc_round_inject: "crc_round c = crc_round d \<Longrightarrow> c = d"
proof -
  assume eq: "crc_round c = crc_round d"
  have bits: "(bit c (Suc n) \<noteq> (bit c 0 \<and> bit (0xEDB88320 :: u32) n)) = (bit d (Suc n) \<noteq> (bit d 0 \<and> bit (0xEDB88320 :: u32) n))" for n
    using bit_crc_round [of c n] bit_crc_round [of d n] eq by simp
  have "bit (0xEDB88320 :: u32) 31" by simp
  moreover have "\<not> bit c 32" "\<not> bit d 32" using bit_imp_le_length [of c 32] bit_imp_le_length [of d 32] by auto
  ultimately have b0: "bit c 0 = bit d 0" using bits [of 31] by simp
  show "c = d"
  proof (rule bit_word_eqI)
    fix n show "bit c n = bit d n" using b0 bits by (cases n) auto
  qed
qed

lemma crc_rounds_inject: "(crc_round ^^ k) c = (crc_round ^^ k) d \<Longrightarrow> c = d"
  by (induction k arbitrary: c d) (auto dest: crc_round_inject)

lemma xor_left_cancel: "c XOR a = c XOR b \<Longrightarrow> a = b" for a b c :: "'a::len word"
  by (metis xor.left_neutral xor.assoc xor_self_eq)

lemma ucast_byte_inject: "(ucast a :: u32) = ucast b \<Longrightarrow> a = (b :: u8)"
proof -
  assume "(ucast a :: u32) = ucast b"
  then have "unat (ucast a :: u32) = unat (ucast b :: u32)" by simp
  then show ?thesis using unat_byte_less [of a] unat_byte_less [of b]
    by (simp add: unsigned_ucast_eq word_unat_eq_iff take_bit_nat_eq_self)
qed

lemma crc_byte_inject:
  "crc_byte c a = crc_byte d a \<Longrightarrow> c = d" "crc_byte c a = crc_byte c b \<Longrightarrow> a = b"
  unfolding crc_byte_def
  by (metis crc_rounds_inject xor_left_cancel xor.commute) (metis crc_rounds_inject xor_left_cancel ucast_byte_inject)

lemma crc_fold_inject: "foldl crc_byte c xs = foldl crc_byte d xs \<Longrightarrow> c = d"
  by (induction xs arbitrary: c d) (auto dest: crc_byte_inject)

lemma crc32_byte_change:
  assumes "a \<noteq> b"
  shows "crc32_ieee (xs @ a # ys) \<noteq> crc32_ieee (xs @ b # ys)"
proof
  assume "crc32_ieee (xs @ a # ys) = crc32_ieee (xs @ b # ys)"
  then have "foldl crc_byte (crc_byte (foldl crc_byte 0xFFFFFFFF xs) a) ys =
      foldl crc_byte (crc_byte (foldl crc_byte 0xFFFFFFFF xs) b) ys"
    by (simp add: crc32_ieee_def bit.compl_eq_compl_iff)
  with assms show False by (blast dest: crc_fold_inject crc_byte_inject)
qed

section \<open>What a store holds\<close>

abbreviation frames :: "chain_file_format \<Rightarrow> block list \<Rightarrow> bytes" where
  "frames fmt bs \<equiv> concat (map (stored_frame fmt) bs)"

definition store_holds :: "block_store \<Rightarrow> block list \<Rightarrow> bool" where
  "store_holds st bs \<longleftrightarrow> (\<forall>b \<in> set bs. storable b) \<and>
     (case bs_format st of
        V2 \<Rightarrow> if v2_magic_on_disk st then bs_file st = CHAIN_FILE_MAGIC_V2 @ frames V2 bs
              else bs = [] \<and> bs_file st = []
      | Legacy \<Rightarrow> \<not> v2_magic_on_disk st \<and> bs \<noteq> [] \<and> bs_file st = frames Legacy bs)"

lemma open_fresh: "\<exists>st. open_append None = Inr st \<and> store_holds st [] \<and> \<not> poisoned st"
  by (simp add: open_append_def store_holds_def)

lemma magic_length: "length CHAIN_FILE_MAGIC_V2 = 8"
  by (simp add: CHAIN_FILE_MAGIC_V2_def)

lemma magic_nonempty [simp]: "CHAIN_FILE_MAGIC_V2 \<noteq> []"
  using magic_length by auto

lemma has_v2_magic_append: "has_v2_magic (CHAIN_FILE_MAGIC_V2 @ r)"
  by (simp add: has_v2_magic_def)

text \<open>A legacy file is never taken for a V2 file: the magic would be an oversized frame length.\<close>

lemma legacy_no_magic:
  assumes "storable b"
  shows "\<not> has_v2_magic (stored_frame Legacy b @ r)"
proof
  let ?w = "word_of_nat (length (block_image b)) :: u32"
  assume "has_v2_magic (stored_frame Legacy b @ r)"
  then have "take 8 (u32_to_be ?w @ block_image b @ r) = CHAIN_FILE_MAGIC_V2"
    by (simp add: has_v2_magic_def magic_length stored_frame_def frame_bytes_def)
  then have "take 4 (take 8 (u32_to_be ?w @ block_image b @ r)) = take 4 CHAIN_FILE_MAGIC_V2" by simp
  then have "u32_of_be (u32_to_be ?w) = u32_of_be (take 4 CHAIN_FILE_MAGIC_V2)" by simp
  then have "unat ?w = unat (u32_of_be (take 4 CHAIN_FILE_MAGIC_V2))" by simp
  also have "\<dots> = 1414678860"
    by (simp add: CHAIN_FILE_MAGIC_V2_def as_bytes_def byte_of_char_def u32_of_be_def be_to_nat_def)
  finally show False using assms by (simp add: storable_def MAX_FRAME_BYTES_def)
qed

lemma store_reads:
  assumes "store_holds st bs"
  shows "read_all_blocks (Some (bs_file st)) = Inr bs"
    "read_all_blocks_repairing_tail rw (Some (bs_file st)) = (Some (bs_file st), Inr (bs, False))"
proof -
  have st: "\<forall>b \<in> set bs. storable b" using assms by (simp add: store_holds_def)
  note v2 = v2_framing.loop_frames [OF st] v2_framing.loop_prefix_frames [of "[]", OF _ st, simplified]
  note legacy = legacy_framing.loop_frames [OF st] legacy_framing.loop_prefix_frames [of "[]", OF _ st, simplified]
  show "read_all_blocks (Some (bs_file st)) = Inr bs"
    "read_all_blocks_repairing_tail rw (Some (bs_file st)) = (Some (bs_file st), Inr (bs, False))"
  proof (atomize (full), cases "bs_format st")
    case V2
    show "read_all_blocks (Some (bs_file st)) = Inr bs \<and>
      read_all_blocks_repairing_tail rw (Some (bs_file st)) = (Some (bs_file st), Inr (bs, False))"
    proof (cases "v2_magic_on_disk st")
      case True
      with V2 assms have "bs_file st = CHAIN_FILE_MAGIC_V2 @ frames V2 bs" by (simp add: store_holds_def)
      with v2 show ?thesis
        by (simp add: read_all_blocks_def read_all_blocks_repairing_tail_def has_v2_magic_append Let_def)
    next
      case False
      with V2 assms show ?thesis by (simp add: store_holds_def read_all_blocks_def read_all_blocks_repairing_tail_def)
    qed
  next
    case Legacy
    with assms obtain b bs' where bs: "bs = b # bs'" "bs_file st = frames Legacy bs"
      by (cases bs) (auto simp: store_holds_def)
    with st have "\<not> has_v2_magic (bs_file st)" using legacy_no_magic by simp
    moreover have "bs_file st \<noteq> []" using bs st legacy_framing.put_nonempty by simp
    ultimately show "read_all_blocks (Some (bs_file st)) = Inr bs \<and>
      read_all_blocks_repairing_tail rw (Some (bs_file st)) = (Some (bs_file st), Inr (bs, False))"
      using legacy bs(2)
      by (simp add: read_all_blocks_def read_all_blocks_repairing_tail_def Let_def del: concat_eq_Nil_conv)
  qed
qed

text \<open>Reading without repair succeeds exactly where reading with repair finds nothing to repair.\<close>

lemma read_without_repair:
  "read_all_blocks c = Inr bs \<longleftrightarrow> read_all_blocks_repairing_tail rw c = (c, Inr (bs, False))"
proof (cases c)
  case (Some data)
  let ?n = "length CHAIN_FILE_MAGIC_V2"
  have magic: "has_v2_magic data \<Longrightarrow> ?n \<le> length data"
    by (simp add: has_v2_magic_def)
  have v2: "n \<le> length (drop ?n data)" if "parse_v2_block_frames_prefix (drop ?n data) = Inr (xs, n)" for xs n
    using v2_framing.loop_prefix_inv [OF that] by (metis length_append le_add1)
  have legacy: "n \<le> length data" if "parse_legacy_block_frames_prefix data = Inr (xs, n)" for xs n
    using legacy_framing.loop_prefix_inv [OF that] by (metis length_append le_add1)
  show ?thesis
  proof (cases "has_v2_magic data")
    case True
    have "parse_v2_block_frames (drop ?n data) = Inr bs \<longleftrightarrow>
        (\<exists>n. parse_v2_block_frames_prefix (drop ?n data) = Inr (bs, n) \<and> \<not> ?n + n < length data)"
      using v2_framing.loop_prefix_whole [of "drop ?n data" bs] v2 [of bs] magic [OF True] by fastforce
    with True Some show ?thesis
      by (auto simp: read_all_blocks_def read_all_blocks_repairing_tail_def Let_def split: sum.splits prod.splits if_splits)
  next
    case False
    have "parse_legacy_block_frames data = Inr bs \<longleftrightarrow>
        (\<exists>n. parse_legacy_block_frames_prefix data = Inr (bs, n) \<and> \<not> n < length data)"
      using legacy_framing.loop_prefix_whole [of data bs] legacy [of bs] by fastforce
    with False Some show ?thesis
      by (auto simp: read_all_blocks_def read_all_blocks_repairing_tail_def Let_def split: sum.splits prod.splits if_splits)
  qed
qed (auto simp: read_all_blocks_def read_all_blocks_repairing_tail_def)

lemma unchanged_not_repaired:
  "read_all_blocks_repairing_tail rw c = (c, Inr (bs, repaired)) \<Longrightarrow> \<not> repaired"
  by (auto simp: read_all_blocks_repairing_tail_def Let_def write_all_def split: option.splits sum.splits prod.splits if_splits)

text \<open>Whatever start-up accepts, repaired or not, can be opened for appending and holds what was read.\<close>

lemma repaired_store:
  assumes "read_all_blocks_repairing_tail rw contents = (contents', Inr (bs, repaired))"
  shows "\<exists>st. open_append contents' = Inr st \<and> store_holds st bs \<and> \<not> poisoned st"
proof (cases "contents = None \<or> contents = Some []")
  case True
  with assms have "bs = []" "open_append contents' = Inr \<lparr>bs_file = [], poisoned = False, bs_format = V2, v2_magic_on_disk = False\<rparr>"
    by (auto simp: read_all_blocks_repairing_tail_def open_append_def)
  then show ?thesis by (simp add: store_holds_def)
next
  case False
  then obtain data where d: "contents = Some data" "data \<noteq> []" by auto
  show ?thesis
  proof (cases "has_v2_magic data")
    case True
    let ?body = "drop (length CHAIN_FILE_MAGIC_V2) data"
    from assms d True obtain n where p: "parse_v2_block_frames_prefix ?body = Inr (bs, n)"
      by (auto simp: read_all_blocks_repairing_tail_def Let_def split: sum.splits if_splits prod.splits)
    from v2_framing.loop_prefix_inv [OF p] obtain t where t: "\<forall>b \<in> set bs. storable b" "n = length (frames V2 bs)" "?body = frames V2 bs @ t"
      by blast
    have split: "data = CHAIN_FILE_MAGIC_V2 @ frames V2 bs @ t"
      using True t(3) unfolding has_v2_magic_def by (metis append_take_drop_id)
    have "contents' = Some (CHAIN_FILE_MAGIC_V2 @ frames V2 bs)"
      using assms d(1) True p t(2)
      by (auto simp: read_all_blocks_repairing_tail_def Let_def split write_all_def has_v2_magic_append [of "r @ s" for r s, simplified]
          split: if_splits option.splits)
    then show ?thesis using t(1) magic_length by (simp add: open_append_def Let_def store_holds_def)
  next
    case no_magic: False
    from assms d no_magic obtain n where p: "parse_legacy_block_frames_prefix data = Inr (bs, n)"
      by (auto simp: read_all_blocks_repairing_tail_def Let_def split: sum.splits if_splits prod.splits)
    from legacy_framing.loop_prefix_inv [OF p] obtain t where t: "\<forall>b \<in> set bs. storable b" "n = length (frames Legacy bs)" "data = frames Legacy bs @ t"
      by blast
    have c': "contents' = Some (frames Legacy bs)" and "bs \<noteq> []"
      using assms d no_magic p t(2)
      by (auto simp: read_all_blocks_repairing_tail_def Let_def t(3) write_all_def split: if_splits option.splits)
    then obtain b bs' where bs: "bs = b # bs'" by (cases bs) auto
    have len: "\<not> length (frames Legacy bs) < 8"
      by (simp add: bs stored_frame_def frame_bytes_def block_image_def BLOCK_MAGIC_def)
    have "take 8 (frames Legacy bs) \<noteq> CHAIN_FILE_MAGIC_V2"
      using legacy_no_magic [of b "frames Legacy bs'"] t(1) len by (simp add: bs has_v2_magic_def magic_length)
    moreover have "frames Legacy bs \<noteq> []" using len by fastforce
    ultimately show ?thesis
      using c' t(1) len \<open>bs \<noteq> []\<close> magic_length
      by (simp add: open_append_def Let_def store_holds_def del: concat_eq_Nil_conv)
  qed
qed

text \<open>The outcome of one append on a store that holds \<open>bs\<close>.\<close>

lemma store_append_ok:
  assumes "store_holds st bs" "rust_block b" "store_append_block io st b = Some (st', Inr ())"
  shows "store_holds st' (bs @ [b]) \<and> poisoned st' = poisoned st \<and> bs_format st' = bs_format st"
proof -
  from assms(3) have fits: "block_fits b" and ap: "append_payload io st (block_image b) = (st', Inr ())"
    by (auto simp: store_append_block_def encode_block_ok)
  then have np: "\<not> poisoned st" and len: "length (block_image b) \<le> MAX_FRAME_BYTES"
    and wf: "write_frame io st (word_of_nat (length (block_image b))) (block_image b) = (st', Inr ())"
    by (auto simp: append_payload_def u32_try_from_def split: if_splits prod.splits sum.splits)
  have sb: "storable b" using assms(2) fits len by (simp add: storable_def)
  show ?thesis
    using wf assms(1) sb np
    by (auto simp: write_frame_def write_magic_def write_all_def sync_all_def store_holds_def stored_frame_def
        split: if_splits prod.splits sum.splits option.splits chain_file_format.splits)
qed

lemma store_append_err:
  assumes "store_append_block io st b = Some (st', Inl e)"
  shows "poisoned st' \<or> st' = st"
  using assms by (auto simp: store_append_block_def append_payload_def split: if_splits prod.splits sum.splits option.splits)

text \<open>
  An append never takes anything away from the file.  So after a failed write the file still begins
  with all that was there before; only what follows is uncertain.
\<close>

definition store_keeps :: "block_store \<Rightarrow> block list \<Rightarrow> bool" where
  "store_keeps st bs \<longleftrightarrow> (\<exists>st0 t. store_holds st0 bs \<and> bs_file st = bs_file st0 @ t)"

lemma store_holds_keeps: "store_holds st bs \<Longrightarrow> store_keeps st bs"
  unfolding store_keeps_def by (metis append_Nil2)

lemma store_append_grows: "store_append_block io st b = Some (st', r) \<Longrightarrow> \<exists>t. bs_file st' = bs_file st @ t"
  by (auto simp: store_append_block_def append_payload_def write_frame_def write_magic_def write_all_def
      split: if_splits prod.splits sum.splits option.splits)

lemma store_append_keeps:
  "store_keeps st bs \<Longrightarrow> store_append_block io st b = Some (st', r) \<Longrightarrow> store_keeps st' bs"
  unfolding store_keeps_def using store_append_grows by (metis append_assoc)

text \<open>A disk on which no write fails.\<close>

definition calm_disk :: "io_plan \<Rightarrow> bool" where
  "calm_disk io \<longleftrightarrow> magic_write io = None \<and> magic_sync io \<and> frame_write io = None \<and> frame_sync io"

lemma calm_append:
  assumes "calm_disk io" "\<not> poisoned st" "storable b"
  shows "\<exists>st'. store_append_block io st b = Some (st', Inr ())"
  using assms max_frame_u32 [of "length (block_image b)"]
  by (auto simp: store_append_block_def storable_def encode_block_ok [THEN iffD2] append_payload_def u32_try_from_def
      write_frame_def write_magic_def write_all_def sync_all_def calm_disk_def max_frame_u32)

section \<open>Properties\<close>

lemma torn_frame_prefix:
  assumes "storable b" "0 < k" "k < length (stored_frame V2 b)"
  shows "v2_frame_prefix (take k (stored_frame V2 b)) = Inr None"
proof (cases "k < 4")
  case True
  then show ?thesis using assms(3) by (simp add: v2_frame_prefix_def)
next
  case False
  let ?w = "word_of_nat (length (block_image b)) :: u32"
  have "take 4 (take k (stored_frame V2 b)) = u32_to_be ?w"
    using False by (simp add: stored_frame_def frame_bytes_def min_def)
  moreover have "length (drop 4 (take k (stored_frame V2 b))) < length (block_image b) + 4"
    using assms(3) False by (simp add: stored_frame_def frame_bytes_def)
  ultimately show ?thesis
    using assms(1,3) False by (simp add: v2_frame_prefix_def Let_def storable_def)
qed

text \<open>What start-up loads is a valid chain under the default parameters.\<close>

lemma loaded_chain:
  assumes "digest_format K" "load_blockchain_from_disk K rw contents g = (contents', Inr (bc, repaired))"
  shows "chain_inv K g bc \<and> bc_consensus bc = default_consensus_params \<and>
    read_all_blocks_repairing_tail rw contents = (contents', Inr (tl (bc_blocks bc), repaired))"
proof -
  obtain f r where rd0: "read_all_blocks_repairing_tail rw contents = (f, r)" by fastforce
  with assms(2) obtain bs rep bc0 where r: "r = Inr (bs, rep)" and bc0: "blockchain_from_genesis g = Inr bc0"
    and c: "f = contents'" "(case run_steps (append_block K) bc0 bs of (_, Inl e) \<Rightarrow> Inl (Replay e) | (chain, Inr _) \<Rightarrow> Inr (chain, rep)) = Inr (bc, repaired)"
    by (cases r) (auto simp: load_blockchain_from_disk_def chain_from_genesis_def and_then_Inr_iff)
  obtain bc' q where run0: "run_steps (append_block K) bc0 bs = (bc', q)" by fastforce
  with c(2) have run: "run_steps (append_block K) bc0 bs = (bc, Inr ())" and "rep = repaired" by (auto split: sum.splits)
  then have rd: "read_all_blocks_repairing_tail rw contents = (contents', Inr (bs, repaired))" using rd0 r c by simp
  have init: "from_genesis_with_consensus g default_consensus_params = Inr bc0"
    using bc0 by (auto simp: from_genesis_with_consensus_def blockchain_from_genesis_def and_then_Inr_iff)
  have 0: "chain_inv K g bc0" "bc_consensus bc0 = default_consensus_params" "bc_blocks bc0 = [genesis_block]"
    using chain_inv_genesis [OF init, of K] bc0 by (auto simp: blockchain_from_genesis_def and_then_Inr_iff)
  have "chain_inv K g bc' \<and> bc_consensus bc' = bc_consensus bc1 \<and> bc_blocks bc' = bc_blocks bc1 @ bs'"
    if "chain_inv K g bc1" "run_steps (append_block K) bc1 bs' = (bc', Inr ())" for bc1 bc' bs'
    using that
  proof (induction bs' arbitrary: bc1)
    case (Cons b bs')
    from Cons.prems(2) obtain bc2 where b: "append_block K bc1 b = (bc2, Inr ())" "run_steps (append_block K) bc2 bs' = (bc', Inr ())"
      unfolding run_steps_Cons_ok by blast
    with Cons.IH [of bc2] append_block_inv [OF assms(1) Cons.prems(1) b(1)] show ?case by (auto simp: append_block_ok)
  qed simp
  from this [OF 0(1) run] 0 rd show ?thesis by simp
qed

lemma reload_chain:
  assumes "chain_inv K g bc" "bc_consensus bc = default_consensus_params"
    and "read_all_blocks_repairing_tail rw file = (file', Inr (tl (bc_blocks bc), repaired))"
  shows "load_blockchain_from_disk K rw file g = (file', Inr (bc, repaired))"
proof -
  from assms(1) obtain s0 where s0: "state_from_genesis g = Inr s0"
    by (auto simp: chain_inv_def recompute_eq_run)
  let ?bc0 = "\<lparr>bc_blocks = [genesis_block], bc_state = s0, bc_consensus = default_consensus_params\<rparr>"
  have bc0: "blockchain_from_genesis g = Inr ?bc0" using s0 by (simp add: blockchain_from_genesis_def)
  then have "from_genesis_with_consensus g (bc_consensus bc) = Inr ?bc0"
    by (simp add: from_genesis_with_consensus_def assms(2))
  from replay_blocks [OF this assms(1)] show ?thesis
    by (simp add: load_blockchain_from_disk_def assms(3) chain_from_genesis_def bc0)
qed

text \<open>
  What was stored is what is loaded: if a store holds the blocks of a chain above genesis,
  starting the node from this file and the same genesis document gives back the chain with its
  state, and leaves the file alone.
\<close>

theorem stored_chain_reloads:
  assumes "chain_inv K g bc" "bc_consensus bc = default_consensus_params" "store_holds st (tl (bc_blocks bc))"
  shows "load_blockchain_from_disk K rw (Some (bs_file st)) g = (Some (bs_file st), Inr (bc, False))"
  using reload_chain [OF assms(1,2) store_reads(2) [OF assms(3)]] .

text \<open>
  C27. Torn writes of a frame to a file in the current (V2) format: if a power loss or a full disk cuts
  the write after \<open>k\<close> bytes, short of the whole frame, the append reports failure and the store refuses
  further writes.  When the file is read again: if nothing of the frame arrived, the old blocks are
  read; otherwise, if there is no complete frame in front of the fragment, the file is refused,
  however short the fragment; behind at least one complete frame, one to three stray bytes are cut off
  and give the old blocks, and a longer fragment is refused.  A block that was not written completely
  is never returned, and the file still begins with all that was there.
\<close>

theorem torn_write:
  assumes "store_holds st bs" "\<not> poisoned st" "bs_format st = V2"
    and "v2_magic_on_disk st \<or> magic_write io = None \<and> magic_sync io"
    and "storable b" "frame_write io = Some k" "k < length (stored_frame V2 b)"
  shows "\<exists>st'. store_append_block io st b = Some (st', Inl ''write failed'') \<and> poisoned st' \<and>
    bs_file st' = (if v2_magic_on_disk st then bs_file st else CHAIN_FILE_MAGIC_V2) @ take k (stored_frame V2 b) \<and>
    read_all_blocks_repairing_tail None (Some (bs_file st')) =
     (if k = 0 then (Some (bs_file st'), Inr (bs, False))
      else if bs = [] then (Some (bs_file st'), Inl (Decode ''chain.blocks corrupt or truncated (no complete block frame)''))
      else if k < 4 then (Some (bs_file st), Inr (bs, True))
      else (Some (bs_file st'), Inl (Decode ''chain.blocks truncated after last complete block frame'')))"
proof -
  let ?torn = "take k (stored_frame V2 b)"
  let ?file = "CHAIN_FILE_MAGIC_V2 @ frames V2 bs @ ?torn"
  let ?st = "st\<lparr>bs_file := ?file, v2_magic_on_disk := True, poisoned := True\<rparr>"
  from assms(1,3) have sb: "\<forall>b \<in> set bs. storable b"
    and contents: "if v2_magic_on_disk st then bs_file st = CHAIN_FILE_MAGIC_V2 @ frames V2 bs else bs = [] \<and> bs_file st = []"
    by (auto simp: store_holds_def split: if_splits)
  then have file_eq: "?file = (if v2_magic_on_disk st then bs_file st else CHAIN_FILE_MAGIC_V2) @ ?torn" by (auto split: if_splits)
  have "append_payload io st (block_image b) = (?st, Inl ''write failed'')"
    using assms(2-6) contents
    by (auto simp: append_payload_def u32_try_from_def storable_def max_frame_u32 write_frame_def write_magic_def
        write_all_def sync_all_def stored_frame_def split: if_splits) (simp_all add: MAX_FRAME_BYTES_def)
  then have ap: "store_append_block io st b = Some (?st, Inl ''write failed'')"
    using assms(5) by (simp add: store_append_block_def storable_def encode_block_ok [THEN iffD2])
  have "k = 0 \<or> v2_frame_prefix ?torn = Inr None" using torn_frame_prefix [OF assms(5) _ assms(7)] by auto
  then have parse: "parse_v2_block_frames_prefix (frames V2 bs @ ?torn) = Inr (bs, length (frames V2 bs))"
    using v2_framing.loop_prefix_frames [of ?torn bs] sb by auto
  have len: "length ?torn = k" using assms(7) by simp
  have old: "bs \<noteq> [] \<Longrightarrow> bs_file st = CHAIN_FILE_MAGIC_V2 @ frames V2 bs" using contents by (auto split: if_splits)
  have "read_all_blocks_repairing_tail None (Some ?file) =
     (if k = 0 then (Some ?file, Inr (bs, False))
      else if bs = [] then (Some ?file, Inl (Decode ''chain.blocks corrupt or truncated (no complete block frame)''))
      else if k < 4 then (Some (bs_file st), Inr (bs, True))
      else (Some ?file, Inl (Decode ''chain.blocks truncated after last complete block frame'')))"
    using parse len old magic_length
    by (auto simp: read_all_blocks_repairing_tail_def has_v2_magic_append [of "r @ s" for r s, simplified] Let_def write_all_def)
  with ap file_eq show ?thesis by (intro exI [of _ ?st]) simp
qed

text \<open>
  C28. A damaged byte is noticed: changing any single byte of the payload of a stored V2 frame
  makes reading that frame fail with a checksum error, whatever follows it in the file.
\<close>

theorem damaged_byte_detected:
  assumes "storable b" "block_image b = xs @ x # ys" "x \<noteq> y"
  shows "v2_frame (u32_to_be (word_of_nat (length (block_image b))) @ (xs @ y # ys) @
      u32_to_be (crc32_ieee (block_image b)) @ rest) = Inl (Decode ''v2 frame crc mismatch'')"
proof -
  have "length (xs @ y # ys) = length (block_image b)" by (simp add: assms(2))
  moreover have "crc32_ieee (block_image b) \<noteq> crc32_ieee (xs @ y # ys)"
    using crc32_byte_change [OF assms(3)] by (simp add: assms(2))
  ultimately show ?thesis
    using assms(1) unfolding storable_def
    by (simp add: v2_frame_def Let_def del: append_assoc)
qed

end
