(* ===== verification/Pending_File.thy ===== *)
theory Pending_File
  imports Mempool Encoding
begin

text \<open>
  \<open>pending_tx_file.rs\<close>: the queue file \<open>pending_tx.tril\<close> through which the command line hands
  transactions to a running node.  A file is its bytes, \<open>None\<close> if it does not exist.  The record
  \<open>queue_io\<close> stands for the operating system: for each call the error it reports, if any, and for
  an appending write or sync that fails the number of bytes that reached the file: \<open>q_write = None\<close>
  says that \<open>write_all\<close> and \<open>sync_all\<close> both succeed, \<open>Some k\<close> with \<open>k\<close> below the length of the frame is
  a write cut short, and any larger \<open>k\<close> is a sync that fails behind a complete write.  An outer
  \<open>None\<close> is a panic of the encoder.  The paths in the operator messages are left out.
\<close>

definition MAX_PENDING_TX_FRAME :: nat where "MAX_PENDING_TX_FRAME = 4 * 1024 * 1024"

record queue_io =
  q_lock :: "string option"
  q_read :: "string option"
  q_tmp_write :: "string option"
  q_tmp_sync :: "string option"
  q_rename :: "string option"
  q_open :: "string option"
  q_write :: "nat option"

definition try_io :: "string option \<Rightarrow> string + unit" where
  "try_io failure = (case failure of Some e \<Rightarrow> Inl e | None \<Rightarrow> Inr ())"

text \<open>The body of the parsing loop: one frame from the front of the data that is left.\<close>

definition pending_frame :: "bytes \<Rightarrow> string + (transaction \<times> bytes)" where
  "pending_frame data =
    (if length data < 4 then Inl ''pending_tx.tril: truncated length prefix''
     else let len = unat (u32_of_be (take 4 data)); r = drop 4 data in
     if len > MAX_PENDING_TX_FRAME then Inl ''pending_tx.tril: frame too large''
     else if length r < len then Inl ''pending_tx.tril: truncated frame body''
     else and_then (map_err encode_error_text (decode_transaction (take len r))) (\<lambda>tx. Inr (tx, drop len r)))"

lemma pending_frame_consumes: "pending_frame data = Inr (tx, r) \<Longrightarrow> length r < length data"
  by (auto simp: pending_frame_def Let_def and_then_Inr_iff split: if_splits)

function parse_pending_file_bytes :: "bytes \<Rightarrow> string + transaction list" where
  "parse_pending_file_bytes data =
    (if data = [] then Inr []
     else and_then (pending_frame data) (\<lambda>(tx, r).
          and_then (parse_pending_file_bytes r) (\<lambda>txs. Inr (tx # txs))))"
  by auto
termination by (relation "measure length") (auto dest: pending_frame_consumes)

declare parse_pending_file_bytes.simps [simp del]

fun encode_pending_payload_from :: "bytes \<Rightarrow> transaction list \<Rightarrow> (string + bytes) option" where
  "encode_pending_payload_from buf [] = Some (Inr buf)"
| "encode_pending_payload_from buf (tx # txs) =
    Option.bind (encode_transaction tx) (\<lambda>payload.
    case u32_try_from (length payload) of
      None \<Rightarrow> Some (Inl ''encoded transaction length exceeds u32'')
    | Some len \<Rightarrow> encode_pending_payload_from (buf @ u32_to_be len @ payload) txs)"

definition encode_pending_payload :: "transaction list \<Rightarrow> (string + bytes) option" where
  "encode_pending_payload txs = encode_pending_payload_from [] txs"

text \<open>
  \<open>write_pending_atomic\<close> writes and syncs a temporary file and renames it over the queue file; a
  failure before the rename leaves the queue file as it was.
\<close>

definition write_pending_atomic :: "queue_io \<Rightarrow> bytes \<Rightarrow> bytes option \<Rightarrow> bytes option \<times> (string + unit)" where
  "write_pending_atomic io payload file =
    (case and_then (try_io (q_tmp_write io)) (\<lambda>_.
          and_then (try_io (q_tmp_sync io)) (\<lambda>_. try_io (q_rename io))) of
       Inl e \<Rightarrow> (file, Inl e)
     | Inr _ \<Rightarrow> (Some payload, Inr ()))"

definition append_pending_transaction ::
  "queue_io \<Rightarrow> bytes option \<Rightarrow> transaction \<Rightarrow> (bytes option \<times> (string + unit)) option" where
  "append_pending_transaction io file tx =
    (case q_lock io of
       Some e \<Rightarrow> Some (file, Inl (''[pending] fail-closed: could not acquire queue lock '' @ e))
     | None \<Rightarrow>
       Option.bind (encode_transaction tx) (\<lambda>payload.
       case u32_try_from (length payload) of
         None \<Rightarrow> Some (file, Inl ''encoded transaction length exceeds u32'')
       | Some len \<Rightarrow>
         let frame = u32_to_be len @ payload;
             data = (case file of None \<Rightarrow> [] | Some d \<Rightarrow> d)
         in case q_open io of
              Some e \<Rightarrow> Some (file, Inl e)
            | None \<Rightarrow>
             (case q_write io of
                None \<Rightarrow> Some (Some (data @ frame), Inr ())
              | Some k \<Rightarrow> Some (Some (data @ take k frame), Inl ''write failed''))))"

text \<open>The loop \<open>while i < txs.len()\<close>: the pool and the entries that stay queued.\<close>

fun drain_loop :: "crypto \<Rightarrow> mempool \<Rightarrow> transaction list \<Rightarrow> mempool \<times> transaction list" where
  "drain_loop K pool [] = (pool, [])"
| "drain_loop K pool (tx # txs) =
    (case try_submit_pending_drain K pool tx of
       (pool', Inr _) \<Rightarrow> drain_loop K pool' txs
     | (pool', Inl DuplicateTransaction) \<Rightarrow> drain_loop K pool' txs
     | (pool', Inl _) \<Rightarrow> (pool', tx # txs))"

definition drain_pending_file ::
  "crypto \<Rightarrow> queue_io \<Rightarrow> bytes option \<Rightarrow> mempool \<Rightarrow>
   ((bytes option \<times> mempool) \<times> (string + unit)) option" where
  "drain_pending_file K io file pool =
    (case q_lock io of
       Some e \<Rightarrow> Some ((file, pool), Inl (''[pending] fail-closed: could not acquire queue lock '' @ e))
     | None \<Rightarrow>
    (case file of
       None \<Rightarrow> Some ((file, pool), Inr ())
     | Some data \<Rightarrow>
    (case and_then (try_io (q_read io)) (\<lambda>_. parse_pending_file_bytes data) of
       Inl e \<Rightarrow> Some ((file, pool), Inl e)
     | Inr txs \<Rightarrow>
       let pool_before = clone_fifo pool in
       if txs = [] then
         (case write_pending_atomic io [] file of
            (file', Inl e) \<Rightarrow> Some ((file', restore_fifo pool pool_before), Inl e)
          | (file', Inr _) \<Rightarrow> Some ((file', pool), Inr ()))
       else
         let (pool', remaining) = drain_loop K pool txs in
         Option.bind (encode_pending_payload remaining) (\<lambda>enc.
         case enc of
           Inl e \<Rightarrow> Some ((file, pool'), Inl e)
         | Inr encoded \<Rightarrow>
           (case write_pending_atomic io encoded file of
              (file', Inl e) \<Rightarrow> Some ((file', restore_fifo pool' pool_before), Inl e)
            | (file', Inr _) \<Rightarrow> Some ((file', pool'), Inr ()))))))"

section \<open>The queue format\<close>

definition queueable :: "transaction \<Rightarrow> bool" where
  "queueable tx \<longleftrightarrow> rust_transaction tx \<and> tx_fits tx \<and> length (tx_image tx) \<le> MAX_PENDING_TX_FRAME"

abbreviation queue_bytes :: "transaction list \<Rightarrow> bytes" where
  "queue_bytes txs \<equiv> concat (map (\<lambda>tx. framed (tx_image tx)) txs)"

lemma unat_pending_len [simp]: "n \<le> MAX_PENDING_TX_FRAME \<Longrightarrow> unat (word_of_nat n :: u32) = n"
  by (simp add: MAX_PENDING_TX_FRAME_def)

lemma decode_image [simp]: "rust_transaction tx \<Longrightarrow> tx_fits tx \<Longrightarrow> decode_transaction (tx_image tx) = Inr tx"
  by (simp add: decode_transaction_ok)

interpretation queue_framing: framing "\<lambda>tx. framed (tx_image tx)" pending_frame queueable parse_pending_file_bytes
proof
  show "pending_frame (framed (tx_image tx) @ r) = Inr (tx, r)" if "queueable tx" for tx r
    using that by (simp add: pending_frame_def framed_def Let_def queueable_def)
  show "queueable tx \<and> bs = framed (tx_image tx) @ r" if "pending_frame bs = Inr (tx, r)" for bs tx r
  proof -
    let ?n = "unat (u32_of_be (take 4 bs))"
    from that have "4 \<le> length bs" and len: "?n \<le> MAX_PENDING_TX_FRAME" "?n \<le> length (drop 4 bs)"
      and t: "rust_transaction tx" "tx_fits tx" "take ?n (drop 4 bs) = tx_image tx" "r = drop ?n (drop 4 bs)"
      by (auto simp: pending_frame_def Let_def and_then_Inr_iff decode_transaction_ok not_less split: if_splits)
    from len t(3) have n: "length (tx_image tx) = ?n" by (metis length_take min.absorb2)
    then have "word_of_nat (length (tx_image tx)) = u32_of_be (take 4 bs)" by simp
    moreover have "drop 4 bs = tx_image tx @ r" using t(3,4) by (metis append_take_drop_id)
    moreover have "bs = u32_to_be (u32_of_be (take 4 bs)) @ drop 4 bs" using \<open>4 \<le> length bs\<close> by simp
    ultimately show ?thesis using t n len by (simp add: framed_def queueable_def)
  qed
qed (auto simp: framed_def parse_pending_file_bytes.simps)

lemma encode_pending_from:
  "\<forall>tx \<in> set txs. queueable tx \<Longrightarrow> encode_pending_payload_from buf txs = Some (Inr (buf @ queue_bytes txs))"
proof (induction txs arbitrary: buf)
  case (Cons tx txs)
  then have "encode_transaction tx = Some (tx_image tx)" "length (tx_image tx) < 2 ^ 32"
    by (auto simp: encode_transaction_ok queueable_def MAX_PENDING_TX_FRAME_def)
  with Cons show ?case by (simp add: u32_try_from_def framed_def)
qed simp

lemma encode_pending: "\<forall>tx \<in> set txs. queueable tx \<Longrightarrow> encode_pending_payload txs = Some (Inr (queue_bytes txs))"
  using encode_pending_from [of txs "[]"] by (simp add: encode_pending_payload_def)

section \<open>Draining\<close>

text \<open>
  The drain takes a prefix of the queue; the pool gains the taken entries it did not hold, in
  order, and gives up none of its own.
\<close>

lemma drain_duplicate_in_pool:
  assumes "try_submit_pending_drain K pool tx = (pool', Inl DuplicateTransaction)"
  shows "fmlookup (mp_txs pool) (tx_hash tx) \<noteq> None"
proof -
  have "tx_basic_validate K tx \<noteq> Inl DuplicateTransaction"
    by (auto simp: tx_validate_defs and_then_Inl_iff split: if_splits)
  with assms show ?thesis
    by (auto simp: drain_submit_cases submit_checks_def and_then_Inl_iff split: sum.splits if_splits option.splits)
qed

lemma drain_loop_spec:
  assumes "mempool_inv pool" "drain_loop K pool txs = (pool', remaining)"
  shows "\<exists>taken new. txs = taken @ remaining \<and> mempool_inv pool' \<and> mp_capacity pool' = mp_capacity pool \<and>
    clone_fifo pool' = clone_fifo pool @ new \<and> subseq new taken \<and>
    (\<forall>tx \<in> set taken. tx_hash tx \<in> tx_hash ` set (clone_fifo pool'))"
  using assms
proof (induction txs arbitrary: pool)
  case Nil
  then show ?case by simp
next
  case (Cons tx txs)
  obtain p r where sub: "try_submit_pending_drain K pool tx = (p, r)" by fastforce
  show ?case
  proof (cases r)
    case (Inr u)
    with sub have ok: "try_submit_pending_drain K pool tx = (p, Inr ())" by simp
    note p = drain_submit_ok [OF Cons.prems(1) ok]
    from Cons.prems(2) ok have "drain_loop K p txs = (pool', remaining)" by simp
    with Cons.IH p obtain taken new where IH: "txs = taken @ remaining" "mempool_inv pool'"
      "mp_capacity pool' = mp_capacity p" "clone_fifo pool' = clone_fifo p @ new" "subseq new taken"
      "\<forall>tx \<in> set taken. tx_hash tx \<in> tx_hash ` set (clone_fifo pool')" by metis
    then have "tx # txs = (tx # taken) @ remaining" "clone_fifo pool' = clone_fifo pool @ (tx # new)"
      "subseq (tx # new) (tx # taken)" using p by simp_all
    with IH p show ?thesis by (metis (no_types, lifting) image_eqI in_set_conv_decomp set_ConsD)
  next
    case (Inl e)
    show ?thesis
    proof (cases "e = DuplicateTransaction")
      case True
      with sub Inl have dup: "try_submit_pending_drain K pool tx = (p, Inl DuplicateTransaction)" by simp
      from drain_submit_err [OF dup] have p: "p = pool" .
      from Cons.prems(2) dup have "drain_loop K p txs = (pool', remaining)" by simp
      with Cons.IH p Cons.prems(1) obtain taken new where IH: "txs = taken @ remaining" "mempool_inv pool'"
        "mp_capacity pool' = mp_capacity pool" "clone_fifo pool' = clone_fifo pool @ new" "subseq new taken"
        "\<forall>tx \<in> set taken. tx_hash tx \<in> tx_hash ` set (clone_fifo pool')" by metis
      obtain t where "fmlookup (mp_txs pool) (tx_hash tx) = Some t"
        using drain_duplicate_in_pool [OF dup] by blast
      then have "t \<in> set (clone_fifo pool)" "tx_hash t = tx_hash tx"
        using fifo_lookup [OF Cons.prems(1), of t] agree_hash [OF inv_agree [OF Cons.prems(1)]] by auto
      then have "tx_hash tx \<in> tx_hash ` set (clone_fifo pool')" using IH(4) by (metis image_eqI in_set_conv_decomp append_Cons append_assoc)
      moreover have "tx # txs = (tx # taken) @ remaining" "subseq new (tx # taken)" using IH by auto
      ultimately show ?thesis using IH by (metis set_ConsD)
    next
      case False
      with sub Inl Cons.prems(2) have "pool' = p" "remaining = tx # txs" by (cases e; simp)+
      moreover have "p = pool" using sub Inl drain_submit_err by blast
      ultimately have "tx # txs = [] @ remaining \<and> mempool_inv pool' \<and> mp_capacity pool' = mp_capacity pool \<and>
        clone_fifo pool' = clone_fifo pool @ [] \<and> subseq [] ([] :: transaction list)" using Cons.prems(1) by simp
      then show ?thesis by (metis empty_iff list.set(1))
    qed
  qed
qed

section \<open>Properties\<close>

lemma parse_queue: "parse_pending_file_bytes data = Inr txs \<longleftrightarrow> (\<forall>tx \<in> set txs. queueable tx) \<and> data = queue_bytes txs"
  by (rule queue_framing.loop_iff)

text \<open>
  What a successful drain leaves behind: the queued entries split into a prefix that is
  represented in the pool and a rest that is what the file holds; the pool keeps what it had.
\<close>

definition drained :: "bytes \<Rightarrow> mempool \<Rightarrow> bytes option \<Rightarrow> mempool \<Rightarrow> bool" where
  "drained data pool file' pool' \<longleftrightarrow> mempool_inv pool' \<and>
     (\<exists>taken remaining new. parse_pending_file_bytes data = Inr (taken @ remaining) \<and>
        file' = Some (queue_bytes remaining) \<and> parse_pending_file_bytes (queue_bytes remaining) = Inr remaining \<and>
        clone_fifo pool' = clone_fifo pool @ new \<and> subseq new taken \<and>
        (\<forall>tx \<in> set taken. tx_hash tx \<in> tx_hash ` set (clone_fifo pool')))"

lemma drain_step:
  assumes "mempool_inv pool" "parse_pending_file_bytes data = Inr txs"
  shows "\<exists>pool' remaining. drain_loop K pool txs = (pool', remaining) \<and>
    encode_pending_payload remaining = Some (Inr (queue_bytes remaining)) \<and>
    drained data pool (Some (queue_bytes remaining)) pool' \<and> mp_capacity pool' = mp_capacity pool"
proof -
  obtain pool' remaining where d: "drain_loop K pool txs = (pool', remaining)" by fastforce
  from drain_loop_spec [OF assms(1) d] obtain taken new where s: "txs = taken @ remaining"
    "mp_capacity pool' = mp_capacity pool" "mempool_inv pool'" "clone_fifo pool' = clone_fifo pool @ new" "subseq new taken"
    "\<forall>tx \<in> set taken. tx_hash tx \<in> tx_hash ` set (clone_fifo pool')" by blast
  have q: "\<forall>tx \<in> set remaining. queueable tx" using assms(2) s(1) by (simp add: parse_queue)
  then have "parse_pending_file_bytes (queue_bytes remaining) = Inr remaining" by (simp add: parse_queue)
  with s assms(2) have "drained data pool (Some (queue_bytes remaining)) pool'"
    unfolding drained_def by blast
  with d q s(2) show ?thesis by (simp add: encode_pending)
qed

lemma drain_outcome:
  assumes "mempool_inv pool"
  shows "\<exists>file' pool' r. drain_pending_file K io file pool = Some ((file', pool'), r) \<and>
    (case r of
       Inl _ \<Rightarrow> file' = file \<and> pool' = pool
     | Inr _ \<Rightarrow> (case file of None \<Rightarrow> file' = None \<and> pool' = pool | Some data \<Rightarrow> drained data pool file' pool'))"
proof (cases "q_lock io = None \<and> q_read io = None \<and> (\<exists>data txs. file = Some data \<and> parse_pending_file_bytes data = Inr txs)")
  case False
  then show ?thesis
    by (cases "q_lock io"; cases "file"; cases "q_read io") (auto simp: drain_pending_file_def try_io_def split: sum.split)
next
  case True
  then obtain data txs where lf: "q_lock io = None" "q_read io = None" and f: "file = Some data"
    and p: "parse_pending_file_bytes data = Inr txs" by blast
  from drain_step [OF assms p] obtain pool' remaining where d: "drain_loop K pool txs = (pool', remaining)"
    "encode_pending_payload remaining = Some (Inr (queue_bytes remaining))"
    "drained data pool (Some (queue_bytes remaining)) pool'" "mp_capacity pool' = mp_capacity pool" by blast
  have restore: "restore_fifo pool' (clone_fifo pool) = pool" "restore_fifo pool (clone_fifo pool) = pool"
    using restore_clone [OF assms] d(4) by simp_all
  show ?thesis
  proof (cases "txs = []")
    case nil: True
    with d have "pool' = pool" "remaining = []" by simp_all
    with lf f p nil restore d(3) show ?thesis
      by (auto simp: drain_pending_file_def write_pending_atomic_def try_io_def Let_def split: sum.split)
  next
    case False
    with lf f p d restore show ?thesis
      by (auto simp: drain_pending_file_def write_pending_atomic_def try_io_def Let_def split: sum.split)
  qed
qed

text \<open>
  C31. Draining never loses a transaction: it always returns; if it fails, for whatever reason,
  file and pool are exactly as before; if it succeeds, the queued entries split into a prefix that
  is now represented in the pool and a rest that is exactly what the file holds, and everything
  the pool held is still there, in front of the new entries.
\<close>

theorem drain_no_loss:
  assumes "mempool_inv pool"
  shows "\<exists>file' pool' r. drain_pending_file K io file pool = Some ((file', pool'), r) \<and>
    (case r of
       Inl _ \<Rightarrow> file' = file \<and> pool' = pool
     | Inr _ \<Rightarrow> (case file of None \<Rightarrow> file' = None \<and> pool' = pool | Some data \<Rightarrow> drained data pool file' pool'))"
  using assms by (rule drain_outcome)

lemma torn_queue_frame:
  assumes "queueable tx" "k < length (framed (tx_image tx))"
  shows "\<exists>e. pending_frame (take k (framed (tx_image tx))) = Inl e"
proof (cases "k < 4")
  case True
  with assms(2) show ?thesis by (simp add: pending_frame_def)
next
  case False
  let ?t = "take k (framed (tx_image tx))"
  have "take 4 ?t = u32_to_be (word_of_nat (length (tx_image tx)))" using False by (simp add: framed_def min_def)
  moreover have "length (drop 4 ?t) < length (tx_image tx)" using assms(2) False by (simp add: framed_def)
  ultimately show ?thesis using assms False by (simp add: pending_frame_def Let_def queueable_def)
qed

text \<open>
  Appending to a readable queue file and reading it back gives the old entries followed by
  the new one; if the append is cut short, the next reader refuses the file instead of dropping
  or inventing entries.
\<close>

theorem append_then_parse:
  assumes "parse_pending_file_bytes data = Inr txs" "queueable tx" "q_lock io = None" "q_open io = None"
  shows "case q_write io of
      None \<Rightarrow> \<exists>data'. append_pending_transaction io (Some data) tx = Some (Some data', Inr ()) \<and>
        parse_pending_file_bytes data' = Inr (txs @ [tx])
    | Some k \<Rightarrow> \<exists>data' e. append_pending_transaction io (Some data) tx = Some (Some data', Inl e) \<and>
        (0 < k \<and> k < length (framed (tx_image tx)) \<longrightarrow> (\<exists>e'. parse_pending_file_bytes data' = Inl e'))"
proof -
  have enc: "encode_transaction tx = Some (tx_image tx)" "length (tx_image tx) < 2 ^ 32"
    using assms(2) by (auto simp: encode_transaction_ok queueable_def MAX_PENDING_TX_FRAME_def)
  have data: "\<forall>t \<in> set txs. queueable t" "data = queue_bytes txs" using assms(1) by (simp_all add: parse_queue)
  show ?thesis
  proof (cases "q_write io")
    case None
    have "parse_pending_file_bytes (data @ framed (tx_image tx)) = Inr (txs @ [tx])"
      using data assms(2) by (simp add: parse_queue)
    with enc None assms(3,4) show ?thesis by (simp add: append_pending_transaction_def u32_try_from_def framed_def)
  next
    case (Some k)
    have "\<exists>e'. parse_pending_file_bytes (data @ take k (framed (tx_image tx))) = Inl e'"
      if k: "0 < k" "k < length (framed (tx_image tx))"
    proof -
      from torn_queue_frame [OF assms(2) k(2)] obtain e where "pending_frame (take k (framed (tx_image tx))) = Inl e" by blast
      moreover have "take k (framed (tx_image tx)) \<noteq> []" using k by auto
      ultimately show ?thesis using queue_framing.loop_error [OF _ _ data(1)] by (simp add: data(2))
    qed
    with enc Some assms(3,4) show ?thesis by (simp add: append_pending_transaction_def u32_try_from_def framed_def)
  qed
qed

end
