(* ===== verification/Wire.thy ===== *)
theory Wire
  imports Genesis Encoding
begin

text \<open>
  \<open>network.rs\<close>, the wire protocol: outer frames, the session handshake, and the codecs of the
  application messages.  A TCP stream is the record \<open>conn\<close>: the bytes the peer will send with the
  error that reading reports when they are used up, the bytes written so far, and how many more
  bytes the peer takes before a write fails.  Time-outs and disconnections are values of these
  fields.  Log lines are not modelled; of operator messages the leading, identifying part is kept.
\<close>

definition PFX_PEER :: string where "PFX_PEER = ''[peer]''"

definition MAX_WIRE_FRAME_BYTES :: u32 where "MAX_WIRE_FRAME_BYTES = 64 * 1024 * 1024"
definition MAX_BLOCKS_PER_BATCH :: u32 where "MAX_BLOCKS_PER_BATCH = 64"
definition TRIL_WIRE_PROTOCOL_VERSION :: u16 where "TRIL_WIRE_PROTOCOL_VERSION = 2"
definition MAX_SESSION_COMMITMENT_BYTES :: nat where "MAX_SESSION_COMMITMENT_BYTES = 512"

definition OP_TX :: u8 where "OP_TX = 1"
definition OP_BLOCK :: u8 where "OP_BLOCK = 2"
definition OP_GET_BLOCKS :: u8 where "OP_GET_BLOCKS = 3"
definition OP_BLOCKS :: u8 where "OP_BLOCKS = 4"
definition OP_SESSION_HELLO :: u8 where "OP_SESSION_HELLO = 5"
definition OP_SESSION_HELLO_ACK :: u8 where "OP_SESSION_HELLO_ACK = 6"

lemmas op_defs = OP_TX_def OP_BLOCK_def OP_GET_BLOCKS_def OP_BLOCKS_def OP_SESSION_HELLO_def OP_SESSION_HELLO_ACK_def

datatype io_kind = UnexpectedEof | TimedOut | WouldBlock | InvalidData | InvalidInput | OtherKind
datatype io_error = Io_Error (io_kind: io_kind) (io_text: string)

definition io_err_idle_timeout :: "io_error \<Rightarrow> bool" where
  "io_err_idle_timeout e \<longleftrightarrow> io_kind e = TimedOut \<or> io_kind e = WouldBlock"

section \<open>Frames\<close>

record conn =
  c_in :: bytes
  c_end :: io_error
  c_out :: bytes
  c_room :: "nat option"
  c_werr :: io_error

text \<open>\<open>Read::read_exact\<close> and \<open>Write::write_all\<close>; \<open>flush\<close> of a TCP stream does nothing.\<close>

definition conn_read_exact :: "conn \<Rightarrow> nat \<Rightarrow> conn \<times> (io_error + bytes)" where
  "conn_read_exact c n =
    (if length (c_in c) < n then (c\<lparr>c_in := []\<rparr>, Inl (c_end c))
     else (c\<lparr>c_in := drop n (c_in c)\<rparr>, Inr (take n (c_in c))))"

definition conn_write_all :: "conn \<Rightarrow> bytes \<Rightarrow> conn \<times> (io_error + unit)" where
  "conn_write_all c bs =
    (case c_room c of
       None \<Rightarrow> (c\<lparr>c_out := c_out c @ bs\<rparr>, Inr ())
     | Some room \<Rightarrow>
        if length bs \<le> room then (c\<lparr>c_out := c_out c @ bs, c_room := Some (room - length bs)\<rparr>, Inr ())
        else (c\<lparr>c_out := c_out c @ take room bs, c_room := Some 0\<rparr>, Inl (c_werr c)))"

text \<open>Sequencing of operations on a state that stop at the first error.\<close>

definition then_do :: "'s \<times> ('e + 'a) \<Rightarrow> ('s \<Rightarrow> 'a \<Rightarrow> 's \<times> ('e + 'b)) \<Rightarrow> 's \<times> ('e + 'b)" where
  "then_do r f = (case r of (s, Inl e) \<Rightarrow> (s, Inl e) | (s, Inr a) \<Rightarrow> f s a)"

definition lift_io :: "'s \<Rightarrow> 'e + 'a \<Rightarrow> 's \<times> ('e + 'a)" where
  "lift_io s r = (s, r)"

definition read_framed :: "conn \<Rightarrow> conn \<times> (io_error + bytes)" where
  "read_framed c =
    then_do (conn_read_exact c 4) (\<lambda>c hdr.
      let len = unat (u32_of_be hdr) in
      if (word_of_nat len :: u32) > MAX_WIRE_FRAME_BYTES
      then (c, Inl (Io_Error InvalidData ''wire frame exceeds max size''))
      else conn_read_exact c len)"

definition validate_outbound_framed_payload_len :: "nat \<Rightarrow> io_error + u32" where
  "validate_outbound_framed_payload_len n =
    (if n > unat MAX_WIRE_FRAME_BYTES then Inl (Io_Error InvalidInput ''wire payload exceeds MAX_WIRE_FRAME_BYTES'')
     else ok_or (Io_Error InvalidInput ''wire payload length does not fit u32'') (u32_try_from n))"

definition write_framed :: "conn \<Rightarrow> bytes \<Rightarrow> conn \<times> (io_error + unit)" where
  "write_framed c payload =
    then_do (lift_io c (validate_outbound_framed_payload_len (length payload))) (\<lambda>c len.
    then_do (conn_write_all c (u32_to_be len)) (\<lambda>c _.
    conn_write_all c payload))"

section \<open>Session handshake\<close>

definition encode_session_payload :: "crypto \<Rightarrow> u8 \<Rightarrow> genesis \<Rightarrow> u64 \<Rightarrow> string + bytes" where
  "encode_session_payload K opcode g advisory =
    and_then (map_err display_error (state_commitment_hex K g)) (\<lambda>hex.
    if length hex > MAX_SESSION_COMMITMENT_BYTES
    then Inl ''genesis commitment hex too long for wire session (max 512)''
    else if length hex \<ge> 2 ^ 16 then Inl ''commitment length overflow''
    else let hlen = word_of_nat (length hex) :: u16 in
      Inr ([opcode] @ u16_to_be TRIL_WIRE_PROTOCOL_VERSION @ u16_to_be hlen @ as_bytes hex @ u64_to_be advisory))"

definition decode_session_payload :: "bytes \<Rightarrow> string + (u8 \<times> u16 \<times> string \<times> u64)" where
  "decode_session_payload data =
    (if length data < 1 + 2 + 2 + 8 then Inl (PFX_PEER @ '' malformed session frame: too short'')
     else let op = data ! 0;
              ver = u16_of_be [data ! 1, data ! 2];
              hlen = unat (u16_of_be [data ! 3, data ! 4]) in
     if hlen > MAX_SESSION_COMMITMENT_BYTES
     then Inl (PFX_PEER @ '' malformed session frame: commitment length exceeds cap'')
     else if length data < 5 + hlen + 8 then Inl (PFX_PEER @ '' malformed session frame: truncated'')
     else and_then (ok_or (PFX_PEER @ '' malformed session frame: commitment not valid UTF-8'')
        (from_utf8 (take hlen (drop 5 data)))) (\<lambda>hex_str.
     let advisory = u64_of_be (take 8 (drop (5 + hlen) data)) in
     if length data \<noteq> 5 + hlen + 8
     then Inl (PFX_PEER @ '' malformed session frame: trailing bytes after payload'')
     else Inr (op, ver, hex_str, advisory)))"

definition local_commitment_hex :: "crypto \<Rightarrow> genesis \<Rightarrow> string + string" where
  "local_commitment_hex K g = map_err display_error (state_commitment_hex K g)"

text \<open>
  The checks that \<open>handshake_initiator\<close> and \<open>handshake_responder\<close> both make of the peer's session frame;
  the two copies in the code differ in the opcode and the text of its error.
\<close>

definition check_session :: "crypto \<Rightarrow> genesis \<Rightarrow> u8 \<Rightarrow> string \<Rightarrow> bytes \<Rightarrow> io_error + unit" where
  "check_session K g want_op op_error frame =
    and_then (map_err (Io_Error InvalidData) (decode_session_payload frame)) (\<lambda>(op, ver, peer_hex, _).
    if op \<noteq> want_op then Inl (Io_Error InvalidData op_error)
    else if ver \<noteq> TRIL_WIRE_PROTOCOL_VERSION
    then Inl (Io_Error InvalidData (PFX_PEER @ '' disconnecting: incompatible wire version''))
    else and_then (map_err (Io_Error InvalidData) (local_commitment_hex K g)) (\<lambda>local_hex.
      if peer_hex \<noteq> local_hex
      then Inl (Io_Error InvalidData (PFX_PEER @ '' disconnecting: genesis state commitment mismatch''))
      else Inr ()))"

definition handshake_initiator :: "crypto \<Rightarrow> conn \<Rightarrow> genesis \<Rightarrow> u64 \<Rightarrow> conn \<times> (io_error + unit)" where
  "handshake_initiator K c g advisory =
    then_do (lift_io c (map_err (Io_Error InvalidData) (encode_session_payload K OP_SESSION_HELLO g advisory))) (\<lambda>c hello.
    then_do (write_framed c hello) (\<lambda>c _.
    then_do (read_framed c) (\<lambda>c resp.
    lift_io c (check_session K g OP_SESSION_HELLO_ACK (PFX_PEER @ '' disconnecting: expected session HELLO_ACK'') resp))))"

definition handshake_responder :: "crypto \<Rightarrow> conn \<Rightarrow> genesis \<Rightarrow> u64 \<Rightarrow> conn \<times> (io_error + unit)" where
  "handshake_responder K c g advisory =
    then_do (read_framed c) (\<lambda>c frame.
    then_do (lift_io c (check_session K g OP_SESSION_HELLO
       (PFX_PEER @ '' disconnecting: expected session HELLO (op 5) as first frame'') frame)) (\<lambda>c _.
    then_do (lift_io c (map_err (Io_Error InvalidData) (encode_session_payload K OP_SESSION_HELLO_ACK g advisory))) (\<lambda>c ack.
    write_framed c ack)))"

section \<open>Application messages\<close>

definition wire_encode_get_blocks :: "u64 \<Rightarrow> bytes" where
  "wire_encode_get_blocks start_height = [OP_GET_BLOCKS] @ u64_to_be start_height"

text \<open>The loop over the blocks; \<open>None\<close> is a panic of the block encoder.\<close>

fun push_blocks :: "bytes \<Rightarrow> block list \<Rightarrow> (string + bytes) option" where
  "push_blocks out [] = Some (Inr out)"
| "push_blocks out (b # bs) =
    Option.bind (encode_block b) (\<lambda>enc.
    case u32_try_from (length enc) of
      None \<Rightarrow> Some (Inl ''encoded block length overflow'')
    | Some len \<Rightarrow>
       let out = out @ u32_to_be len @ enc in
       if length out > unat MAX_WIRE_FRAME_BYTES
       then Some (Inl ''encoded OP_BLOCKS response exceeds MAX_WIRE_FRAME_BYTES'')
       else push_blocks out bs)"

definition wire_encode_blocks_response :: "block list \<Rightarrow> (string + bytes) option" where
  "wire_encode_blocks_response blks =
    (case u32_try_from (min (length blks) (unat MAX_BLOCKS_PER_BATCH)) of
       None \<Rightarrow> Some (Inl ''block count overflow'')
     | Some n \<Rightarrow> push_blocks ([OP_BLOCKS] @ u32_to_be n) (take (unat n) blks))"

text \<open>The loop \<open>for i in 0..n\<close> over the entries, then the check for trailing bytes.\<close>

fun parse_block_entries :: "nat \<Rightarrow> nat \<Rightarrow> bytes \<Rightarrow> string + block list" where
  "parse_block_entries i 0 data = (if data \<noteq> [] then Inl ''trailing bytes after OP_BLOCKS batch'' else Inr [])"
| "parse_block_entries i (Suc k) data =
    (if length data < 4 then Inl (''truncated block length ('' @ show_nat i @ '')'')
     else let len_raw = u32_of_be (take 4 data); r = drop 4 data in
     if len_raw > MAX_WIRE_FRAME_BYTES
     then Inl (''OP_BLOCKS entry '' @ show_nat i @ '': encoded block length exceeds max frame size'')
     else if length r < unat len_raw then Inl (''truncated block body ('' @ show_nat i @ '')'')
     else and_then (map_err encode_error_text (decode_block (take (unat len_raw) r))) (\<lambda>b.
          and_then (parse_block_entries (i + 1) k (drop (unat len_raw) r)) (\<lambda>bs. Inr (b # bs))))"

definition parse_op_blocks_body :: "bytes \<Rightarrow> u32 \<Rightarrow> string + block list" where
  "parse_op_blocks_body data max_blocks =
    (if length data < 4 then Inl ''short OP_BLOCKS body''
     else let n = u32_of_be (take 4 data) in
     if n > max_blocks
     then Inl (''OP_BLOCKS batch count '' @ show_word n @ '' exceeds max '' @ show_word max_blocks)
     else parse_block_entries 0 (unat n) (drop 4 data))"

definition wire_decode_blocks_response :: "bytes \<Rightarrow> string + block list" where
  "wire_decode_blocks_response payload =
    (case payload of
       [] \<Rightarrow> Inl ''empty response''
     | o1 # rest \<Rightarrow>
        if o1 = OP_BLOCKS then parse_op_blocks_body rest MAX_BLOCKS_PER_BATCH
        else Inl (''expected OP_BLOCKS, got opcode '' @ show_word o1))"

datatype predecoded_inbound =
    Pre_Tx transaction
  | Pre_Block block
  | Pre_GetBlocks u64

datatype peer_frame_error =
    InvalidBlockBudgetExhausted u32
  | StaleBlockIngressQuotaExhausted u32
  | InboundTxIngressQuotaExhausted u32
  | LocalFatal string
  | Protocol io_error

definition predecode_inbound_app_payload :: "bytes \<Rightarrow> peer_frame_error + predecoded_inbound" where
  "predecode_inbound_app_payload payload =
    (case payload of
       [] \<Rightarrow> Inl (Protocol (Io_Error InvalidData ''empty payload''))
     | op # rest \<Rightarrow>
        if op = OP_TX then
          and_then (map_err (\<lambda>e. Protocol (Io_Error InvalidData (encode_error_text e))) (decode_transaction rest)) (\<lambda>tx.
          Inr (Pre_Tx tx))
        else if op = OP_BLOCK then
          and_then (map_err (\<lambda>e. Protocol (Io_Error InvalidData (encode_error_text e))) (decode_block rest)) (\<lambda>b.
          Inr (Pre_Block b))
        else if op = OP_GET_BLOCKS then
          (if length payload \<noteq> 1 + 8
           then Inl (Protocol (Io_Error InvalidData (PFX_PEER @ '' malformed GET_BLOCKS payload length'')))
           else Inr (Pre_GetBlocks (u64_of_be (take 8 rest))))
        else if op = OP_SESSION_HELLO \<or> op = OP_SESSION_HELLO_ACK then
          Inl (Protocol (Io_Error InvalidData (PFX_PEER @ '' session handshake must be first frame only'')))
        else Inl (Protocol (Io_Error InvalidData (PFX_PEER @ '' unknown wire opcode''))))"

section \<open>Frames arrive as they were sent\<close>

lemma max_wire_nat: "unat MAX_WIRE_FRAME_BYTES = 67108864"
  by (simp add: MAX_WIRE_FRAME_BYTES_def)

lemma then_do_ok: "then_do r f = (s', Inr b) \<longleftrightarrow> (\<exists>s a. r = (s, Inr a) \<and> f s a = (s', Inr b))"
  by (cases r; cases "snd r") (auto simp: then_do_def)

lemma then_do_simps [simp]:
  "then_do (s, Inl e) f = (s, Inl e)" "then_do (s, Inr a) f = f s a" "lift_io s r = (s, r)"
  by (simp_all add: then_do_def lift_io_def)

lemma conn_read_exact_ok:
  "conn_read_exact c n = (c', Inr bs) \<longleftrightarrow> length bs = n \<and> (\<exists>r. c_in c = bs @ r \<and> c' = c\<lparr>c_in := r\<rparr>)"
proof
  assume "conn_read_exact c n = (c', Inr bs)"
  then have "length bs = n" "c_in c = bs @ drop n (c_in c)" "c' = c\<lparr>c_in := drop n (c_in c)\<rparr>"
    by (auto simp: conn_read_exact_def split: if_splits)
  then show "length bs = n \<and> (\<exists>r. c_in c = bs @ r \<and> c' = c\<lparr>c_in := r\<rparr>)" by blast
qed (auto simp: conn_read_exact_def)

lemma read_framed_ok:
  "read_framed c = (c', Inr p) \<longleftrightarrow> length p \<le> unat MAX_WIRE_FRAME_BYTES \<and>
     (\<exists>r. c_in c = framed p @ r \<and> c' = c\<lparr>c_in := r\<rparr>)"
proof
  assume "read_framed c = (c', Inr p)"
  then obtain hdr r1 r where h: "length hdr = 4" "c_in c = hdr @ r1" "r1 = p @ r" "c' = c\<lparr>c_in := r\<rparr>"
    "length p = unat (u32_of_be hdr)" "length p \<le> unat MAX_WIRE_FRAME_BYTES"
    by (auto simp: read_framed_def then_do_ok conn_read_exact_ok Let_def word_le_nat_alt not_less split: if_splits)
  then have "framed p = hdr @ p" by (simp add: framed_def)
  with h show "length p \<le> unat MAX_WIRE_FRAME_BYTES \<and> (\<exists>r. c_in c = framed p @ r \<and> c' = c\<lparr>c_in := r\<rparr>)" by simp
next
  assume "length p \<le> unat MAX_WIRE_FRAME_BYTES \<and> (\<exists>r. c_in c = framed p @ r \<and> c' = c\<lparr>c_in := r\<rparr>)"
  then obtain r where len: "length p \<le> unat MAX_WIRE_FRAME_BYTES" and r: "c_in c = framed p @ r" "c' = c\<lparr>c_in := r\<rparr>" by blast
  have u: "unat (word_of_nat (length p) :: u32) = length p" using len by (simp add: max_wire_nat)
  have "conn_read_exact c 4 = (c\<lparr>c_in := p @ r\<rparr>, Inr (u32_to_be (word_of_nat (length p))))"
    using r(1) by (simp add: conn_read_exact_def framed_def)
  with r len u show "read_framed c = (c', Inr p)"
    by (simp add: read_framed_def Let_def conn_read_exact_def word_less_nat_alt)
qed

lemma write_framed_unlimited:
  assumes "c_room c = None" "length p \<le> unat MAX_WIRE_FRAME_BYTES"
  shows "write_framed c p = (c\<lparr>c_out := c_out c @ framed p\<rparr>, Inr ())"
  using assms by (simp add: write_framed_def validate_outbound_framed_payload_len_def u32_try_from_def max_wire_nat
      conn_write_all_def framed_def)

text \<open>A write never produces a frame that the reader on the other side would refuse.\<close>

lemma write_framed_readable:
  assumes "write_framed c p = (c', Inr ())" "c_in d = drop (length (c_out c)) (c_out c') @ r"
  shows "read_framed d = (d\<lparr>c_in := r\<rparr>, Inr p)"
proof -
  from assms(1) have len: "length p \<le> unat MAX_WIRE_FRAME_BYTES"
    by (auto simp: write_framed_def then_do_ok validate_outbound_framed_payload_len_def split: if_splits)
  have "c_out c' = c_out c @ framed p"
    using assms(1) by (auto simp: write_framed_def then_do_ok validate_outbound_framed_payload_len_def conn_write_all_def
        framed_def split: if_splits option.splits)
  with assms(2) len show ?thesis by (simp add: read_framed_ok)
qed

section \<open>The handshake admits exactly peers with the same genesis commitment\<close>

definition session_image :: "u8 \<Rightarrow> u16 \<Rightarrow> string \<Rightarrow> u64 \<Rightarrow> bytes" where
  "session_image op ver hex advisory =
    [op] @ u16_to_be ver @ u16_to_be (word_of_nat (length hex)) @ as_bytes hex @ u64_to_be advisory"

lemma u16_to_be_split: "\<exists>a b. u16_to_be w = [a, b] \<and> u16_of_be [a, b] = w"
proof -
  obtain a b where "u16_to_be w = [a, b]"
    using length_to_be(1) [of w] by (auto simp: length_Suc_conv numeral_2_eq_2 simp del: length_to_be)
  with of_be_to_be(1) [of w] show ?thesis by auto
qed

lemma decode_session_image:
  assumes "rust_string hex" "length hex \<le> MAX_SESSION_COMMITMENT_BYTES"
  shows "decode_session_payload (session_image op ver hex advisory) = Inr (op, ver, hex, advisory)"
proof -
  obtain a b where v: "u16_to_be ver = [a, b]" "u16_of_be [a, b] = ver" using u16_to_be_split by blast
  obtain x y where l: "u16_to_be (word_of_nat (length hex)) = [x, y]" "u16_of_be [x, y] = (word_of_nat (length hex) :: u16)"
    using u16_to_be_split by blast
  have "unat (word_of_nat (length hex) :: u16) = length hex"
    using assms(2) by (simp add: unat_of_nat MAX_SESSION_COMMITMENT_BYTES_def)
  moreover have "drop (5 + length hex) (op # a # b # x # y # as_bytes hex @ u64_to_be advisory) = u64_to_be advisory"
    by (simp add: eval_nat_numeral)
  ultimately show ?thesis using v l assms
    by (simp add: decode_session_payload_def session_image_def Let_def)
qed

lemma decode_session_sound:
  assumes "decode_session_payload data = Inr (op, ver, hex, advisory)"
  shows "rust_string hex \<and> length hex \<le> MAX_SESSION_COMMITMENT_BYTES \<and> data = session_image op ver hex advisory"
proof -
  let ?n = "unat (u16_of_be [data ! 3, data ! 4])"
  from assms have len: "length data = 13 + ?n" and n: "?n \<le> MAX_SESSION_COMMITMENT_BYTES"
    and op: "op = data ! 0" "ver = u16_of_be [data ! 1, data ! 2]"
    and hex: "take ?n (drop 5 data) = as_bytes hex" "rust_string hex"
    and adv: "advisory = u64_of_be (take 8 (drop (5 + ?n) data))"
    by (auto simp: decode_session_payload_def Let_def and_then_Inr_iff from_utf8_Some_iff split: if_splits)
  have lh: "length hex = ?n" using arg_cong [OF hex(1), of length] len by simp
  have "drop (5 + ?n) data = take 8 (drop (5 + ?n) data)" using len by simp
  then have "u64_to_be advisory = drop (5 + ?n) data" using adv len by simp
  moreover have "data = take 5 data @ take ?n (drop 5 data) @ drop (5 + ?n) data"
  proof -
    have "drop 5 data = take ?n (drop 5 data) @ drop ?n (drop 5 data)" by (rule append_take_drop_id [symmetric])
    then have "drop 5 data = take ?n (drop 5 data) @ drop (5 + ?n) data" by (simp add: add.commute)
    then show ?thesis using append_take_drop_id [of 5 data] by argo
  qed
  moreover have "take 5 data = [data ! 0, data ! 1, data ! 2, data ! 3, data ! 4]"
    using len by (simp add: take_Suc_conv_app_nth numeral_eq_Suc)
  moreover have "u16_to_be ver = [data ! 1, data ! 2]" "u16_to_be (word_of_nat (length hex)) = [data ! 3, data ! 4]"
    by (simp_all add: op(2) lh)
  ultimately have "data = session_image op ver hex advisory"
    using hex(1) op(1) by (simp add: session_image_def)
  with hex(2) lh n show ?thesis by simp
qed

lemma check_session_ok:
  "check_session K g want err frame = Inr () \<longleftrightarrow>
     (\<exists>hex advisory. state_commitment_hex K g = Inr hex \<and> rust_string hex \<and> length hex \<le> MAX_SESSION_COMMITMENT_BYTES \<and>
        frame = session_image want TRIL_WIRE_PROTOCOL_VERSION hex advisory)"
  using decode_session_sound
  by (fastforce simp: check_session_def and_then_Inr_iff local_commitment_hex_def decode_session_image split: if_splits)

lemma commitment_string:
  assumes "digest_format K" "state_commitment_hex K g = Inr hex"
  shows "rust_string hex \<and> length hex = 64"
proof -
  from assms(2) obtain raw where "hex = hex_encode K (sha256 K raw)"
    by (auto simp: state_commitment_hex_def state_commitment_raw32_def sha256_raw32_def and_then_Inr_iff)
  with hash_bytes_hex64 [OF assms(1), of raw] have "hex64 hex" by (simp add: hash_bytes_def)
  then show ?thesis using hex64_rust_string by (simp add: hex64_def)
qed

lemma encode_session_image:
  assumes "digest_format K" "state_commitment_hex K g = Inr hex"
  shows "encode_session_payload K op g advisory = Inr (session_image op TRIL_WIRE_PROTOCOL_VERSION hex advisory)"
  using assms(2) commitment_string [OF assms]
  by (simp add: encode_session_payload_def session_image_def MAX_SESSION_COMMITMENT_BYTES_def Let_def)

lemma session_image_length: "length hex = 64 \<Longrightarrow> length (session_image op ver hex advisory) = 77"
  by (simp add: session_image_def)

lemma session_image_inject:
  "rust_string h \<Longrightarrow> rust_string h' \<Longrightarrow> length h \<le> MAX_SESSION_COMMITMENT_BYTES \<Longrightarrow> length h' \<le> MAX_SESSION_COMMITMENT_BYTES \<Longrightarrow>
   session_image op ver h a = session_image op' ver' h' a' \<longleftrightarrow> op = op' \<and> ver = ver' \<and> h = h' \<and> a = a'"
  by (metis Inr_inject decode_session_image prod.inject)

lemma handshake_outcome:
  assumes "digest_format K" "state_commitment_hex K g = Inr cg" "state_commitment_hex K h = Inr ch"
    and "c_room ci = None" "c_room cr = None"
  shows "\<exists>hello ack. encode_session_payload K OP_SESSION_HELLO g ga = Inr hello \<and>
     encode_session_payload K OP_SESSION_HELLO_ACK h ha = Inr ack \<and>
     (c_in cr = framed hello @ r \<longrightarrow> (\<exists>cr'. handshake_responder K cr h ha = (cr', if cg = ch then Inr () else Inl
          (Io_Error InvalidData (PFX_PEER @ '' disconnecting: genesis state commitment mismatch''))) \<and>
        cr' = cr\<lparr>c_in := r, c_out := c_out cr @ (if cg = ch then framed ack else [])\<rparr>)) \<and>
     (c_in ci = framed ack @ r \<longrightarrow> (\<exists>ci'. handshake_initiator K ci g ga = (ci', if cg = ch then Inr () else Inl
          (Io_Error InvalidData (PFX_PEER @ '' disconnecting: genesis state commitment mismatch''))) \<and>
        ci' = ci\<lparr>c_in := r, c_out := c_out ci @ framed hello\<rparr>))"
proof -
  let ?img = "\<lambda>op c a. session_image op TRIL_WIRE_PROTOCOL_VERSION c a"
  note cs = commitment_string [OF assms(1,2)] commitment_string [OF assms(1,3)]
  note enc = encode_session_image [OF assms(1,2)] encode_session_image [OF assms(1,3)]
  have len: "length (?img op cg a) \<le> unat MAX_WIRE_FRAME_BYTES" "length (?img op ch a) \<le> unat MAX_WIRE_FRAME_BYTES" for op a
    using cs by (simp_all add: session_image_length max_wire_nat)
  have dec: "decode_session_payload (?img op c a) = Inr (op, TRIL_WIRE_PROTOCOL_VERSION, c, a)" if "c = cg \<or> c = ch" for op c a
    using that cs by (auto simp: decode_session_image MAX_SESSION_COMMITMENT_BYTES_def)
  have check: "check_session K g op e (?img op ch a) = (if cg = ch then Inr () else Inl
        (Io_Error InvalidData (PFX_PEER @ '' disconnecting: genesis state commitment mismatch'')))"
    "check_session K h op e (?img op cg a) = (if cg = ch then Inr () else Inl
        (Io_Error InvalidData (PFX_PEER @ '' disconnecting: genesis state commitment mismatch'')))" for op e a
    using assms(2,3) by (auto simp: check_session_def dec local_commitment_hex_def)
  have "read_framed cr = (cr\<lparr>c_in := r\<rparr>, Inr (?img OP_SESSION_HELLO cg ga))" if "c_in cr = framed (?img OP_SESSION_HELLO cg ga) @ r"
    using that len by (simp add: read_framed_ok)
  moreover have "read_framed (ci\<lparr>c_out := out\<rparr>) = (ci\<lparr>c_in := r, c_out := out\<rparr>, Inr (?img OP_SESSION_HELLO_ACK ch ha))"
    if "c_in ci = framed (?img OP_SESSION_HELLO_ACK ch ha) @ r" for out
    using that len by (simp add: read_framed_ok)
  ultimately show ?thesis
    using len by (intro exI [of _ "?img OP_SESSION_HELLO cg ga"] exI [of _ "?img OP_SESSION_HELLO_ACK ch ha"])
      (simp add: enc handshake_responder_def handshake_initiator_def check write_framed_unlimited assms(4,5))
qed

text \<open>
  C32. The handshake. A responder opens a session precisely if the first frame is a HELLO of wire
  version 2 that carries its own genesis commitment; when two nodes talk to each other over a
  working connection, both ends succeed if their genesis commitments agree and both fail if not,
  whatever heights they advertise, and a refused initiator is sent nothing.
\<close>

theorem handshake_agreement:
  assumes "digest_format K" "state_commitment_hex K g = Inr cg" "state_commitment_hex K h = Inr ch"
    and "c_room ci = None" "c_room cr = None"
  shows "\<exists>hello ack. encode_session_payload K OP_SESSION_HELLO g ga = Inr hello \<and>
     encode_session_payload K OP_SESSION_HELLO_ACK h ha = Inr ack \<and>
     (c_in cr = framed hello @ r \<longrightarrow> (\<exists>cr'. handshake_responder K cr h ha = (cr', if cg = ch then Inr () else Inl
          (Io_Error InvalidData (PFX_PEER @ '' disconnecting: genesis state commitment mismatch''))) \<and>
        cr' = cr\<lparr>c_in := r, c_out := c_out cr @ (if cg = ch then framed ack else [])\<rparr>)) \<and>
     (c_in ci = framed ack @ r \<longrightarrow> (\<exists>ci'. handshake_initiator K ci g ga = (ci', if cg = ch then Inr () else Inl
          (Io_Error InvalidData (PFX_PEER @ '' disconnecting: genesis state commitment mismatch''))) \<and>
        ci' = ci\<lparr>c_in := r, c_out := c_out ci @ framed hello\<rparr>))"
  using assms by (rule handshake_outcome)

lemma responder_admits_iff:
  assumes "digest_format K" "state_commitment_hex K h = Inr ch" "c_room c = None"
  shows "snd (handshake_responder K c h ha) = Inr () \<longleftrightarrow>
    (\<exists>advisory r. c_in c = framed (session_image OP_SESSION_HELLO TRIL_WIRE_PROTOCOL_VERSION ch advisory) @ r)"
proof -
  note cs = commitment_string [OF assms(1,2)]
  have room: "c_room c' = None" if "read_framed c = (c', Inr p)" for c' p
    using that assms(3) by (auto simp: read_framed_ok)
  have len: "length (session_image op v ch a) \<le> unat MAX_WIRE_FRAME_BYTES" for op v a
    using cs by (simp add: session_image_length max_wire_nat)
  have "snd (handshake_responder K c h ha) = Inr () \<longleftrightarrow> (\<exists>c'. handshake_responder K c h ha = (c', Inr ()))"
    by (cases "handshake_responder K c h ha") auto
  also have "\<dots> \<longleftrightarrow> (\<exists>c' p. read_framed c = (c', Inr p) \<and>
      (\<exists>a. p = session_image OP_SESSION_HELLO TRIL_WIRE_PROTOCOL_VERSION ch a))"
    using assms(2) cs room write_framed_unlimited len
    by (fastforce simp: handshake_responder_def then_do_ok check_session_ok encode_session_image [OF assms(1,2)] MAX_SESSION_COMMITMENT_BYTES_def)
  also have "\<dots> \<longleftrightarrow> (\<exists>advisory r. c_in c = framed (session_image OP_SESSION_HELLO TRIL_WIRE_PROTOCOL_VERSION ch advisory) @ r)"
    unfolding read_framed_ok using len by metis
  finally show ?thesis .
qed

section \<open>Block batches\<close>

definition batch_image :: "block list \<Rightarrow> bytes" where
  "batch_image bs = OP_BLOCKS # u32_to_be (word_of_nat (length bs)) @ concat (map (\<lambda>b. framed (block_image b)) bs)"

definition sendable :: "block \<Rightarrow> bool" where
  "sendable b \<longleftrightarrow> rust_block b \<and> block_fits b \<and> length (block_image b) \<le> unat MAX_WIRE_FRAME_BYTES"

lemma parse_block_entries_ok:
  "parse_block_entries i k data = Inr bs \<longleftrightarrow>
     length bs = k \<and> (\<forall>b \<in> set bs. sendable b) \<and> data = concat (map (\<lambda>b. framed (block_image b)) bs)"
proof (induction k arbitrary: i data bs)
  case 0
  then show ?case by auto
next
  case (Suc k)
  show ?case
  proof
    assume "parse_block_entries i (Suc k) data = Inr bs"
    then obtain b bs' where bs: "bs = b # bs'" and len: "4 \<le> length data" "u32_of_be (take 4 data) \<le> MAX_WIRE_FRAME_BYTES"
      and body: "decode_block (take (unat (u32_of_be (take 4 data))) (drop 4 data)) = Inr b"
        "unat (u32_of_be (take 4 data)) \<le> length (drop 4 data)"
      and rest: "parse_block_entries (i + 1) k (drop (unat (u32_of_be (take 4 data))) (drop 4 data)) = Inr bs'"
      by (auto simp: Let_def and_then_Inr_iff split: if_splits)
    let ?n = "u32_of_be (take 4 data)"
    from body have b: "rust_block b" "block_fits b" "take (unat ?n) (drop 4 data) = block_image b" by (auto simp: decode_block_ok)
    then have n: "length (block_image b) = unat ?n" using body(2) by (metis length_take min.absorb2)
    have "u32_to_be ?n = take 4 data" using len(1) by simp
    moreover have "data = take 4 data @ take (unat ?n) (drop 4 data) @ drop (unat ?n) (drop 4 data)" by (simp del: drop_drop)
    moreover have "framed (block_image b) = u32_to_be ?n @ block_image b" by (simp add: framed_def n)
    ultimately have "data = framed (block_image b) @ drop (unat ?n) (drop 4 data)" using b(3) by (metis append_assoc)
    moreover have "sendable b" using b n len(2) by (simp add: sendable_def word_le_nat_alt)
    ultimately show "length bs = Suc k \<and> (\<forall>b \<in> set bs. sendable b) \<and> data = concat (map (\<lambda>b. framed (block_image b)) bs)"
      using Suc.IH rest bs by auto
  next
    assume a: "length bs = Suc k \<and> (\<forall>b \<in> set bs. sendable b) \<and> data = concat (map (\<lambda>b. framed (block_image b)) bs)"
    then obtain b bs' where bs: "bs = b # bs'" "length bs' = k" by (cases bs) auto
    let ?r = "concat (map (\<lambda>b. framed (block_image b)) bs')"
    from a bs have sb: "sendable b" and data: "data = framed (block_image b) @ ?r" by auto
    have u: "unat (word_of_nat (length (block_image b)) :: u32) = length (block_image b)"
      using sb by (simp add: sendable_def max_wire_nat)
    have "parse_block_entries (i + 1) k ?r = Inr bs'" using Suc.IH a bs by auto
    moreover have "(word_of_nat (length (block_image b)) :: u32) \<le> MAX_WIRE_FRAME_BYTES"
      using sb u by (simp add: sendable_def word_le_nat_alt)
    moreover have "decode_block (block_image b) = Inr b" using sb by (simp add: sendable_def decode_block_ok)
    ultimately show "parse_block_entries i (Suc k) data = Inr bs"
      using bs u by (simp add: data framed_def Let_def not_less)
  qed
qed

lemma decode_batch_ok:
  "wire_decode_blocks_response p = Inr bs \<longleftrightarrow> length bs \<le> 64 \<and> (\<forall>b \<in> set bs. sendable b) \<and> p = batch_image bs"
proof
  assume "wire_decode_blocks_response p = Inr bs"
  then obtain data where p: "p = OP_BLOCKS # data" and len: "4 \<le> length data" "u32_of_be (take 4 data) \<le> 64"
    and e: "parse_block_entries 0 (unat (u32_of_be (take 4 data))) (drop 4 data) = Inr bs"
    by (cases p) (auto simp: wire_decode_blocks_response_def parse_op_blocks_body_def Let_def MAX_BLOCKS_PER_BATCH_def
        simp del: parse_block_entries.simps split: if_splits)
  from e [unfolded parse_block_entries_ok] have bs: "length bs = unat (u32_of_be (take 4 data))" "\<forall>b \<in> set bs. sendable b"
    "drop 4 data = concat (map (\<lambda>b. framed (block_image b)) bs)" by blast+
  have "u32_to_be (word_of_nat (length bs)) = take 4 data" using bs(1) len(1) by simp
  with bs(3) have "data = u32_to_be (word_of_nat (length bs)) @ concat (map (\<lambda>b. framed (block_image b)) bs)"
    by (metis append_take_drop_id)
  with p have "p = batch_image bs" unfolding batch_image_def by metis
  moreover have "length bs \<le> 64" using bs(1) len(2) by (simp add: word_le_nat_alt)
  ultimately show "length bs \<le> 64 \<and> (\<forall>b \<in> set bs. sendable b) \<and> p = batch_image bs" using bs(2) by blast
next
  assume a: "length bs \<le> 64 \<and> (\<forall>b \<in> set bs. sendable b) \<and> p = batch_image bs"
  then have u: "unat (word_of_nat (length bs) :: u32) = length bs" by simp
  have "parse_block_entries 0 (length bs) (concat (map (\<lambda>b. framed (block_image b)) bs)) = Inr bs"
    using a by (simp add: parse_block_entries_ok)
  with a u show "wire_decode_blocks_response p = Inr bs"
    by (simp add: wire_decode_blocks_response_def batch_image_def parse_op_blocks_body_def MAX_BLOCKS_PER_BATCH_def Let_def
        word_less_nat_alt not_less del: parse_block_entries.simps)
qed

lemma push_blocks_spec:
  assumes "\<forall>b \<in> set bs. block_fits b \<and> length (block_image b) < 2 ^ 32" "length out \<le> unat MAX_WIRE_FRAME_BYTES"
  shows "push_blocks out bs = Some (if length (out @ concat (map (\<lambda>b. framed (block_image b)) bs)) \<le> unat MAX_WIRE_FRAME_BYTES
    then Inr (out @ concat (map (\<lambda>b. framed (block_image b)) bs))
    else Inl ''encoded OP_BLOCKS response exceeds MAX_WIRE_FRAME_BYTES'')"
  using assms
proof (induction bs arbitrary: out)
  case (Cons b bs)
  have "encode_block b = Some (block_image b)" using Cons.prems(1) by (simp add: encode_block_ok)
  then have step: "push_blocks out (b # bs) = (if unat MAX_WIRE_FRAME_BYTES < length (out @ framed (block_image b))
      then Some (Inl ''encoded OP_BLOCKS response exceeds MAX_WIRE_FRAME_BYTES'')
      else push_blocks (out @ framed (block_image b)) bs)"
    using Cons.prems(1) by (simp add: u32_try_from_def framed_def Let_def)
  show ?case
  proof (cases "length (out @ framed (block_image b)) \<le> unat MAX_WIRE_FRAME_BYTES")
    case True
    from Cons.IH [OF _ True] Cons.prems(1) True show ?thesis unfolding step by (simp add: not_less)
  next
    case False
    then show ?thesis unfolding step by simp
  qed
qed simp

lemma encode_batch:
  assumes "\<forall>b \<in> set (take 64 bs). rust_block b \<and> block_fits b \<and> length (block_image b) < 2 ^ 32"
  shows "wire_encode_blocks_response bs =
      Some (if length (batch_image (take 64 bs)) \<le> unat MAX_WIRE_FRAME_BYTES then Inr (batch_image (take 64 bs))
        else Inl ''encoded OP_BLOCKS response exceeds MAX_WIRE_FRAME_BYTES'')"
proof -
  let ?n = "min (length bs) 64"
  have n: "?n < 2 ^ 32" "unat (word_of_nat ?n :: u32) = ?n" "take ?n bs = take 64 bs"
    by (simp_all add: min_def)
  have "wire_encode_blocks_response bs = push_blocks ([OP_BLOCKS] @ u32_to_be (word_of_nat ?n)) (take 64 bs)"
    unfolding wire_encode_blocks_response_def using n by (simp add: MAX_BLOCKS_PER_BATCH_def u32_try_from_def)
  also have "\<dots> = Some (if length (batch_image (take 64 bs)) \<le> unat MAX_WIRE_FRAME_BYTES then Inr (batch_image (take 64 bs))
        else Inl ''encoded OP_BLOCKS response exceeds MAX_WIRE_FRAME_BYTES'')"
    using assms by (subst push_blocks_spec) (auto simp: max_wire_nat batch_image_def)
  finally show ?thesis .
qed

text \<open>
  C33. Serving blocks: the reply to a block request carries the first 64 blocks of the slice and is
  decoded by the peer to exactly these; but if their encodings do not fit into one 64 MiB frame the
  server produces an error instead of a shorter batch.
\<close>

theorem batch_round_trip:
  assumes "\<forall>b \<in> set (take 64 bs). rust_block b \<and> block_fits b \<and> length (block_image b) < 2 ^ 32"
  shows "wire_encode_blocks_response bs =
      Some (if length (batch_image (take 64 bs)) \<le> unat MAX_WIRE_FRAME_BYTES then Inr (batch_image (take 64 bs))
        else Inl ''encoded OP_BLOCKS response exceeds MAX_WIRE_FRAME_BYTES'') \<and>
    (length (batch_image (take 64 bs)) \<le> unat MAX_WIRE_FRAME_BYTES \<longrightarrow>
       wire_decode_blocks_response (batch_image (take 64 bs)) = Inr (take 64 bs))"
proof
  show "wire_encode_blocks_response bs =
      Some (if length (batch_image (take 64 bs)) \<le> unat MAX_WIRE_FRAME_BYTES then Inr (batch_image (take 64 bs))
        else Inl ''encoded OP_BLOCKS response exceeds MAX_WIRE_FRAME_BYTES'')" by (rule encode_batch [OF assms])
  show "length (batch_image (take 64 bs)) \<le> unat MAX_WIRE_FRAME_BYTES \<longrightarrow>
       wire_decode_blocks_response (batch_image (take 64 bs)) = Inr (take 64 bs)"
  proof
    assume len: "length (batch_image (take 64 bs)) \<le> unat MAX_WIRE_FRAME_BYTES"
    have "length (block_image b) \<le> unat MAX_WIRE_FRAME_BYTES" if "b \<in> set (take 64 bs)" for b
    proof -
      have "length (framed (block_image b)) \<le> sum_list (map length (map (\<lambda>b. framed (block_image b)) (take 64 bs)))"
        using that by (intro member_le_sum_list) (auto simp: image_image)
      then show ?thesis using len by (simp add: batch_image_def length_concat framed_def)
    qed
    with assms show "wire_decode_blocks_response (batch_image (take 64 bs)) = Inr (take 64 bs)"
      by (simp add: decode_batch_ok sendable_def)
  qed
qed

end
