(* ===== verification/Sizes.thy ===== *)
theory Sizes
  imports Storage Pending_File Wire
begin

text \<open>
  How large things get.  Validation bounds every field of a transaction, so what the node admits,
  queues, seals, stores and serves stays far below the frame limits of the queue file, of
  \<open>chain.blocks\<close> and of the wire.  A frame limit can only be hit by a block that a peer made.
\<close>

lemma length_framed [simp]: "length (framed b) = 4 + length b"
  by (simp add: framed_def)

lemma length_tx_image:
  "length (tx_image tx) = 57 + length (str (sender tx)) + length (str (receiver tx)) + length (public_key tx) +
     length (signature tx) + length (tx_hash tx)"
  by (simp add: tx_image_def TX_MAGIC_def)

lemma length_txs_image_le: "\<forall>tx \<in> set txs. length (tx_image tx) \<le> k \<Longrightarrow> length (txs_image txs) \<le> (4 + k) * length txs"
  by (induction txs) (auto simp: txs_image_def)

lemma length_block_image:
  "length (block_image b) = 33 + length (previous_hash b) + length (block_hash b) + length (txs_image (transactions b))"
  by (simp add: block_image_def BLOCK_MAGIC_def)

text \<open>A transaction that validates has 409 bytes at most.\<close>

lemma valid_tx_fields:
  assumes "digest_format K" "tx_basic_validate K tx = Inr ()"
  shows "length (str (sender tx)) = 64 \<and> length (str (receiver tx)) \<le> 128 \<and> length (public_key tx) = 32 \<and>
    length (signature tx) = 64 \<and> length (tx_hash tx) = 64"
  using assms(2) tx_valid_hex64 [OF assms] tx_valid_sender_hex64 [OF assms]
  by (auto simp: tx_basic_validate_ok verify_signature_def address_is_valid_def hex64_def split: if_splits)

lemma valid_tx_size:
  assumes "digest_format K" "tx_basic_validate K tx = Inr ()"
  shows "length (tx_image tx) \<le> 409" "tx_fits tx"
  using valid_tx_fields [OF assms] by (simp_all add: length_tx_image tx_fits_def)

lemma valid_tx_rust:
  assumes "digest_format K" "tx_basic_validate K tx = Inr ()" "rust_string (str (receiver tx))"
  shows "rust_transaction tx"
  using assms(3) hex64_rust_string tx_valid_hex64 [OF assms(1,2)] tx_valid_sender_hex64 [OF assms(1,2)]
  by (simp add: rust_transaction_def)

lemma valid_tx_queueable:
  assumes "digest_format K" "tx_basic_validate K tx = Inr ()" "rust_string (str (receiver tx))"
  shows "queueable tx"
  using valid_tx_size [OF assms(1,2)] valid_tx_rust [OF assms] by (simp add: queueable_def MAX_PENDING_TX_FRAME_def)

text \<open>A block of \<open>n\<close> valid transactions with hexadecimal hashes, or on top of the genesis block.\<close>

definition valid_body :: "crypto \<Rightarrow> block \<Rightarrow> bool" where
  "valid_body K b \<longleftrightarrow> rust_string (previous_hash b) \<and> length (previous_hash b) \<le> 64 \<and> hex64 (block_hash b) \<and>
     (\<forall>tx \<in> set (transactions b). tx_basic_validate K tx = Inr () \<and> rust_string (str (receiver tx)))"

lemma valid_body_image:
  assumes "digest_format K" "valid_body K b"
  shows "length (block_image b) \<le> 161 + 413 * length (transactions b)"
proof -
  have "length (txs_image (transactions b)) \<le> (4 + 409) * length (transactions b)"
    using assms(2) valid_tx_size [OF assms(1)] by (intro length_txs_image_le) (simp add: valid_body_def)
  with assms(2) show ?thesis by (simp add: length_block_image valid_body_def hex64_def)
qed

lemma valid_body_rust:
  assumes "digest_format K" "valid_body K b" "length (transactions b) < 2 ^ 32"
  shows "rust_block b \<and> block_fits b"
proof -
  have "length (tx_image tx) < 2 ^ 32 \<and> tx_fits tx" if "tx \<in> set (transactions b)" for tx
    using that assms(2) valid_tx_size [OF assms(1), of tx] by (fastforce simp: valid_body_def)
  moreover have "rust_transaction tx" if "tx \<in> set (transactions b)" for tx
    using that assms(2) valid_tx_rust [OF assms(1), of tx] by (simp add: valid_body_def)
  ultimately show ?thesis
    using assms(2,3) hex64_rust_string [of "block_hash b"]
    by (auto simp: rust_block_def block_fits_def txs_fit_def valid_body_def hex64_def)
qed

lemma valid_body_storable:
  assumes "digest_format K" "valid_body K b" "length (transactions b) \<le> 160000"
  shows "storable b"
  using valid_body_image [OF assms(1,2)] valid_body_rust [OF assms(1,2)] assms(3)
  by (simp add: storable_def MAX_FRAME_BYTES_def)

end
