(* ===== verification/Peer_Book.thy ===== *)
theory Peer_Book
  imports Rust_Strings
begin

text \<open>
  \<open>peer_book.rs\<close>: the durable list of peers with failure streaks and cooldown.  TOML reading and
  writing is the \<open>toml\<close> package (parameters), the clock is the argument \<open>now\<close>, and the outcomes of
  file operations are parameters.  A file is its text, \<open>None\<close> if it does not exist.
\<close>

definition FAIL_STREAK_COOLDOWN_THRESHOLD :: u32 where "FAIL_STREAK_COOLDOWN_THRESHOLD = 5"
definition COOLDOWN_BASE_SECS :: u64 where "COOLDOWN_BASE_SECS = 30"

record peer_entry =
  pe_addr :: string
  fail_streak :: u32
  last_fail_unix :: u64
  last_ok_unix :: u64
  include_in_gossip :: bool

record peer_book_file =
  pbf_version :: u32
  pbf_peers :: "peer_entry list"

record peer_book =
  by_addr :: "(string, peer_entry) fmap"

definition peer_book_default :: peer_book where
  "peer_book_default = \<lparr>by_addr = fmempty\<rparr>"

definition load_or_empty ::
  "(string \<Rightarrow> string + peer_book_file) \<Rightarrow> string \<Rightarrow> (string + string) option \<Rightarrow> string + peer_book" where
  "load_or_empty toml path contents =
    (case contents of
       None \<Rightarrow> Inr peer_book_default
     | Some read \<Rightarrow>
         and_then (map_err (\<lambda>e. path @ '': '' @ e) read) (\<lambda>raw.
         and_then (map_err (\<lambda>e. path @ '': peer_book TOML: '' @ e) (toml raw)) (\<lambda>f.
         Inr (fold (\<lambda>e b. b\<lparr>by_addr := fmupd (pe_addr e) e (by_addr b)\<rparr>) (pbf_peers f) peer_book_default))))"

definition book_comment :: string where
  "book_comment = ''# Trilogicon peer book '' @ em_dash @ '' known peers and connection health (v2).'' @
     [CHR 10] @ ''# Edit with care; invalid addresses are skipped at runtime.'' @ [CHR 10, CHR 10]"

text \<open>The values of the map; the source's \<open>HashMap\<close> gives them in some order.\<close>

definition book_values :: "peer_book \<Rightarrow> peer_entry list" where
  "book_values b = map (\<lambda>k. the (fmlookup (by_addr b) k)) (sorted_list_of_fset (fmdom (by_addr b)))"

definition book_save ::
  "(peer_book_file \<Rightarrow> string + string) \<Rightarrow> string option \<Rightarrow> write_outcome \<Rightarrow>
     string option \<Rightarrow> peer_book \<Rightarrow> string option \<times> (string + unit)" where
  "book_save toml mkdir_failure wr contents b =
    (case toml \<lparr>pbf_version = 1, pbf_peers = book_values b\<rparr> of
       Inl e \<Rightarrow> (contents, Inl e)
     | Inr body \<Rightarrow>
        (case mkdir_failure of
           Some e \<Rightarrow> (contents, Inl e)
         | None \<Rightarrow> fs_write wr (book_comment @ body) contents))"

definition fresh_entry :: "bool \<Rightarrow> string \<Rightarrow> peer_entry" where
  "fresh_entry gossip addr =
    \<lparr>pe_addr = addr, fail_streak = 0, last_fail_unix = 0, last_ok_unix = 0, include_in_gossip = gossip\<rparr>"

definition merge_seed :: "peer_book \<Rightarrow> string \<Rightarrow> peer_book" where
  "merge_seed b addr =
    (if addr = [] then b
     else (case fmlookup (by_addr b) addr of
             Some e \<Rightarrow> b\<lparr>by_addr := fmupd addr (e\<lparr>include_in_gossip := True\<rparr>) (by_addr b)\<rparr>
           | None \<Rightarrow> b\<lparr>by_addr := fmupd addr (fresh_entry True addr) (by_addr b)\<rparr>))"

fun merge_seeds_report_new :: "peer_book \<Rightarrow> string list \<Rightarrow> peer_book \<times> nat" where
  "merge_seeds_report_new b [] = (b, 0)"
| "merge_seeds_report_new b (a # addrs) =
    (if a = [] then merge_seeds_report_new b addrs
     else (case fmlookup (by_addr b) a of
             Some e \<Rightarrow> merge_seeds_report_new (b\<lparr>by_addr := fmupd a (e\<lparr>include_in_gossip := True\<rparr>) (by_addr b)\<rparr>) addrs
           | None \<Rightarrow> (let (b', n) = merge_seeds_report_new (b\<lparr>by_addr := fmupd a (fresh_entry True a) (by_addr b)\<rparr>) addrs
                     in (b', n + 1))))"

definition merge_inbound_peer :: "peer_book \<Rightarrow> string \<Rightarrow> peer_book" where
  "merge_inbound_peer b addr =
    (if addr = [] then b
     else (case fmlookup (by_addr b) addr of
             Some _ \<Rightarrow> b
           | None \<Rightarrow> b\<lparr>by_addr := fmupd addr (fresh_entry False addr) (by_addr b)\<rparr>))"

text \<open>The loop over the seeds of \<open>sync_candidates\<close>, with the set \<open>seen\<close>.\<close>

fun seed_candidates :: "string fset \<Rightarrow> string list \<Rightarrow> string fset \<times> string list" where
  "seed_candidates seen [] = (seen, [])"
| "seed_candidates seen (s # seeds) =
    (let t = trim s in
     if t = [] \<or> t |\<in>| seen then seed_candidates seen seeds
     else (let (seen', out) = seed_candidates (finsert t seen) seeds in (seen', t # out)))"

definition sync_candidates :: "peer_book \<Rightarrow> string list \<Rightarrow> string list" where
  "sync_candidates b seeds =
    (let (seen, out) = seed_candidates {||} seeds;
         rest = filter (\<lambda>k. k |\<notin>| seen \<and> include_in_gossip (the (fmlookup (by_addr b) k)))
                  (sorted_list_of_fset (fmdom (by_addr b)))
     in out @ sort rest)"

definition is_available :: "peer_book \<Rightarrow> string \<Rightarrow> u64 \<Rightarrow> bool" where
  "is_available b addr now =
    (case fmlookup (by_addr b) addr of
       None \<Rightarrow> True
     | Some e \<Rightarrow>
         if fail_streak e < FAIL_STREAK_COOLDOWN_THRESHOLD then True
         else let mult = min (fail_streak e) 8;
                  need = saturating_mul COOLDOWN_BASE_SECS (ucast mult)
              in need \<le> saturating_sub now (last_fail_unix e))"

definition filter_available :: "peer_book \<Rightarrow> string list \<Rightarrow> u64 \<Rightarrow> string list" where
  "filter_available b addrs now = filter (\<lambda>a. is_available b a now) addrs"

definition gossip_addresses :: "peer_book \<Rightarrow> nat \<Rightarrow> string list" where
  "gossip_addresses b limit =
    take limit (sort (filter (\<lambda>k. include_in_gossip (the (fmlookup (by_addr b) k)))
      (sorted_list_of_fset (fmdom (by_addr b)))))"

definition entry_or_insert :: "peer_book \<Rightarrow> string \<Rightarrow> peer_entry" where
  "entry_or_insert b addr = (case fmlookup (by_addr b) addr of Some e \<Rightarrow> e | None \<Rightarrow> fresh_entry True addr)"

definition record_ok :: "peer_book \<Rightarrow> string \<Rightarrow> u64 \<Rightarrow> peer_book" where
  "record_ok b addr now =
    b\<lparr>by_addr := fmupd addr ((entry_or_insert b addr)\<lparr>fail_streak := 0, last_ok_unix := now\<rparr>) (by_addr b)\<rparr>"

definition record_fail :: "peer_book \<Rightarrow> string \<Rightarrow> u64 \<Rightarrow> peer_book" where
  "record_fail b addr now =
    (let e = entry_or_insert b addr in
     b\<lparr>by_addr := fmupd addr (e\<lparr>fail_streak := saturating_add (fail_streak e) 1, last_fail_unix := now\<rparr>) (by_addr b)\<rparr>)"

section \<open>The invariant: entries carry their own key\<close>

definition book_inv :: "peer_book \<Rightarrow> bool" where
  "book_inv b \<longleftrightarrow> (\<forall>k e. fmlookup (by_addr b) k = Some e \<longrightarrow> pe_addr e = k)"

lemma book_inv_upd: "book_inv b \<Longrightarrow> pe_addr e = k \<Longrightarrow> book_inv (b\<lparr>by_addr := fmupd k e (by_addr b)\<rparr>)"
  by (simp add: book_inv_def)

lemma book_inv_lookup: "book_inv b \<Longrightarrow> fmlookup (by_addr b) k = Some e \<Longrightarrow> pe_addr e = k"
  by (simp add: book_inv_def)

lemma pe_addr_simps [simp]: "pe_addr (fresh_entry g a) = a" "include_in_gossip (fresh_entry g a) = g"
  by (simp_all add: fresh_entry_def)

lemma entry_or_insert_addr: "book_inv b \<Longrightarrow> pe_addr (entry_or_insert b addr) = addr"
  by (auto simp: entry_or_insert_def book_inv_def split: option.split)

lemma book_default_inv [simp]: "book_inv peer_book_default"
  by (simp add: book_inv_def peer_book_default_def)

lemma book_ops_inv:
  assumes "book_inv b"
  shows "book_inv (merge_seed b a)" "book_inv (merge_inbound_peer b a)"
    "book_inv (record_ok b a now)" "book_inv (record_fail b a now)"
  using assms entry_or_insert_addr [OF assms, of a]
  by (auto simp: merge_seed_def merge_inbound_peer_def record_ok_def record_fail_def Let_def
      intro!: book_inv_upd dest: book_inv_lookup split: option.split)

lemma fold_entries_lookup:
  assumes "distinct (map pe_addr es)"
  shows "fmlookup (by_addr (fold (\<lambda>e b. b\<lparr>by_addr := fmupd (pe_addr e) e (by_addr b)\<rparr>) es b)) k =
    (case find (\<lambda>e. pe_addr e = k) es of Some e \<Rightarrow> Some e | None \<Rightarrow> fmlookup (by_addr b) k)"
  using assms
proof (induction es arbitrary: b)
  case (Cons e es)
  have "pe_addr e = k \<Longrightarrow> find (\<lambda>e. pe_addr e = k) es = None"
    using Cons.prems by (simp add: find_None_iff) (metis image_eqI)
  with Cons show ?case by (auto split: option.split)
qed simp

lemma fold_entries_inv:
  "book_inv b \<Longrightarrow> book_inv (fold (\<lambda>e b. b\<lparr>by_addr := fmupd (pe_addr e) e (by_addr b)\<rparr>) es b)"
  by (induction es arbitrary: b) (auto intro: book_inv_upd)

lemma load_inv: "load_or_empty toml path contents = Inr b \<Longrightarrow> book_inv b"
  by (auto simp: load_or_empty_def and_then_Inr_iff fold_entries_inv split: option.splits)

lemma fset_keys [simp]: "set (sorted_list_of_fset F) = fset F" "distinct (sorted_list_of_fset F)"
  "sorted (sorted_list_of_fset F)"
  by (simp_all add: sorted_list_of_fset.rep_eq)

lemma keys_iff: "k \<in> fset (fmdom (by_addr b)) \<longleftrightarrow> (\<exists>e. fmlookup (by_addr b) k = Some e)"
  by (auto simp: fmlookup_dom_iff)

lemma book_values_addr: "book_inv b \<Longrightarrow> map pe_addr (book_values b) = sorted_list_of_fset (fmdom (by_addr b))"
  unfolding book_values_def map_map
  by (rule map_idI) (auto simp: keys_iff dest: book_inv_lookup)

lemma find_unique: "x \<in> set xs \<Longrightarrow> P x \<Longrightarrow> (\<And>y. y \<in> set xs \<Longrightarrow> P y \<Longrightarrow> y = x) \<Longrightarrow> find P xs = Some x"
proof (induction xs)
  case (Cons a xs)
  show ?case
  proof (cases "P a")
    case True
    with Cons.prems(3) [of a] show ?thesis by simp
  next
    case False
    with Cons.prems(1,2) have "x \<in> set xs" by auto
    then have "find P xs = Some x" using Cons.prems(2,3) by (intro Cons.IH) simp_all
    with False show ?thesis by simp
  qed
qed simp

lemma find_book_values:
  assumes "book_inv b"
  shows "find (\<lambda>e. pe_addr e = k) (book_values b) = fmlookup (by_addr b) k"
proof (cases "fmlookup (by_addr b) k")
  case None
  then have "\<forall>e \<in> set (book_values b). pe_addr e \<noteq> k"
    using book_inv_lookup [OF assms] by (auto simp: book_values_def keys_iff)
  then show ?thesis using None by (simp add: find_None_iff)
next
  case (Some e)
  then have "k \<in> fset (fmdom (by_addr b))" "e = the (fmlookup (by_addr b) k)" by (auto simp: keys_iff)
  then have "e \<in> set (book_values b)" unfolding book_values_def by simp
  moreover have "pe_addr e = k" by (rule book_inv_lookup [OF assms Some])
  moreover have "e' = e" if "e' \<in> set (book_values b)" "pe_addr e' = k" for e'
    using that Some book_inv_lookup [OF assms] by (auto simp: book_values_def keys_iff)
  ultimately show ?thesis unfolding Some by (rule find_unique)
qed

lemma fold_book_values:
  assumes "book_inv b"
  shows "fold (\<lambda>e b. b\<lparr>by_addr := fmupd (pe_addr e) e (by_addr b)\<rparr>) (book_values b) peer_book_default = b"
proof -
  have "distinct (map pe_addr (book_values b))" using book_values_addr [OF assms] by simp
  then have "by_addr (fold (\<lambda>e b. b\<lparr>by_addr := fmupd (pe_addr e) e (by_addr b)\<rparr>) (book_values b) peer_book_default) = by_addr b"
    by (intro fmap_ext) (simp add: fold_entries_lookup find_book_values [OF assms] peer_book_default_def split: option.split)
  then show ?thesis by simp
qed

section \<open>Candidates for synchronisation\<close>

lemma seed_candidates_spec:
  assumes "seed_candidates seen seeds = (seen', out)"
  shows "distinct out \<and> set out = {t. \<exists>s \<in> set seeds. t = trim s \<and> t \<noteq> []} - fset seen \<and> fset seen' = fset seen \<union> set out"
  using assms
proof (induction seeds arbitrary: seen seen' out)
  case (Cons s seeds)
  show ?case
  proof (cases "trim s = [] \<or> trim s |\<in>| seen")
    case True
    with Cons.prems have "seed_candidates seen seeds = (seen', out)" by (simp add: Let_def)
    from Cons.IH [OF this] True show ?thesis by auto
  next
    case False
    obtain seen1 out1 where r: "seed_candidates (finsert (trim s) seen) seeds = (seen1, out1)" by fastforce
    note IH = Cons.IH [OF r]
    from Cons.prems False r have "seen' = seen1" "out = trim s # out1" by (simp_all add: Let_def)
    with IH False show ?thesis by auto
  qed
qed simp

text \<open>
  The synchronisation targets are, without repetition, the non-blank trimmed seeds in front and
  then, in ascending order, exactly the other book addresses that may be gossiped: an address
  learned only from an inbound connection is never dialled unless the operator configured it.
\<close>

theorem sync_candidates_spec:
  "\<exists>front rest. sync_candidates b seeds = front @ rest \<and> distinct (front @ rest) \<and>
     set front = {t. \<exists>s \<in> set seeds. t = trim s \<and> t \<noteq> []} \<and> sorted rest \<and>
     (\<forall>k. k \<in> set rest \<longleftrightarrow> k \<notin> set front \<and> (\<exists>e. fmlookup (by_addr b) k = Some e \<and> include_in_gossip e))"
proof -
  obtain seen out where s: "seed_candidates {||} seeds = (seen, out)" by fastforce
  let ?rest = "sort (filter (\<lambda>k. k |\<notin>| seen \<and> include_in_gossip (the (fmlookup (by_addr b) k)))
    (sorted_list_of_fset (fmdom (by_addr b))))"
  note spec = seed_candidates_spec [OF s]
  have "sync_candidates b seeds = out @ ?rest" using s by (simp add: sync_candidates_def)
  moreover have "distinct (out @ ?rest)" using spec by auto
  moreover have "\<forall>k. k \<in> set ?rest \<longleftrightarrow> k \<notin> set out \<and> (\<exists>e. fmlookup (by_addr b) k = Some e \<and> include_in_gossip e)"
    using spec by (auto simp: keys_iff)
  ultimately show ?thesis using spec by (intro exI [of _ out] exI [of _ ?rest]) simp
qed

section \<open>Back-off\<close>

fun fail_run :: "peer_book \<Rightarrow> string \<Rightarrow> u64 list \<Rightarrow> peer_book" where
  "fail_run b addr [] = b"
| "fail_run b addr (t # ts) = fail_run (record_fail b addr t) addr ts"

lemma fail_run_lookup:
  assumes "fmlookup (by_addr b) addr = Some e"
  shows "\<exists>e'. fmlookup (by_addr (fail_run b addr ts)) addr = Some e' \<and>
    unat (fail_streak e') = min (unat (fail_streak e) + length ts) (2 ^ 32 - 1) \<and>
    last_fail_unix e' = last (last_fail_unix e # ts)"
  using assms
proof (induction ts arbitrary: b e)
  case Nil
  then show ?case using unat_bound [of "fail_streak e"] by simp
next
  case (Cons t ts)
  have "fmlookup (by_addr (record_fail b addr t)) addr =
    Some (e\<lparr>fail_streak := saturating_add (fail_streak e) 1, last_fail_unix := t\<rparr>)"
    using Cons.prems by (simp add: record_fail_def entry_or_insert_def Let_def)
  from Cons.IH [OF this] show ?case by (auto simp: unat_saturating_add)
qed

lemma is_available_nat:
  assumes "fmlookup (by_addr b) addr = Some e"
  shows "is_available b addr now \<longleftrightarrow> unat (fail_streak e) < 5 \<or>
    30 * min (unat (fail_streak e)) 8 \<le> unat now - unat (last_fail_unix e)"
proof -
  have m: "unat (ucast (min (fail_streak e) 8) :: u64) = min (unat (fail_streak e)) 8"
  proof -
    have "unat (min (fail_streak e) 8) = min (unat (fail_streak e)) 8" by (simp add: min_def word_le_nat_alt)
    then show ?thesis by (simp add: unsigned_ucast_eq take_bit_nat_eq_self)
  qed
  show ?thesis
    using assms by (auto simp: is_available_def Let_def FAIL_STREAK_COOLDOWN_THRESHOLD_def COOLDOWN_BASE_SECS_def
        word_less_nat_alt word_le_nat_alt unat_saturating_mul unat_saturating_sub m)
qed

text \<open>
  C39. Back-off of a peer whose last attempts all failed: after \<open>n\<close> consecutive failures since its
  last success (or since it was first tried) it is dialled again exactly if \<open>n\<close> is below five or
  \<open>30 * min n 8\<close> seconds have passed since the last one; so it is never shut out for more than
  240 seconds, for every \<open>n\<close> up to the saturation point of the counter and beyond.
\<close>

theorem backoff_window:
  assumes "0 < length ts"
  shows "is_available (fail_run (record_ok b addr t0) addr ts) addr now \<longleftrightarrow>
     length ts < 5 \<or> 30 * min (length ts) 8 \<le> unat now - unat (last ts)"
proof -
  have "fmlookup (by_addr (record_ok b addr t0)) addr =
    Some ((entry_or_insert b addr)\<lparr>fail_streak := 0, last_ok_unix := t0\<rparr>)"
    by (simp add: record_ok_def)
  from fail_run_lookup [OF this, of ts] obtain e where
    e: "fmlookup (by_addr (fail_run (record_ok b addr t0) addr ts)) addr = Some e"
      "unat (fail_streak e) = min (length ts) (2 ^ 32 - 1)" "last_fail_unix e = last ts"
    using assms by auto
  then show ?thesis by (simp add: is_available_nat [OF e(1)] min_def)
qed

section \<open>Saving and loading\<close>

text \<open>What the code relies on of the \<open>toml\<close> package: text it wrote, after comment lines, reads back.\<close>

definition toml_round_trip :: "(peer_book_file \<Rightarrow> string + string) \<Rightarrow> (string \<Rightarrow> string + peer_book_file) \<Rightarrow> bool" where
  "toml_round_trip wr rd \<longleftrightarrow> (\<forall>f body. wr f = Inr body \<longrightarrow> rd (book_comment @ body) = Inr f)"

lemma save_load:
  assumes "toml_round_trip wr rd" "book_inv b" "wr \<lparr>pbf_version = 1, pbf_peers = book_values b\<rparr> = Inr body"
  shows "book_save wr None Write_Ok contents b = (Some (book_comment @ body), Inr ()) \<and>
    load_or_empty rd path (Some (Inr (book_comment @ body))) = Inr b"
proof -
  have "rd (book_comment @ body) = Inr \<lparr>pbf_version = 1, pbf_peers = book_values b\<rparr>"
    using assms(1,3) by (simp add: toml_round_trip_def)
  with assms show ?thesis by (simp add: book_save_def load_or_empty_def fold_book_values)
qed

lemma merge_seeds_eq:
  "fst (merge_seeds_report_new b addrs) = fold (\<lambda>a b. merge_seed b a) addrs b"
  by (induction b addrs rule: merge_seeds_report_new.induct)
    (auto simp: merge_seed_def Let_def split: option.split prod.split)

lemma merge_seeds_count:
  "snd (merge_seeds_report_new b addrs) =
     card (fset (fmdom (by_addr (fst (merge_seeds_report_new b addrs))))) - card (fset (fmdom (by_addr b))) \<and>
   card (fset (fmdom (by_addr b))) \<le> card (fset (fmdom (by_addr (fst (merge_seeds_report_new b addrs)))))"
proof (induction b addrs rule: merge_seeds_report_new.induct)
  case (2 b a addrs)
  show ?case
  proof (cases "a = []")
    case True
    with 2 show ?thesis by simp
  next
    case False
    show ?thesis
    proof (cases "fmlookup (by_addr b) a")
      case None
      then have "a \<notin> fset (fmdom (by_addr b))" by (simp add: fmlookup_dom_iff)
      with 2(2) [OF False None] None False show ?thesis by (auto simp: Let_def split: prod.split)
    next
      case (Some e)
      then have "insert a (fset (fmdom (by_addr b))) = fset (fmdom (by_addr b))" by (auto simp: fmlookup_dom_iff)
      with 2(3) [OF False Some] Some False show ?thesis by simp
    qed
  qed
qed simp

end
