(* ===== verification/Data_Dir_Bind.thy ===== *)
theory Data_Dir_Bind
  imports Genesis
begin

text \<open>
  \<open>data_dir_bind.rs\<close>: the file \<open>genesis_bind.toml\<close> that ties a data directory to a genesis state
  commitment.  TOML is the \<open>toml\<close> package (parameters \<open>rd\<close> and \<open>wr\<close> on the one-field document).
  The operating system is the record \<open>bind_io\<close>: what each call answers, and a bind file that
  another process may install between the first existence check and the installation (the lock is
  advisory).  The fallback's second existence check and its rename are one step: a process that ignores
  the lock and creates the file just between the two is not modelled.  A file is its text, \<open>None\<close> if it does not exist.
\<close>

definition PFX_STARTUP :: string where "PFX_STARTUP = ''[startup]''"
definition GENESIS_BIND_FILE :: string where "GENESIS_BIND_FILE = ''genesis_bind.toml''"

record bind_file =
  state_commitment :: string

datatype create_outcome = Created | Create_Exists string | Create_Err string
datatype link_outcome = Linked | Link_Exists | Link_Err string

record bind_io =
  bi_mkdir :: "string option"
  bi_lock :: "string option"
  bi_read :: "string option"
  bi_create :: create_outcome
  bi_write :: "string option"
  bi_link :: link_outcome
  bi_rename :: "string option"
  bi_intruder :: "string option"

definition bind_comment :: string where
  "bind_comment = ''# Trilogicon V2 '' @ em_dash @ '' binds this data directory to a genesis state commitment.'' @ [CHR 10] @
     ''# Do not edit by hand unless you know the effect on chain.blocks and pending_tx.tril.'' @ [CHR 10]"

definition binding_text :: "(bind_file \<Rightarrow> string + string) \<Rightarrow> string \<Rightarrow> string + string" where
  "binding_text wr hex =
    and_then (wr \<lparr>state_commitment = hex\<rparr>) (\<lambda>body. Inr (bind_comment @ body @ [CHR 10]))"

definition read_binding_and_verify ::
  "(string \<Rightarrow> string + bind_file) \<Rightarrow> string option \<Rightarrow> string option \<Rightarrow> string \<Rightarrow> string + unit" where
  "read_binding_and_verify rd read_failure path expected =
    (case (read_failure, path) of
       (Some e, _) \<Rightarrow> Inl (PFX_STARTUP @ '' '' @ GENESIS_BIND_FILE @ '': '' @ e)
     | (None, None) \<Rightarrow> Inl (PFX_STARTUP @ '' '' @ GENESIS_BIND_FILE @ '': not found'')
     | (None, Some raw) \<Rightarrow>
         and_then (map_err (\<lambda>e. PFX_STARTUP @ '' fail-closed: '' @ GENESIS_BIND_FILE @ '' invalid genesis bind TOML ('' @ e @ '')'')
           (rd raw)) (\<lambda>parsed.
         if state_commitment parsed \<noteq> expected
         then Inl (PFX_STARTUP @ '' fail-closed: '' @ GENESIS_BIND_FILE @ '' genesis state commitment mismatch'')
         else Inr ()))"

definition verify_binding_if_present ::
  "(string \<Rightarrow> string + bind_file) \<Rightarrow> crypto \<Rightarrow> string option \<Rightarrow> string option \<Rightarrow> genesis \<Rightarrow> string + unit" where
  "verify_binding_if_present rd K read_failure path g =
    (case path of
       None \<Rightarrow> Inr ()
     | Some _ \<Rightarrow> and_then (map_err display_error (state_commitment_hex K g)) (\<lambda>expected.
                  read_binding_and_verify rd read_failure path expected))"

text \<open>
  From the existence check on.  \<open>path\<close> is the bind file as the installation finds it.  The
  temporary file has its own name and never becomes visible as the bind file except through the
  link or the rename.
\<close>

definition install_binding ::
  "(string \<Rightarrow> string + bind_file) \<Rightarrow> bind_io \<Rightarrow> string \<Rightarrow> string option \<Rightarrow> string \<Rightarrow>
     string option \<times> (string + unit)" where
  "install_binding rd io text path expected =
    (case bi_create io of
       Create_Exists e \<Rightarrow>
         (path, if path \<noteq> None then read_binding_and_verify rd (bi_read io) path expected else Inl e)
     | Create_Err e \<Rightarrow> (path, Inl e)
     | Created \<Rightarrow>
        (case bi_write io of
           Some e \<Rightarrow> (path, Inl e)
         | None \<Rightarrow>
            (case (bi_link io, path) of
               (Linked, None) \<Rightarrow> (Some text, Inr ())
             | (Linked, Some _) \<Rightarrow> (path, read_binding_and_verify rd (bi_read io) path expected)
             | (Link_Exists, _) \<Rightarrow> (path, read_binding_and_verify rd (bi_read io) path expected)
             | (Link_Err e, None) \<Rightarrow>
                 (case bi_rename io of
                    None \<Rightarrow> (Some text, Inr ())
                  | Some e2 \<Rightarrow> (path, Inl (GENESIS_BIND_FILE @ '': hard_link failed ('' @ e @ ''); rename failed ('' @ e2 @ '')'')))
             | (Link_Err e, Some _) \<Rightarrow> (path, read_binding_and_verify rd (bi_read io) path expected))))"

definition ensure_binding_if_missing ::
  "(string \<Rightarrow> string + bind_file) \<Rightarrow> (bind_file \<Rightarrow> string + string) \<Rightarrow> crypto \<Rightarrow> bind_io \<Rightarrow>
     string option \<Rightarrow> genesis \<Rightarrow> string option \<times> (string + unit)" where
  "ensure_binding_if_missing rd wr K io path g =
    (case bi_mkdir io of
       Some e \<Rightarrow> (path, Inl e)
     | None \<Rightarrow>
        (case bi_lock io of
           Some e \<Rightarrow> (path, Inl (PFX_STARTUP @ '' fail-closed: could not lock '' @ e))
         | None \<Rightarrow>
            (case map_err display_error (state_commitment_hex K g) of
               Inl e \<Rightarrow> (path, Inl e)
             | Inr expected \<Rightarrow>
                (if path \<noteq> None then (path, read_binding_and_verify rd (bi_read io) path expected)
                 else (case binding_text wr expected of
                         Inl e \<Rightarrow> (path, Inl e)
                       | Inr text \<Rightarrow> install_binding rd io text (bi_intruder io) expected)))))"

definition verify_or_create_binding ::
  "(string \<Rightarrow> string + bind_file) \<Rightarrow> (bind_file \<Rightarrow> string + string) \<Rightarrow> crypto \<Rightarrow> bind_io \<Rightarrow>
     string option \<Rightarrow> genesis \<Rightarrow> string option \<times> (string + unit)" where
  "verify_or_create_binding rd wr K io path g =
    (case verify_binding_if_present rd K (bi_read io) path g of
       Inl e \<Rightarrow> (path, Inl e)
     | Inr _ \<Rightarrow> ensure_binding_if_missing rd wr K io path g)"

section \<open>What a bound directory guarantees\<close>

text \<open>What the code relies on of the \<open>toml\<close> package: text it wrote, framed by comment lines, reads back.\<close>

definition bind_round_trip :: "(string \<Rightarrow> string + bind_file) \<Rightarrow> (bind_file \<Rightarrow> string + string) \<Rightarrow> bool" where
  "bind_round_trip rd wr \<longleftrightarrow> (\<forall>f body. wr f = Inr body \<longrightarrow> rd (bind_comment @ body @ [CHR 10]) = Inr f)"

text \<open>The bind file names the commitment \<open>c\<close>.\<close>

definition bound_to :: "(string \<Rightarrow> string + bind_file) \<Rightarrow> string option \<Rightarrow> string \<Rightarrow> bool" where
  "bound_to rd path c \<longleftrightarrow> (\<exists>raw f. path = Some raw \<and> rd raw = Inr f \<and> state_commitment f = c)"

lemma read_binding_ok:
  "read_binding_and_verify rd rf path expected = Inr () \<longleftrightarrow> rf = None \<and> bound_to rd path expected"
  by (cases rf; cases path) (auto simp: read_binding_and_verify_def bound_to_def and_then_Inr_iff)

lemma binding_text_bound:
  "bind_round_trip rd wr \<Longrightarrow> binding_text wr c = Inr text \<Longrightarrow> bound_to rd (Some text) c"
  by (auto simp: binding_text_def bind_round_trip_def bound_to_def and_then_Inr_iff)

lemma install_binding_ok:
  assumes "bound_to rd (Some text) c" "install_binding rd io text path c = (path', Inr ())"
  shows "bound_to rd path' c"
  using assms
  by (auto simp: install_binding_def read_binding_ok split: create_outcome.splits link_outcome.splits option.splits if_splits)

lemma install_binding_keeps: "install_binding rd io text (Some raw) c = (path', r) \<Longrightarrow> path' = Some raw"
  by (auto simp: install_binding_def split: create_outcome.splits link_outcome.splits option.splits if_splits)

lemma install_binding_atomic: "install_binding rd io text path c = (path', r) \<Longrightarrow> path' = path \<or> path = None \<and> path' = Some text"
  by (auto simp: install_binding_def split: create_outcome.splits link_outcome.splits option.splits if_splits)

lemma ensure_ok:
  assumes "bind_round_trip rd wr" "ensure_binding_if_missing rd wr K io path g = (path', Inr ())"
  shows "\<exists>c. state_commitment_hex K g = Inr c \<and> bound_to rd path' c"
  using assms(2) binding_text_bound [OF assms(1)]
  by (auto simp: ensure_binding_if_missing_def read_binding_ok map_err_def
      intro: install_binding_ok split: option.splits sum.splits if_splits)

lemma verify_bound:
  "bound_to rd path c \<Longrightarrow> verify_binding_if_present rd K rf path g = Inr () \<longleftrightarrow>
     rf = None \<and> state_commitment_hex K g = Inr c"
  by (auto simp: verify_binding_if_present_def bound_to_def and_then_Inr_iff read_binding_ok split: option.split)

lemma ensure_bound_keeps:
  "bound_to rd path c \<Longrightarrow> fst (ensure_binding_if_missing rd wr K io path g) = path"
  by (auto simp: ensure_binding_if_missing_def bound_to_def split: option.split sum.split)

text \<open>
  C38. A data directory is bound once and for all.  If binding succeeds for a genesis \<open>g\<close>, whatever
  the operating system and other processes did meanwhile, the bind file names \<open>g\<close>'s commitment;
  from then on no call changes the file, and verification, and binding again, succeed only for a
  genesis with the same commitment.
\<close>

theorem binding_is_permanent:
  assumes "bind_round_trip rd wr"
    and "ensure_binding_if_missing rd wr K io path g = (path', Inr ())"
  shows "(\<exists>c. state_commitment_hex K g = Inr c \<and> bound_to rd path' c) \<and>
    (\<forall>io' h. fst (ensure_binding_if_missing rd wr K io' path' h) = path') \<and>
    (\<forall>rf h. verify_binding_if_present rd K rf path' h = Inr () \<longrightarrow> state_commitment_hex K h = state_commitment_hex K g) \<and>
    (\<forall>io' h. snd (ensure_binding_if_missing rd wr K io' path' h) = Inr () \<longrightarrow> state_commitment_hex K h = state_commitment_hex K g)"
proof -
  from ensure_ok [OF assms] obtain c where c: "state_commitment_hex K g = Inr c" "bound_to rd path' c" by blast
  have keeps: "fst (ensure_binding_if_missing rd wr K io' path' h) = path'" for io' h
    by (rule ensure_bound_keeps [OF c(2)])
  have "state_commitment_hex K h = Inr c"
    if "snd (ensure_binding_if_missing rd wr K io' path' h) = Inr ()" for io' h
  proof -
    have "ensure_binding_if_missing rd wr K io' path' h = (path', Inr ())"
      using keeps [of io' h] that by (metis prod.collapse)
    from ensure_ok [OF assms(1) this] c(2) show ?thesis by (auto simp: bound_to_def)
  qed
  with c keeps show ?thesis by (simp add: verify_bound [OF c(2)])
qed

text \<open>
  An installation that fails leaves the bind file as it was found: there is no state in which a
  half-written bind file is visible.
\<close>

lemma ensure_atomic:
  assumes "ensure_binding_if_missing rd wr K io path g = (path', r)"
  shows "path' = path \<or> path = None \<and>
    (path' = bi_intruder io \<or> (\<exists>c. state_commitment_hex K g = Inr c \<and> binding_text wr c = Inr (the path')))"
proof (cases path)
  case (Some raw)
  with assms show ?thesis
    by (auto simp: ensure_binding_if_missing_def split: option.splits sum.splits if_splits)
next
  case None
  with assms show ?thesis
    by (auto simp: ensure_binding_if_missing_def map_err_def dest!: install_binding_atomic
        split: option.splits sum.splits if_splits)
qed

end
