(* ===== verification/Examples_Store.thy ===== *)
theory Examples_Store
  imports Examples Sizes Peer_Book Data_Dir_Bind
begin

text \<open>The properties of what the node keeps on disk, exhibited on the small network of \<open>Examples\<close>.\<close>

section \<open>Stored data\<close>

lemma addr_rust: "rust_string (str addr_a)" "rust_string (str addr_b)"
  by (simp_all add: addr_a_def addr_b_def wallet_address_def address_from_public_key_def
      hash_bytes_hex64 toy_digest_format hex64_rust_string)

lemma ex_txs_queueable: "queueable tx1" "queueable tx2"
  using valid_tx_queueable [OF toy_digest_format] txs_ok addr_rust by simp_all

lemma ex_block_body: "valid_body toy_crypto ex_block"
proof -
  have "rust_string ''GENESIS_HASH''" by (simp add: rust_string_def as_bytes_def byte_of_char_def)
  moreover have "hex64 (block_hash ex_block)"
    unfolding ex_block_def by (subst sealed_block_hash) (simp add: compute_block_hash_def hash_bytes_hex64 toy_digest_format)
  ultimately show ?thesis
    using txs_ok addr_rust by (simp add: valid_body_def) (simp add: ex_block_def genesis_block_def)
qed

lemma ex_block_transactions: "transactions ex_block = [tx1, tx2]"
  by (simp add: ex_block_def)

lemma ex_block_storable: "storable ex_block"
  by (rule valid_body_storable [OF toy_digest_format ex_block_body]) (simp add: ex_block_transactions)

lemma ex_block_small: "length (block_image ex_block) \<le> 987"
  using valid_body_image [OF toy_digest_format ex_block_body] by (simp add: ex_block_transactions)

definition good_disk :: io_plan where
  "good_disk = \<lparr>magic_write = None, magic_sync = True, frame_write = None, frame_sync = True\<rparr>"

definition ex_store :: block_store where
  "ex_store = \<lparr>bs_file = CHAIN_FILE_MAGIC_V2 @ frames V2 [ex_block], poisoned = False, bs_format = V2,
     v2_magic_on_disk = True\<rparr>"

lemma ex_store_holds: "store_holds ex_store [ex_block]"
  using ex_block_storable by (simp add: store_holds_def ex_store_def)

section \<open>The properties on this data\<close>

theorem stored_chain_witness:
  "chain_inv toy_crypto ex_genesis ex_chain \<and> store_holds ex_store (tl (bc_blocks ex_chain)) \<and>
   load_blockchain_from_disk toy_crypto None (Some (bs_file ex_store)) ex_genesis = (Some (bs_file ex_store), Inr (ex_chain, False))"
  using stored_chain_reloads [OF ex_chain_inv, of ex_store None] ex_store_holds ex_chain_inv
  by (simp add: ex_chain_eq)

theorem torn_write_witness:
  "\<exists>st. store_append_block (good_disk\<lparr>frame_write := Some 2\<rparr>) ex_store ex_block = Some (st, Inl ''write failed'') \<and> poisoned st \<and>
     read_all_blocks_repairing_tail None (Some (bs_file st)) = (Some (bs_file ex_store), Inr ([ex_block], True))"
proof -
  have "2 < length (stored_frame V2 ex_block)" by (simp add: stored_frame_def frame_bytes_def)
  from torn_write [OF ex_store_holds _ _ _ ex_block_storable, of "good_disk\<lparr>frame_write := Some 2\<rparr>" 2, OF _ _ _ _ this]
  show ?thesis by (auto simp: ex_store_def)
qed

theorem damaged_byte_witness:
  "\<exists>ys. block_image ex_block = 0x54 # ys \<and>
     v2_frame (u32_to_be (word_of_nat (length (block_image ex_block))) @ (0 # ys) @
       u32_to_be (crc32_ieee (block_image ex_block))) = Inl (Decode ''v2 frame crc mismatch'')"
proof -
  obtain ys where ys: "block_image ex_block = [] @ 0x54 # ys" by (simp add: block_image_def BLOCK_MAGIC_def)
  from damaged_byte_detected [OF ex_block_storable ys, of 0 "[]"] ys show ?thesis by simp
qed

definition good_queue :: queue_io where
  "good_queue = \<lparr>q_lock = None, q_read = None, q_tmp_write = None, q_tmp_sync = None, q_rename = None,
     q_open = None, q_write = None\<rparr>"

lemma ex_queue: "parse_pending_file_bytes (queue_bytes [tx1]) = Inr [tx1]"
  using ex_txs_queueable by (simp add: parse_queue)

theorem drain_witness:
  "mempool_inv ex_pool \<and> (\<exists>file' pool' r.
     drain_pending_file toy_crypto good_queue (Some (queue_bytes [tx1])) ex_pool = Some ((file', pool'), r) \<and>
     (case r of Inl _ \<Rightarrow> file' = Some (queue_bytes [tx1]) \<and> pool' = ex_pool
      | Inr _ \<Rightarrow> drained (queue_bytes [tx1]) ex_pool file' pool'))"
  using drain_no_loss [OF ex_pool_inv, of toy_crypto good_queue "Some (queue_bytes [tx1])", unfolded option.case] ex_pool_inv by blast

theorem append_queue_witness:
  "\<exists>data'. append_pending_transaction good_queue (Some (queue_bytes [tx1])) tx2 = Some (Some data', Inr ()) \<and>
     parse_pending_file_bytes data' = Inr [tx1, tx2]"
  using append_then_parse [OF ex_queue ex_txs_queueable(2), of good_queue] by (simp add: good_queue_def)

theorem backoff_witness:
  "\<not> is_available (fail_run (record_ok peer_book_default ''p'' 0) ''p'' [1, 2, 3, 4, 5]) ''p'' 100"
  using backoff_window [of "[1, 2, 3, 4, 5]" peer_book_default "''p''" 0 100] by simp

definition plain_write :: "bind_file \<Rightarrow> string + string" where
  "plain_write f = Inr (state_commitment f)"

definition plain_read :: "string \<Rightarrow> string + bind_file" where
  "plain_read s = Inr \<lparr>state_commitment = butlast (drop (length bind_comment) s)\<rparr>"

definition good_bind :: bind_io where
  "good_bind = \<lparr>bi_mkdir = None, bi_lock = None, bi_read = None, bi_create = Created, bi_write = None,
     bi_link = Linked, bi_rename = None, bi_intruder = None\<rparr>"

lemma plain_round_trip: "bind_round_trip plain_read plain_write"
  by (simp add: bind_round_trip_def plain_read_def plain_write_def)

lemma ex_commitment: "\<exists>c. state_commitment_hex toy_crypto ex_genesis = Inr c"
proof -
  have "genesis_valid ex_genesis" using addrs_valid by (simp add: genesis_valid_def alloc_pairs_def ex_genesis_def)
  then have "sorted_pairs ex_genesis = Inr (sort_key fst (alloc_pairs ex_genesis))" by (simp add: sorted_pairs_ok)
  then show ?thesis by (simp add: state_commitment_hex_def state_commitment_raw32_def)
qed

theorem binding_witness:
  "\<exists>path. ensure_binding_if_missing plain_read plain_write toy_crypto good_bind None ex_genesis = (path, Inr ()) \<and>
     fst (ensure_binding_if_missing plain_read plain_write toy_crypto good_bind path genesis_empty) = path"
proof -
  from ex_commitment obtain c where c: "state_commitment_hex toy_crypto ex_genesis = Inr c" by blast
  let ?text = "bind_comment @ c @ [CHR 10]"
  have e: "ensure_binding_if_missing plain_read plain_write toy_crypto good_bind None ex_genesis = (Some ?text, Inr ())"
    by (simp add: ensure_binding_if_missing_def c good_bind_def binding_text_def plain_write_def install_binding_def)
  from binding_is_permanent [OF plain_round_trip e] e show ?thesis by blast
qed

end
