(* ===== verification/Seen_Cache.thy ===== *)
theory Seen_Cache
  imports Tril_Prelude
begin

text \<open>
  \<open>seen.rs\<close>: the bounded set of recently gossiped identifiers.  The evicting loop of \<open>insert\<close>
  would spin forever on a cache of capacity zero, so it is modelled as a partial function whose
  value \<open>None\<close> is not returning; the constructor's \<open>cap.max(1)\<close> is what rules this out.
\<close>

record seen_cache =
  seen_cap :: nat
  seen_order :: "string list"
  seen_set :: "string fset"

definition seen_new :: "nat \<Rightarrow> seen_cache" where
  "seen_new cap = \<lparr>seen_cap = max cap 1, seen_order = [], seen_set = {||}\<rparr>"

text \<open>The loop \<open>while self.order.len() >= self.cap\<close>.\<close>

partial_function (option) evict :: "nat \<Rightarrow> string list \<Rightarrow> string fset \<Rightarrow> (string list \<times> string fset) option" where
  "evict cap order ids =
    (if cap \<le> length order
     then (case order of old # order' \<Rightarrow> evict cap order' (ids |-| {|old|}) | [] \<Rightarrow> evict cap order ids)
     else Some (order, ids))"

definition seen_insert :: "seen_cache \<Rightarrow> string \<Rightarrow> (seen_cache \<times> bool) option" where
  "seen_insert c x =
    (if x |\<in>| seen_set c then Some (c, False)
     else Option.bind (evict (seen_cap c) (seen_order c) (seen_set c)) (\<lambda>(order, ids).
       Some (c\<lparr>seen_order := order @ [x], seen_set := finsert x ids\<rparr>, True)))"

text \<open>Inserting one identifier after the other, with the answers in order.\<close>

fun seen_inserts :: "seen_cache \<Rightarrow> string list \<Rightarrow> (seen_cache \<times> bool list) option" where
  "seen_inserts c [] = Some (c, [])"
| "seen_inserts c (x # xs) =
    Option.bind (seen_insert c x) (\<lambda>(c', b). Option.bind (seen_inserts c' xs) (\<lambda>(c'', bs). Some (c'', b # bs)))"

section \<open>The invariant and the reference behaviour\<close>

definition seen_inv :: "seen_cache \<Rightarrow> bool" where
  "seen_inv c \<longleftrightarrow> 0 < seen_cap c \<and> distinct (seen_order c) \<and> fset (seen_set c) = set (seen_order c) \<and>
     length (seen_order c) \<le> seen_cap c"

lemma seen_new_inv [simp]: "seen_inv (seen_new cap)"
  by (simp add: seen_inv_def seen_new_def)

lemma evict_spec:
  "0 < cap \<Longrightarrow> distinct order \<Longrightarrow> fset ids = set order \<Longrightarrow>
   \<exists>ids'. evict cap order ids = Some (drop (Suc (length order) - cap) order, ids') \<and>
     fset ids' = set (drop (Suc (length order) - cap) order)"
proof (induction order arbitrary: ids)
  case Nil
  then show ?case by (subst evict.simps) simp
next
  case (Cons old order)
  show ?case
  proof (cases "cap \<le> Suc (length order)")
    case True
    have "fset (ids |-| {|old|}) = set order" using Cons.prems by auto
    with Cons.IH [of "ids |-| {|old|}"] Cons.prems True show ?thesis
      by (subst evict.simps) (simp add: Suc_diff_le)
  next
    case False
    with Cons.prems show ?thesis by (subst evict.simps) simp
  qed
qed

lemma seen_insert_known: "x |\<in>| seen_set c \<Longrightarrow> seen_insert c x = Some (c, False)"
  by (simp add: seen_insert_def)

lemma seen_insert_fresh:
  assumes "seen_inv c" "x \<notin> set (seen_order c)"
  shows "\<exists>c'. seen_insert c x = Some (c', True) \<and> seen_inv c' \<and> seen_cap c' = seen_cap c \<and>
    seen_order c' = drop (Suc (length (seen_order c)) - seen_cap c) (seen_order c) @ [x]"
proof -
  let ?keep = "drop (Suc (length (seen_order c)) - seen_cap c) (seen_order c)"
  have inv: "0 < seen_cap c" "distinct (seen_order c)" "fset (seen_set c) = set (seen_order c)"
    using assms(1) by (simp_all add: seen_inv_def)
  from evict_spec [OF inv] obtain ids where
    e: "evict (seen_cap c) (seen_order c) (seen_set c) = Some (?keep, ids)" "fset ids = set ?keep" by blast
  have "x |\<notin>| seen_set c" using assms(2) inv(3) by (metis)
  moreover have "x \<notin> set ?keep" using assms(2) by (meson in_set_dropD)
  ultimately show ?thesis
    using e inv by (auto simp: seen_insert_def seen_inv_def)
qed

text \<open>
  The reference: a window of the last distinct identifiers; a known one is answered \<open>False\<close> and
  changes nothing, a new one is answered \<open>True\<close> and pushes out the oldest when the window is full.
\<close>

fun window_inserts :: "nat \<Rightarrow> string list \<Rightarrow> string list \<Rightarrow> string list \<times> bool list" where
  "window_inserts cap w [] = (w, [])"
| "window_inserts cap w (x # xs) =
    (if x \<in> set w then (let (w', bs) = window_inserts cap w xs in (w', False # bs))
     else (let (w', bs) = window_inserts cap (drop (Suc (length w) - cap) w @ [x]) xs in (w', True # bs)))"

lemma seen_inserts_window:
  "seen_inv c \<Longrightarrow> \<exists>c'. seen_inserts c xs = Some (c', snd (window_inserts (seen_cap c) (seen_order c) xs)) \<and>
     seen_inv c' \<and> seen_cap c' = seen_cap c \<and> seen_order c' = fst (window_inserts (seen_cap c) (seen_order c) xs)"
proof (induction xs arbitrary: c)
  case (Cons x xs)
  show ?case
  proof (cases "x \<in> set (seen_order c)")
    case True
    then have "x |\<in>| seen_set c" using Cons.prems by (simp add: seen_inv_def)
    with Cons True show ?thesis by (fastforce simp: seen_insert_known split: prod.split)
  next
    case False
    from seen_insert_fresh [OF Cons.prems False] obtain c' where c': "seen_insert c x = Some (c', True)"
      "seen_inv c'" "seen_cap c' = seen_cap c"
      "seen_order c' = drop (Suc (length (seen_order c)) - seen_cap c) (seen_order c) @ [x]" by blast
    from Cons.IH [OF c'(2)] False c' show ?thesis by (fastforce split: prod.split)
  qed
qed simp

text \<open>
  A cache made by the constructor always answers, whatever is inserted and whatever capacity
  was asked for: it behaves exactly as a first-in first-out window of distinct identifiers, never
  holds more than its capacity (at least one), and its set and its order always agree.
\<close>

theorem seen_cache_is_window:
  "\<exists>c. seen_inserts (seen_new cap) xs = Some (c, snd (window_inserts (max cap 1) [] xs)) \<and>
     seen_order c = fst (window_inserts (max cap 1) [] xs) \<and>
     distinct (seen_order c) \<and> fset (seen_set c) = set (seen_order c) \<and> length (seen_order c) \<le> max cap 1"
  using seen_inserts_window [OF seen_new_inv, of cap xs] by (auto simp: seen_inv_def seen_new_def)

end
