(* ===== verification/Node.thy ===== *)
theory Node
  imports Storage Wire Seen_Cache Peer_Book Pending_File
begin

text \<open>
  \<open>network.rs\<close>, the shared node state and the inbound side: applying one decoded message under the
  node lock, and the loop of one inbound session.  A panic is the value \<open>None\<close> of the outer option.

  A session runs beside other threads.  Its environment is the record \<open>session_env\<close>: for the
  \<open>i\<close>-th frame, what the other threads do to the shared node before this session takes the lock,
  the clock, and the outcome of disk writes.
\<close>

definition PFX_STORAGE :: string where "PFX_STORAGE = ''[storage]''"

definition MAX_FRAMES_PER_INBOUND_SESSION :: u32 where "MAX_FRAMES_PER_INBOUND_SESSION = 8192"

section \<open>Shared state\<close>

record node_inner =
  ni_genesis :: genesis
  ni_chain :: blockchain
  ni_pool :: mempool
  ni_store :: block_store
  seen_tx :: seen_cache
  seen_block :: seen_cache
  ni_peer_book :: peer_book

datatype network_block_persist_failure =
    StorePoisoned
  | PeerRejectedBlock string
  | MissingTipAfterApply
  | PersistAfterApply string
  | RollbackFailed string string

definition counts_toward_invalid_block_budget :: "network_block_persist_failure \<Rightarrow> bool" where
  "counts_toward_invalid_block_budget f = (case f of PeerRejectedBlock _ \<Rightarrow> True | _ \<Rightarrow> False)"

definition display_failure :: "network_block_persist_failure \<Rightarrow> string" where
  "display_failure f =
    (case f of
       StorePoisoned \<Rightarrow> PFX_STORAGE @ '' fail-closed: store poisoned after a prior append/sync failure''
     | PeerRejectedBlock detail \<Rightarrow> detail
     | MissingTipAfterApply \<Rightarrow> ''missing tip after append''
     | PersistAfterApply io_detail \<Rightarrow> PFX_STORAGE @ '' persist block failed: '' @ io_detail
     | RollbackFailed persist_detail rollback_detail \<Rightarrow>
         ''FATAL: persist failed: '' @ persist_detail @ ''; chain rollback failed: '' @ rollback_detail)"

definition node_for_tests :: "genesis \<Rightarrow> blockchain \<Rightarrow> mempool \<Rightarrow> block_store \<Rightarrow> node_inner" where
  "node_for_tests g chain pool st =
    \<lparr>ni_genesis = g, ni_chain = chain, ni_pool = pool, ni_store = st,
     seen_tx = seen_new 50000, seen_block = seen_new 50000, ni_peer_book = peer_book_default\<rparr>"

definition append_network_block_persist ::
  "crypto \<Rightarrow> io_plan \<Rightarrow> node_inner \<Rightarrow> block \<Rightarrow> u64 \<Rightarrow> (node_inner \<times> (network_block_persist_failure + unit)) option" where
  "append_network_block_persist K io n b now_unix =
    (if poisoned (ni_store n) then Some (n, Inl StorePoisoned)
     else case try_append_network_block K (ni_chain n) b now_unix of
       (chain, Inl e) \<Rightarrow> Some (n\<lparr>ni_chain := chain\<rparr>, Inl (PeerRejectedBlock (display_error e)))
     | (chain, Inr _) \<Rightarrow>
        let n = n\<lparr>ni_chain := chain\<rparr> in
        if bc_blocks chain = [] then Some (n, Inl MissingTipAfterApply)
        else (case store_append_block io (ni_store n) (last (bc_blocks chain)) of
            None \<Rightarrow> None
          | Some (st, Inr _) \<Rightarrow> Some (n\<lparr>ni_store := st\<rparr>, Inr ())
          | Some (st, Inl persist_detail) \<Rightarrow>
             let n = n\<lparr>ni_store := st\<rparr> in
             (case rollback_last_block K (ni_chain n) (ni_genesis n) of
                (chain, Inl r) \<Rightarrow> Some (n\<lparr>ni_chain := chain\<rparr>, Inl (RollbackFailed persist_detail (display_error r)))
              | (chain, Inr _) \<Rightarrow> Some (n\<lparr>ni_chain := chain\<rparr>, Inl (PersistAfterApply persist_detail)))))"

definition mempool_hygiene_after_ledger_advance :: "crypto \<Rightarrow> node_inner \<Rightarrow> node_inner \<times> (nat \<times> nat \<times> nat)" where
  "mempool_hygiene_after_ledger_advance K n =
    (case hygiene_vs_committed_ledger K (ni_pool n) (bc_state (ni_chain n)) of
       (pool, counts) \<Rightarrow> (n\<lparr>ni_pool := pool\<rparr>, counts))"

section \<open>Inbound messages\<close>

text \<open>Time-outs are in seconds.\<close>

record inbound_peer_policy =
  max_concurrent_sessions :: nat
  idle_read_timeout :: u64
  write_timeout :: "u64 option"
  max_protocol_errors_per_session :: u32
  max_app_frames_per_session :: u32
  max_invalid_network_blocks_per_session :: u32
  max_stale_decoded_blocks_per_session :: u32
  max_inbound_tx_per_session :: u32

definition default_inbound_policy :: inbound_peer_policy where
  "default_inbound_policy =
    \<lparr>max_concurrent_sessions = 128, idle_read_timeout = 120, write_timeout = Some 60,
     max_protocol_errors_per_session = 32, max_app_frames_per_session = 100000,
     max_invalid_network_blocks_per_session = 24, max_stale_decoded_blocks_per_session = 8192,
     max_inbound_tx_per_session = 100000\<rparr>"

text \<open>The local counters of one session.\<close>

record session =
  protocol_errors :: u32
  app_frames :: u32
  invalid_block_strikes :: u32
  stale_decoded_blocks :: u32
  inbound_tx_decoded :: u32
  frames_seen :: u32

definition session_start :: session where
  "session_start = \<lparr>protocol_errors = 0, app_frames = 0, invalid_block_strikes = 0, stale_decoded_blocks = 0,
     inbound_tx_decoded = 0, frames_seen = 0\<rparr>"

definition apply_inbound_block ::
  "crypto \<Rightarrow> io_plan \<Rightarrow> inbound_peer_policy \<Rightarrow> node_inner \<Rightarrow> session \<Rightarrow> block \<Rightarrow> u64 \<Rightarrow>
     ((node_inner \<times> session) \<times> (peer_frame_error + bytes option)) option" where
  "apply_inbound_block K io policy n s b now_unix =
    (let local_tip = bc_height (ni_chain n) in
     if height b \<le> local_tip then
       let s = s\<lparr>stale_decoded_blocks := saturating_add (stale_decoded_blocks s) 1\<rparr> in
       if stale_decoded_blocks s > max_stale_decoded_blocks_per_session policy
       then Some ((n, s), Inl (StaleBlockIngressQuotaExhausted (max_stale_decoded_blocks_per_session policy)))
       else Some ((n, s), Inr None)
     else (case append_network_block_persist K io n b now_unix of
         None \<Rightarrow> None
       | Some (n, Inr _) \<Rightarrow> Some ((fst (mempool_hygiene_after_ledger_advance K n), s), Inr None)
       | Some (n, Inl failure) \<Rightarrow>
          if counts_toward_invalid_block_budget failure then
            let s = s\<lparr>invalid_block_strikes := saturating_add (invalid_block_strikes s) 1\<rparr> in
            if invalid_block_strikes s \<ge> max_invalid_network_blocks_per_session policy
            then Some ((n, s), Inl (InvalidBlockBudgetExhausted (max_invalid_network_blocks_per_session policy)))
            else Some ((n, s), Inr None)
          else Some ((n, s), Inl (LocalFatal (display_failure failure)))))"

definition apply_predecoded ::
  "crypto \<Rightarrow> io_plan \<Rightarrow> inbound_peer_policy \<Rightarrow> node_inner \<Rightarrow> session \<Rightarrow> predecoded_inbound \<Rightarrow> u64 \<Rightarrow>
     ((node_inner \<times> session) \<times> (peer_frame_error + bytes option)) option" where
  "apply_predecoded K io policy n s decoded now_unix =
    (if poisoned (ni_store n)
     then Some ((n, s), Inl (LocalFatal (PFX_STORAGE @ '' fail-closed: store poisoned after write failure'')))
     else case decoded of
       Pre_Tx tx \<Rightarrow>
         (case try_submit K (ni_pool n) tx of
            None \<Rightarrow> None
          | Some (pool, _) \<Rightarrow> Some ((n\<lparr>ni_pool := pool\<rparr>, s), Inr None))
     | Pre_Block b \<Rightarrow> apply_inbound_block K io policy n s b now_unix
     | Pre_GetBlocks start_height \<Rightarrow>
         (case wire_encode_blocks_response
                 (blocks_from_height_limited (ni_chain n) start_height (unat MAX_BLOCKS_PER_BATCH)) of
            None \<Rightarrow> None
          | Some (Inl e) \<Rightarrow> Some ((n, s), Inl (Protocol (Io_Error InvalidData e)))
          | Some (Inr encoded) \<Rightarrow> Some ((n, s), Inr (Some encoded))))"

section \<open>One inbound session\<close>

record session_env =
  env_others :: "nat \<Rightarrow> node_inner \<Rightarrow> node_inner"
  env_clock :: "nat \<Rightarrow> u64"
  env_disk :: "nat \<Rightarrow> io_plan"

definition peer_session_setup :: "crypto \<Rightarrow> conn \<Rightarrow> node_inner \<Rightarrow> conn \<times> (io_error + unit)" where
  "peer_session_setup K c n =
    (if poisoned (ni_store n)
     then (c, Inl (Io_Error OtherKind (PFX_STORAGE @ '' fail-closed: store poisoned'')))
     else handshake_responder K c (ni_genesis n) (bc_height (ni_chain n)))"

text \<open>What one round of the loop leads to.\<close>

datatype 'a round = Again 'a | Return 'a "io_error + unit"

definition handle_frame ::
  "crypto \<Rightarrow> session_env \<Rightarrow> inbound_peer_policy \<Rightarrow> node_inner \<Rightarrow> session \<Rightarrow> bytes \<Rightarrow>
     ((node_inner \<times> session) \<times> (peer_frame_error + bytes option)) option" where
  "handle_frame K env policy n s frame =
    (case predecode_inbound_app_payload frame of
       Inl e \<Rightarrow> Some ((n, s), Inl e)
     | Inr decoded \<Rightarrow>
        let (s, tx_within_quota) =
          (case decoded of
             Pre_Tx _ \<Rightarrow>
               let s = s\<lparr>inbound_tx_decoded := saturating_add (inbound_tx_decoded s) 1\<rparr>
               in (s, inbound_tx_decoded s \<le> max_inbound_tx_per_session policy)
           | _ \<Rightarrow> (s, True))
        in if \<not> tx_within_quota
           then Some ((n, s), Inl (InboundTxIngressQuotaExhausted (max_inbound_tx_per_session policy)))
           else let i = unat (frames_seen s) in
             apply_predecoded K (env_disk env i) policy (env_others env i n) s decoded (env_clock env i))"

definition finish_round ::
  "inbound_peer_policy \<Rightarrow> conn \<Rightarrow> node_inner \<Rightarrow> session \<Rightarrow> peer_frame_error + bytes option \<Rightarrow>
     (conn \<times> node_inner \<times> session) round" where
  "finish_round policy c n s outcome =
    (case outcome of
       Inr (Some resp) \<Rightarrow>
         (case write_framed c resp of
            (c, Inr _) \<Rightarrow> Again (c, n, s)
          | (c, Inl e) \<Rightarrow> Return (c, n, s) (Inl e))
     | Inr None \<Rightarrow> Again (c, n, s)
     | Inl (InvalidBlockBudgetExhausted _) \<Rightarrow>
         Return (c, n, s) (Inl (Io_Error InvalidData ''TRIL_INVALID_BLOCK_BUDGET_EXHAUSTED''))
     | Inl (StaleBlockIngressQuotaExhausted _) \<Rightarrow>
         Return (c, n, s) (Inl (Io_Error InvalidData ''TRIL_INGRESS_STALE_BLOCK_QUOTA_EXHAUSTED''))
     | Inl (InboundTxIngressQuotaExhausted _) \<Rightarrow>
         Return (c, n, s) (Inl (Io_Error InvalidData ''TRIL_INGRESS_INBOUND_TX_QUOTA_EXHAUSTED''))
     | Inl (LocalFatal msg) \<Rightarrow> Return (c, n, s) (Inl (Io_Error OtherKind msg))
     | Inl (Protocol e) \<Rightarrow>
         let s = s\<lparr>protocol_errors := saturating_add (protocol_errors s) 1\<rparr> in
         if protocol_errors s \<ge> max_protocol_errors_per_session policy
         then Return (c, n, s) (Inl e)
         else Again (c, n, s))"

definition session_round ::
  "crypto \<Rightarrow> session_env \<Rightarrow> inbound_peer_policy \<Rightarrow> conn \<times> node_inner \<times> session \<Rightarrow> (conn \<times> node_inner \<times> session) round option" where
  "session_round K env policy = (\<lambda>(c, n, s).
    let s = s\<lparr>frames_seen := saturating_add (frames_seen s) 1\<rparr> in
    if frames_seen s > MAX_FRAMES_PER_INBOUND_SESSION
    then Some (Return (c, n, s) (Inl (Io_Error InvalidData ''inbound framed message limit exceeded'')))
    else case read_framed c of
      (c, Inl e) \<Rightarrow>
        if io_kind e = UnexpectedEof then Some (Return (c, n, s) (Inr ()))
        else if io_err_idle_timeout e then Some (Return (c, n, s) (Inr ()))
        else if io_kind e = InvalidData
        then Some (Return (c, n, s) (Inl (Io_Error InvalidData
               (PFX_PEER @ '' fail-closed: wire frame read rejected: '' @ io_text e))))
        else Some (Return (c, n, s) (Inl e))
    | (c, Inr frame) \<Rightarrow>
        (case checked_add (app_frames s) 1 of
           None \<Rightarrow> Some (Return (c, n, s) (Inr ()))
         | Some next_frame \<Rightarrow>
            let s = s\<lparr>app_frames := next_frame\<rparr> in
            if app_frames s > max_app_frames_per_session policy then Some (Return (c, n, s) (Inr ()))
            else map_option (\<lambda>((n, s), outcome). finish_round policy c n s outcome)
                   (handle_frame K env policy n s frame)))"

lemma max_frames_nat: "unat MAX_FRAMES_PER_INBOUND_SESSION = 8192"
  by (simp add: MAX_FRAMES_PER_INBOUND_SESSION_def)

lemma saturating_inc: "unat (s :: u32) < 8192 \<Longrightarrow> unat (saturating_add s 1) = Suc (unat s)"
  by (simp add: unat_saturating_add)

text \<open>No round but the first counting touches the frame counter.\<close>

lemma apply_predecoded_frames:
  "apply_predecoded K io policy n s d now = Some ((n', s'), r) \<Longrightarrow> frames_seen s' = frames_seen s"
  by (auto simp: apply_predecoded_def apply_inbound_block_def Let_def
      split: predecoded_inbound.splits option.splits prod.splits sum.splits if_splits)

lemma handle_frame_frames:
  "handle_frame K env policy n s f = Some ((n', s'), r) \<Longrightarrow> frames_seen s' = frames_seen s"
  by (auto simp: handle_frame_def Let_def dest: apply_predecoded_frames
      split: predecoded_inbound.splits sum.splits if_splits)

lemma finish_round_frames: "finish_round policy c n s r = Again (c', n', s') \<Longrightarrow> frames_seen s' = frames_seen s"
  by (auto simp: finish_round_def Let_def split: option.splits prod.splits sum.splits peer_frame_error.splits if_splits)

lemma session_round_again:
  assumes "session_round K env policy (c, n, s) = Some (Again (c', n', s'))"
  shows "unat (frames_seen s') = Suc (unat (frames_seen s)) \<and> unat (frames_seen s') \<le> 8192"
proof -
  have le: "\<not> saturating_add (frames_seen s) 1 > MAX_FRAMES_PER_INBOUND_SESSION"
    using assms by (auto simp: session_round_def Let_def)
  have "frames_seen s' = saturating_add (frames_seen s) 1"
    using assms by (auto simp: session_round_def Let_def dest!: handle_frame_frames finish_round_frames
        split: if_splits prod.splits sum.splits option.splits)
  moreover have "unat (saturating_add (frames_seen s) 1) \<le> 8192"
    using le by (simp add: word_less_nat_alt max_frames_nat)
  moreover have "unat (frames_seen s) < 2 ^ 32" using unat_bound [of "frames_seen s"] by simp
  ultimately show ?thesis by (auto simp: unat_saturating_add)
qed

function peer_loop ::
  "crypto \<Rightarrow> session_env \<Rightarrow> inbound_peer_policy \<Rightarrow> conn \<times> node_inner \<times> session \<Rightarrow>
     ((conn \<times> node_inner \<times> session) \<times> (io_error + unit)) option" where
  "peer_loop K env policy st =
    (case session_round K env policy st of
       None \<Rightarrow> None
     | Some (Return st' r) \<Rightarrow> Some (st', r)
     | Some (Again st') \<Rightarrow> peer_loop K env policy st')"
  by auto
termination
  by (relation "measure (\<lambda>(_, _, _, (_, _, s)). 8192 - unat (frames_seen s))") (auto dest!: session_round_again)

declare peer_loop.simps [simp del]

definition peer_connection_loop ::
  "crypto \<Rightarrow> session_env \<Rightarrow> inbound_peer_policy \<Rightarrow> conn \<Rightarrow> node_inner \<Rightarrow> ((conn \<times> node_inner \<times> session) \<times> (io_error + unit)) option" where
  "peer_connection_loop K env policy c n =
    (case peer_session_setup K c n of
       (c, Inl e) \<Rightarrow> Some ((c, n, session_start), Inl e)
     | (c, Inr _) \<Rightarrow> peer_loop K env policy (c, n, session_start))"

section \<open>The node invariant\<close>

text \<open>
  Memory and disk agree: the chain is valid and its state is its replay, the pool is consistent and
  holds only transactions that can be encoded.  As long as no write failed in this process the block
  file holds exactly the blocks above genesis.  After a failed write, when the store is poisoned, the
  file still begins with all of them; nothing is said of what follows, which can be a part of a block
  that is not in memory, or all of it if only the sync failed.
\<close>

definition wire_tx :: "transaction \<Rightarrow> bool" where
  "wire_tx tx \<longleftrightarrow> rust_transaction tx \<and> tx_fits tx \<and> length (tx_image tx) < 2 ^ 32"

definition pool_ok :: "mempool \<Rightarrow> bool" where
  "pool_ok mp \<longleftrightarrow> mempool_inv mp \<and> (\<forall>tx \<in> set (clone_fifo mp). wire_tx tx)"

definition chain_ok :: "crypto \<Rightarrow> genesis \<Rightarrow> blockchain \<Rightarrow> bool" where
  "chain_ok K g bc \<longleftrightarrow> chain_inv K g bc \<and>
     min_block_interval_secs (bc_consensus bc) = min_block_interval_secs default_consensus_params"

definition node_inv :: "crypto \<Rightarrow> node_inner \<Rightarrow> bool" where
  "node_inv K n \<longleftrightarrow> chain_ok K (ni_genesis n) (ni_chain n) \<and> pool_ok (ni_pool n) \<and>
     (\<not> poisoned (ni_store n) \<longrightarrow> store_holds (ni_store n) (tl (bc_blocks (ni_chain n)))) \<and>
     (poisoned (ni_store n) \<longrightarrow> store_keeps (ni_store n) (tl (bc_blocks (ni_chain n))))"

lemma node_keeps: "node_inv K n \<Longrightarrow> store_keeps (ni_store n) (tl (bc_blocks (ni_chain n)))"
  using store_holds_keeps by (auto simp: node_inv_def)

lemma node_storable: "node_inv K n \<Longrightarrow> b \<in> set (tl (bc_blocks (ni_chain n))) \<Longrightarrow> storable b"
  using node_keeps by (fastforce simp: store_keeps_def store_holds_def)

definition wire_block :: "block \<Rightarrow> bool" where
  "wire_block b \<longleftrightarrow> rust_block b \<and> block_fits b"

lemma chain_ok_blocks: "chain_ok K g bc \<Longrightarrow> bc_blocks bc \<noteq> []"
  by (auto simp: chain_ok_def chain_inv_def dest: chain_wf_nonempty)

lemma append_block_chain_ok:
  assumes "digest_format K" "chain_ok K g bc" "append_block K bc b = (bc', Inr ())"
  shows "chain_ok K g bc' \<and> tl (bc_blocks bc') = tl (bc_blocks bc) @ [b] \<and> rollback_last_block K bc' g = (bc, Inr ())"
  using assms append_block_inv [OF assms(1) _ assms(3)] rollback_append [OF assms(1) _ assms(3)]
  by (auto simp: chain_ok_def append_block_ok)

lemma pool_ok_subset:
  "mempool_inv mp' \<Longrightarrow> pool_ok mp \<Longrightarrow> set (clone_fifo mp') \<subseteq> set (clone_fifo mp) \<union> {tx. wire_tx tx} \<Longrightarrow> pool_ok mp'"
  by (auto simp: pool_ok_def)

lemma hygiene_pool_ok:
  assumes "pool_ok mp" "hygiene_vs_committed_ledger K mp c = (mp', counts)"
  shows "pool_ok mp'"
proof -
  have "mempool_inv mp" using assms(1) by (simp add: pool_ok_def)
  from hygiene_spec [OF this, of K c] assms(2) have "mempool_inv mp'"
    "clone_fifo mp' = filter (\<lambda>tx. \<not> stale_vs c tx) (dropWhile (nonviable K c) (clone_fifo mp))" by auto
  with assms(1) show ?thesis by (intro pool_ok_subset [of mp' mp]) (auto dest: set_dropWhileD)
qed

lemma try_submit_pool_ok:
  assumes "pool_ok mp" "wire_tx tx"
  shows "\<exists>mp' r. try_submit K mp tx = Some (mp', r) \<and> pool_ok mp'"
proof -
  have inv: "mempool_inv mp" using assms(1) by (simp add: pool_ok_def)
  show ?thesis
  proof (cases "submit_checks K mp tx")
    case (Inl e)
    with assms(1) show ?thesis by (simp add: try_submit_rejected)
  next
    case (Inr u)
    then have ok: "submit_checks K mp tx = Inr ()" by simp
    show ?thesis
    proof (cases "mp_capacity mp = 0")
      case True
      with try_submit_zero_capacity [OF inv ok] assms(1) show ?thesis by simp
    next
      case False
      from try_submit_accepted [OF inv ok False] obtain mp' where mp': "try_submit K mp tx = Some (mp', Inr ())" "mempool_inv mp'"
        "clone_fifo mp' = (if mp_len mp < mp_capacity mp then clone_fifo mp else tl (clone_fifo mp)) @ [tx]" by blast
      moreover have "set (tl (clone_fifo mp)) \<subseteq> set (clone_fifo mp)" by (cases "clone_fifo mp") auto
      ultimately have "set (clone_fifo mp') \<subseteq> set (clone_fifo mp) \<union> {tx. wire_tx tx}"
        using assms(2) by auto
      with mp' pool_ok_subset [OF mp'(2) assms(1)] show ?thesis by blast
    qed
  qed
qed

text \<open>Node \<open>m\<close> is node \<open>n\<close> with \<open>k\<close> more blocks; the pool may differ.\<close>

definition extended :: "node_inner \<Rightarrow> nat \<Rightarrow> node_inner \<Rightarrow> bool" where
  "extended n k m \<longleftrightarrow> ni_genesis m = ni_genesis n \<and>
     (\<exists>bs. length bs = k \<and> bc_blocks (ni_chain m) = bc_blocks (ni_chain n) @ bs)"

lemma extended_refl [simp]: "extended n 0 n"
  by (simp add: extended_def)

lemma extended_trans: "extended n j m \<Longrightarrow> extended m k l \<Longrightarrow> extended n (j + k) l"
  by (fastforce simp: extended_def)

definition grows :: "node_inner \<Rightarrow> node_inner \<Rightarrow> bool" where
  "grows n m \<longleftrightarrow> ni_genesis m = ni_genesis n \<and> prefix (bc_blocks (ni_chain n)) (bc_blocks (ni_chain m))"

lemma extended_grows: "extended n k m \<Longrightarrow> grows n m"
  by (auto simp: extended_def grows_def)

lemma grows_trans: "grows n m \<Longrightarrow> grows m l \<Longrightarrow> grows n l"
  by (auto simp: grows_def)

text \<open>
  Appending a block to memory and disk: written on both, or taken back from memory.  The block is
  one that can be encoded.
\<close>

lemma append_and_store:
  assumes "digest_format K" "node_inv K n" "append_block K (ni_chain n) b = (chain, Inr ())" "wire_block b"
  obtains (written) st where "store_append_block io (ni_store n) b = Some (st, Inr ())" "\<not> poisoned st"
      "node_inv K (n\<lparr>ni_chain := chain, ni_store := st\<rparr>)"
  | (undone) st e where "store_append_block io (ni_store n) b = Some (st, Inl e)" "poisoned st \<or> st = ni_store n"
      "rollback_last_block K chain (ni_genesis n) = (ni_chain n, Inr ())" "node_inv K (n\<lparr>ni_store := st\<rparr>)"
proof -
  from assms(2) have ok: "chain_ok K (ni_genesis n) (ni_chain n)" "pool_ok (ni_pool n)" by (simp_all add: node_inv_def)
  note ch = append_block_chain_ok [OF assms(1) ok(1) assms(3)]
  obtain st q where s: "store_append_block io (ni_store n) b = Some (st, q)"
    using assms(4) by (cases "append_payload io (ni_store n) (block_image b)")
      (auto simp: store_append_block_def wire_block_def encode_block_ok [THEN iffD2])
  show ?thesis
  proof (cases q)
    case (Inr u)
    then have np: "\<not> poisoned (ni_store n)"
      using s by (auto simp: store_append_block_def append_payload_def split: option.splits if_splits)
    then have "store_holds (ni_store n) (tl (bc_blocks (ni_chain n)))" using assms(2) by (simp add: node_inv_def)
    from store_append_ok [OF this, of b io st] s Inr assms(4) np ch have
      "store_holds st (tl (bc_blocks chain)) \<and> \<not> poisoned st" by (simp add: wire_block_def)
    with s Inr ch ok show ?thesis by (intro written [of st]) (simp_all add: node_inv_def)
  next
    case (Inl e)
    from store_append_err [of io "ni_store n" b st e] s Inl have "poisoned st \<or> st = ni_store n" by simp
    moreover have "store_keeps st (tl (bc_blocks (ni_chain n)))" using store_append_keeps [OF node_keeps [OF assms(2)] s] .
    ultimately show ?thesis using s Inl ch assms(2) by (intro undone [of st e]) (auto simp: node_inv_def)
  qed
qed

text \<open>The three ways a network block can end: written, refused without a trace, or rolled back.\<close>

lemma append_persist_outcome:
  assumes "digest_format K" "node_inv K n" "wire_block b"
  obtains (written) chain st where
      "append_network_block_persist K io n b now = Some (n\<lparr>ni_chain := chain, ni_store := st\<rparr>, Inr ())"
      "append_block K (ni_chain n) b = (chain, Inr ())" "node_inv K (n\<lparr>ni_chain := chain, ni_store := st\<rparr>)" "\<not> poisoned st"
  | (refused) e where "append_network_block_persist K io n b now = Some (n, Inl e)"
      "counts_toward_invalid_block_budget e \<or> e = StorePoisoned \<and> poisoned (ni_store n)"
  | (undone) e st where "append_network_block_persist K io n b now = Some (n\<lparr>ni_store := st\<rparr>, Inl (PersistAfterApply e))"
      "poisoned st \<or> st = ni_store n" "node_inv K (n\<lparr>ni_store := st\<rparr>)"
proof (cases "poisoned (ni_store n)")
  case True
  then show ?thesis by (intro refused [of StorePoisoned]) (simp_all add: append_network_block_persist_def)
next
  case np: False
  obtain chain r where t: "try_append_network_block K (ni_chain n) b now = (chain, r)" by fastforce
  show ?thesis
  proof (cases r)
    case (Inl e)
    then have "chain = ni_chain n" using t append_block_Inl
      by (fastforce simp: try_append_network_block_def split: sum.splits)
    with np t Inl show ?thesis
      by (intro refused [of "PeerRejectedBlock (display_error e)"])
        (simp_all add: append_network_block_persist_def counts_toward_invalid_block_budget_def)
  next
    case (Inr u)
    then have ap: "append_block K (ni_chain n) b = (chain, Inr ())"
      using t by (auto simp: try_append_network_block_def split: sum.splits)
    have tip: "bc_blocks chain \<noteq> []" "last (bc_blocks chain) = b" using ap by (auto simp: append_block_ok)
    show ?thesis
    proof (rule append_and_store [OF assms(1,2) ap assms(3), of io])
      fix st
      assume "store_append_block io (ni_store n) b = Some (st, Inr ())" "\<not> poisoned st" "node_inv K (n\<lparr>ni_chain := chain, ni_store := st\<rparr>)"
      with ap np t Inr tip show ?thesis
        by (intro written [where chain = chain and st = st]) (simp_all add: append_network_block_persist_def Let_def)
    next
      fix st e
      assume "store_append_block io (ni_store n) b = Some (st, Inl e)" "poisoned st \<or> st = ni_store n"
        "rollback_last_block K chain (ni_genesis n) = (ni_chain n, Inr ())" "node_inv K (n\<lparr>ni_store := st\<rparr>)"
      with np t Inr tip show ?thesis
        by (intro undone [where st = st and e = e]) (simp_all add: append_network_block_persist_def Let_def)
    qed
  qed
qed

definition decoded_ok :: "predecoded_inbound \<Rightarrow> bool" where
  "decoded_ok d = (case d of Pre_Tx tx \<Rightarrow> wire_tx tx | Pre_Block b \<Rightarrow> wire_block b | Pre_GetBlocks _ \<Rightarrow> True)"

lemma predecode_ok:
  assumes "predecode_inbound_app_payload frame = Inr d" "length frame \<le> unat MAX_WIRE_FRAME_BYTES"
  shows "decoded_ok d"
  using assms
  by (auto simp: predecode_inbound_app_payload_def decoded_ok_def and_then_Inr_iff decode_transaction_ok decode_block_ok
      wire_tx_def wire_block_def max_wire_nat op_defs split: list.splits if_splits)

lemma genesis_wire: "wire_block genesis_block \<and> length (block_image genesis_block) < 2 ^ 32"
proof -
  have "rust_string ''GENESIS''" "rust_string ''GENESIS_HASH''"
    by (simp_all add: rust_string_def as_bytes_def byte_of_char_def)
  moreover have "length BLOCK_MAGIC = 4" by (simp add: BLOCK_MAGIC_def)
  ultimately show ?thesis
    by (simp add: wire_block_def rust_block_def block_fits_def txs_fit_def genesis_block_def block_image_def txs_image_def framed_def)
qed

lemma node_blocks_wire:
  assumes "node_inv K n" "b \<in> set (bc_blocks (ni_chain n))"
  shows "rust_block b \<and> block_fits b \<and> length (block_image b) < 2 ^ 32"
proof -
  from assms(1) obtain rest where "bc_blocks (ni_chain n) = genesis_block # rest"
    by (auto simp: node_inv_def chain_ok_def chain_inv_def chain_wf_def)
  with node_storable [OF assms(1)] show ?thesis
    using assms(2) genesis_wire by (fastforce simp: storable_def wire_block_def MAX_FRAME_BYTES_def)
qed

lemma hygiene_node_inv:
  assumes "node_inv K n"
  shows "node_inv K (fst (mempool_hygiene_after_ledger_advance K n)) \<and>
    ni_chain (fst (mempool_hygiene_after_ledger_advance K n)) = ni_chain n \<and>
    ni_genesis (fst (mempool_hygiene_after_ledger_advance K n)) = ni_genesis n"
proof -
  obtain pool counts where h: "hygiene_vs_committed_ledger K (ni_pool n) (bc_state (ni_chain n)) = (pool, counts)"
    by (rule prod.exhaust)
  have "pool_ok (ni_pool n)" using assms by (simp add: node_inv_def)
  then have "pool_ok pool" using h by (rule hygiene_pool_ok)
  with h assms show ?thesis by (simp add: mempool_hygiene_after_ledger_advance_def node_inv_def)
qed

text \<open>Handling a message never panics and keeps the invariant.\<close>

lemma apply_predecoded_inv:
  assumes "digest_format K" "node_inv K n" "decoded_ok d"
  shows "\<exists>n' s' r. apply_predecoded K io policy n s d now = Some ((n', s'), r) \<and> node_inv K n' \<and> grows n n'"
proof (cases "poisoned (ni_store n)")
  case True
  with assms(2) show ?thesis by (simp add: apply_predecoded_def grows_def)
next
  case np: False
  show ?thesis
  proof (cases d)
    case (Pre_Tx tx)
    with assms(3) have tx: "wire_tx tx" by (simp add: decoded_ok_def)
    have "pool_ok (ni_pool n)" using assms(2) by (simp add: node_inv_def)
    from try_submit_pool_ok [OF this tx, of K] obtain pool r where "try_submit K (ni_pool n) tx = Some (pool, r)" "pool_ok pool" by blast
    with np Pre_Tx assms(2) show ?thesis by (simp add: apply_predecoded_def node_inv_def grows_def)
  next
    case (Pre_Block b)
    with assms(3) have b: "wire_block b" by (simp add: decoded_ok_def)
    show ?thesis
    proof (cases "height b \<le> bc_height (ni_chain n)")
      case True
      with np Pre_Block assms(2) show ?thesis by (simp add: apply_predecoded_def apply_inbound_block_def Let_def grows_def)
    next
      case False
      show ?thesis
      proof (rule append_persist_outcome [OF assms(1,2) b, of io now])
        fix chain st
        assume w: "append_network_block_persist K io n b now = Some (n\<lparr>ni_chain := chain, ni_store := st\<rparr>, Inr ())"
          "node_inv K (n\<lparr>ni_chain := chain, ni_store := st\<rparr>)" and g: "append_block K (ni_chain n) b = (chain, Inr ())"
        let ?n = "fst (mempool_hygiene_after_ledger_advance K (n\<lparr>ni_chain := chain, ni_store := st\<rparr>))"
        have "node_inv K ?n \<and> grows n ?n" using hygiene_node_inv [OF w(2)] g by (auto simp: grows_def append_block_ok)
        with w np Pre_Block False show ?thesis by (simp add: apply_predecoded_def apply_inbound_block_def Let_def)
      qed (use np Pre_Block False assms(2) in \<open>auto simp: apply_predecoded_def apply_inbound_block_def Let_def
          counts_toward_invalid_block_budget_def grows_def\<close>)
    qed
  next
    case (Pre_GetBlocks start)
    let ?slice = "blocks_from_height_limited (ni_chain n) start 64"
    have "\<forall>b \<in> set (take 64 ?slice). rust_block b \<and> block_fits b \<and> length (block_image b) < 2 ^ 32"
      using node_blocks_wire [OF assms(2)] by (auto simp: blocks_from_height_limited_def dest!: in_set_takeD)
    then have "\<exists>q. wire_encode_blocks_response ?slice = Some q" by (simp add: encode_batch)
    then show ?thesis
      using np Pre_GetBlocks assms(2) by (auto simp: apply_predecoded_def MAX_BLOCKS_PER_BATCH_def grows_def split: sum.split)
  qed
qed

section \<open>An inbound session\<close>

lemma handle_frame_inv:
  assumes "digest_format K" "node_inv K n" "length frame \<le> unat MAX_WIRE_FRAME_BYTES"
    and "\<And>i n. node_inv K n \<Longrightarrow> node_inv K (env_others env i n)"
  shows "\<exists>n' s' r. handle_frame K env policy n s frame = Some ((n', s'), r) \<and> node_inv K n'"
proof (cases "predecode_inbound_app_payload frame")
  case (Inl e)
  with assms(2) show ?thesis by (simp add: handle_frame_def)
next
  case (Inr d)
  have d: "decoded_ok d" by (rule predecode_ok [OF Inr assms(3)])
  have "\<exists>n' s' r. apply_predecoded K io policy (env_others env i n) s1 d now = Some ((n', s'), r) \<and> node_inv K n'" for io i s1 now
    using apply_predecoded_inv [OF assms(1) assms(4) [OF assms(2)] d] by blast
  with Inr assms(2) show ?thesis
    by (cases d) (simp_all add: handle_frame_def Let_def)
qed

lemma session_round_inv:
  assumes "digest_format K" "node_inv K n" "\<And>i n. node_inv K n \<Longrightarrow> node_inv K (env_others env i n)"
  shows "\<exists>rd. session_round K env policy (c, n, s) = Some rd \<and>
    (case rd of Again (c', n', s') \<Rightarrow> node_inv K n' | Return (c', n', s') r \<Rightarrow> node_inv K n')"
proof -
  let ?s = "s\<lparr>frames_seen := saturating_add (frames_seen s) 1\<rparr>"
  show ?thesis
  proof (cases "read_framed c")
    case (Pair c1 q)
    show ?thesis
    proof (cases q)
      case (Inl e)
      with Pair assms(2) show ?thesis by (simp add: session_round_def Let_def)
    next
      case (Inr frame)
      with Pair have len: "length frame \<le> unat MAX_WIRE_FRAME_BYTES" by (simp add: read_framed_ok)
      have h: "\<exists>n' s' r. handle_frame K env policy n s1 frame = Some ((n', s'), r) \<and> node_inv K n'" for s1
        by (rule handle_frame_inv [OF assms(1,2) len assms(3)])
      have fin: "case finish_round policy c1 n' s' r of Again (c', n', s') \<Rightarrow> node_inv K n' | Return (c', n', s') r \<Rightarrow> node_inv K n'"
        if "node_inv K n'" for n' s' r
        using that by (auto simp: finish_round_def Let_def split: sum.split option.split prod.split peer_frame_error.split)
      show ?thesis
      proof (cases "checked_add (app_frames s) 1")
        case None
        with Pair Inr assms(2) show ?thesis by (simp add: session_round_def Let_def)
      next
        case (Some nf)
        from h [of "?s\<lparr>app_frames := nf\<rparr>"] obtain n' s' r where
          "handle_frame K env policy n (?s\<lparr>app_frames := nf\<rparr>) frame = Some ((n', s'), r)" "node_inv K n'" by blast
        with Pair Inr Some assms(2) fin [of n' s' r] show ?thesis by (simp add: session_round_def Let_def)
      qed
    qed
  qed
qed

lemma peer_loop_inv:
  assumes "digest_format K" "\<And>i n. node_inv K n \<Longrightarrow> node_inv K (env_others env i n)"
  shows "node_inv K n \<Longrightarrow> \<exists>c' n' s' r. peer_loop K env policy (c, n, s) = Some ((c', n', s'), r) \<and> node_inv K n'"
proof (induction "8192 - unat (frames_seen s)" arbitrary: c n s rule: less_induct)
  case less
  from session_round_inv [OF assms(1) less.prems assms(2)] obtain rd where
    rd: "session_round K env policy (c, n, s) = Some rd"
    "case rd of Again (c', n', s') \<Rightarrow> node_inv K n' | Return (c', n', s') r \<Rightarrow> node_inv K n'" by blast
  show ?case
  proof (cases rd)
    case (Again st)
    obtain c' n' s' where st: "st = (c', n', s')" by (metis prod_cases3)
    with rd Again have "session_round K env policy (c, n, s) = Some (Again (c', n', s'))" "node_inv K n'" by simp_all
    with session_round_again [OF this(1)] less.hyps [of s' n' c'] show ?thesis
      by (subst peer_loop.simps) auto
  next
    case (Return st r)
    obtain c' n' s' where "st = (c', n', s')" by (metis prod_cases3)
    with rd Return show ?thesis by (subst peer_loop.simps) simp
  qed
qed

text \<open>
  C16. An inbound session always ends, without a panic, whatever bytes the peer sends and whenever
  writes to the socket or the disk fail, as long as other threads, which may change the shared node
  between messages, keep \<open>node_inv\<close>.  It leaves a node with \<open>node_inv\<close>: the chain is valid, the block
  file holds exactly the blocks in memory if no write failed, and still begins with all of them if
  one did.
\<close>

theorem inbound_session_safe:
  assumes "digest_format K" "node_inv K n" "\<forall>i n. node_inv K n \<longrightarrow> node_inv K (env_others env i n)"
  shows "\<exists>c' n' s' r. peer_connection_loop K env policy c n = Some ((c', n', s'), r) \<and> node_inv K n'"
proof -
  obtain c1 q where "peer_session_setup K c n = (c1, q)" by fastforce
  with peer_loop_inv [OF assms(1), of env n policy c1 session_start] assms(2,3) show ?thesis
    by (cases q) (auto simp: peer_connection_loop_def)
qed

section \<open>Limits beyond the frame cap\<close>

abbreviation relimit :: "inbound_peer_policy \<Rightarrow> u32 \<Rightarrow> u32 \<Rightarrow> u32 \<Rightarrow> inbound_peer_policy" where
  "relimit p a b c \<equiv> p\<lparr>max_app_frames_per_session := a, max_stale_decoded_blocks_per_session := b, max_inbound_tx_per_session := c\<rparr>"

definition counters_below :: "session \<Rightarrow> bool" where
  "counters_below s \<longleftrightarrow> app_frames s \<le> frames_seen s \<and> stale_decoded_blocks s \<le> frames_seen s \<and>
     inbound_tx_decoded s \<le> frames_seen s"

lemma apply_inbound_block_limit:
  assumes "unat (stale_decoded_blocks s) < 8192" "8192 \<le> unat (max_stale_decoded_blocks_per_session p)" "8192 \<le> unat b'"
  shows "apply_inbound_block K io p n s b now =
    apply_inbound_block K io (relimit p a' b' c') n s b now"
proof -
  have "unat (saturating_add (stale_decoded_blocks s) 1) \<le> 8192" using assms(1) by (simp add: saturating_inc)
  then have "\<not> max_stale_decoded_blocks_per_session p < saturating_add (stale_decoded_blocks s) 1"
    "\<not> b' < saturating_add (stale_decoded_blocks s) 1" using assms(2,3) by (simp_all add: word_less_nat_alt)
  then show ?thesis by (simp add: apply_inbound_block_def Let_def cong: if_cong option.case_cong)
qed

lemma handle_frame_limit:
  assumes "unat (stale_decoded_blocks s) < 8192" "unat (inbound_tx_decoded s) < 8192"
    and "8192 \<le> unat (max_stale_decoded_blocks_per_session p)" "8192 \<le> unat b'"
    and "8192 \<le> unat (max_inbound_tx_per_session p)" "8192 \<le> unat c'"
  shows "handle_frame K env p n s f =
    handle_frame K env (relimit p a' b' c') n s f"
proof -
  have "unat (saturating_add (inbound_tx_decoded s) 1) \<le> 8192" using assms(2) by (simp add: saturating_inc)
  then have tx: "saturating_add (inbound_tx_decoded s) 1 \<le> max_inbound_tx_per_session p"
    "saturating_add (inbound_tx_decoded s) 1 \<le> c'" using assms(5,6) by (simp_all add: word_le_nat_alt)
  have "apply_predecoded K io p n1 s1 d now =
    apply_predecoded K io (relimit p a' b' c') n1 s1 d now"
    if "stale_decoded_blocks s1 = stale_decoded_blocks s" for io n1 s1 d now
    unfolding apply_predecoded_def using apply_inbound_block_limit [where a' = a' and b' = b' and c' = c' and p = p and s = s1] assms that
    by (simp cong: predecoded_inbound.case_cong)
  then show ?thesis
    by (simp add: handle_frame_def Let_def tx split: sum.split predecoded_inbound.split)
qed

lemma counters_step:
  assumes "handle_frame K env p n s f = Some ((n', s'), r)"
  shows "app_frames s' = app_frames s \<and> frames_seen s' = frames_seen s \<and>
    unat (stale_decoded_blocks s') \<le> Suc (unat (stale_decoded_blocks s)) \<and>
    unat (inbound_tx_decoded s') \<le> Suc (unat (inbound_tx_decoded s))"
proof -
  have inc: "unat (saturating_add w 1) \<le> Suc (unat w)" for w :: u32 by (simp add: unat_saturating_add)
  have "apply_predecoded K io p n1 s1 d now = Some ((n', s'), r) \<Longrightarrow> app_frames s' = app_frames s1 \<and> frames_seen s' = frames_seen s1 \<and>
      unat (stale_decoded_blocks s') \<le> Suc (unat (stale_decoded_blocks s1)) \<and> inbound_tx_decoded s' = inbound_tx_decoded s1" for io n1 s1 d now
    by (auto simp: apply_predecoded_def apply_inbound_block_def Let_def inc
        split: predecoded_inbound.splits option.splits prod.splits sum.splits if_splits)
  from this [of _ _ "s\<lparr>inbound_tx_decoded := saturating_add (inbound_tx_decoded s) 1\<rparr>"] this [of _ _ s] assms show ?thesis
    by (auto simp: handle_frame_def Let_def inc split: sum.splits predecoded_inbound.splits if_splits)
qed

lemma round_limit:
  assumes "counters_below s"
    and "8192 \<le> unat (max_app_frames_per_session p)" "8192 \<le> unat a'"
    and "8192 \<le> unat (max_stale_decoded_blocks_per_session p)" "8192 \<le> unat b'"
    and "8192 \<le> unat (max_inbound_tx_per_session p)" "8192 \<le> unat c'"
  shows "session_round K env p (c, n, s) =
    session_round K env (relimit p a' b' c') (c, n, s) \<and>
    (\<forall>cn n' s'. session_round K env p (c, n, s) = Some (Again (cn, n', s')) \<longrightarrow> counters_below s')"
proof (cases "saturating_add (frames_seen s) 1 > MAX_FRAMES_PER_INBOUND_SESSION")
  case True
  then show ?thesis by (simp add: session_round_def Let_def)
next
  case False
  let ?p = "relimit p a' b' c'"
  let ?fs = "saturating_add (frames_seen s) 1"
  have "unat ?fs \<le> 8192" using False by (simp add: word_less_nat_alt max_frames_nat)
  then have fs: "unat ?fs = Suc (unat (frames_seen s))" "unat (frames_seen s) < 8192"
    using unat_bound [of "frames_seen s"] by (auto simp: unat_saturating_add)
  have below: "unat (app_frames s) \<le> unat (frames_seen s)" "unat (stale_decoded_blocks s) \<le> unat (frames_seen s)"
    "unat (inbound_tx_decoded s) \<le> unat (frames_seen s)" using assms(1) by (simp_all add: counters_below_def word_le_nat_alt)
  obtain nf where nf: "checked_add (app_frames s) 1 = Some nf" "unat nf = Suc (unat (app_frames s))"
    using below fs by (auto simp: checked_add_def unat_plus_no_overflow)
  let ?s = "s\<lparr>frames_seen := ?fs, app_frames := nf\<rparr>"
  have nf_ok: "\<not> max_app_frames_per_session p < nf" "\<not> a' < nf" using nf below fs assms(2,3) by (simp_all add: word_less_nat_alt)
  have h: "handle_frame K env p n ?s f = handle_frame K env ?p n ?s f" for f
    using below fs assms by (intro handle_frame_limit) simp_all
  have fin: "finish_round ?p = finish_round p"
    by (simp add: finish_round_def fun_eq_iff cong: sum.case_cong option.case_cong peer_frame_error.case_cong)
  have eq: "session_round K env p (c, n, s) = session_round K env ?p (c, n, s)"
    using False nf nf_ok by (simp add: session_round_def Let_def h fin split: prod.split sum.split)
  have "counters_below s'" if again: "session_round K env p (c, n, s) = Some (Again (cn, n', s'))" for cn n' s'
  proof -
    obtain f n1 s1 r c1 where f: "handle_frame K env p n ?s f = Some ((n1, s1), r)" "finish_round p c1 n1 s1 r = Again (cn, n', s')"
      using again False nf nf_ok by (auto simp: session_round_def Let_def split: prod.splits sum.splits if_splits)
    have "app_frames s' = app_frames s1 \<and> frames_seen s' = frames_seen s1 \<and> stale_decoded_blocks s' = stale_decoded_blocks s1 \<and>
      inbound_tx_decoded s' = inbound_tx_decoded s1"
      using f(2) by (auto simp: finish_round_def Let_def split: option.splits prod.splits sum.splits peer_frame_error.splits if_splits)
    with counters_step [OF f(1)] below fs nf show ?thesis by (simp add: counters_below_def word_le_nat_alt)
  qed
  with eq show ?thesis by blast
qed

lemma peer_loop_limit:
  assumes "8192 \<le> unat (max_app_frames_per_session p)" "8192 \<le> unat a'"
    and "8192 \<le> unat (max_stale_decoded_blocks_per_session p)" "8192 \<le> unat b'"
    and "8192 \<le> unat (max_inbound_tx_per_session p)" "8192 \<le> unat c'"
  shows "counters_below s \<Longrightarrow> peer_loop K env p (c, n, s) =
    peer_loop K env (relimit p a' b' c') (c, n, s)"
proof (induction "8192 - unat (frames_seen s)" arbitrary: c n s rule: less_induct)
  case less
  note rl = round_limit [OF less.prems assms, of K env c n]
  show ?case
  proof (cases "session_round K env p (c, n, s)")
    case None
    with rl show ?thesis by (subst (1 2) peer_loop.simps) simp
  next
    case (Some rd)
    show ?thesis
    proof (cases rd)
      case (Again st)
      obtain c1 n1 s1 where st: "st = (c1, n1, s1)" by (metis prod_cases3)
      with Some Again rl have "counters_below s1" by blast
      with less.hyps [of s1 c1 n1] session_round_again [of K env p c n s c1 n1 s1] Some Again st rl show ?thesis
        by (subst (1 2) peer_loop.simps) auto
    next
      case (Return st r)
      with Some rl show ?thesis by (subst (1 2) peer_loop.simps) auto
    qed
  qed
qed

text \<open>
  C40. The hard cap of 8192 frames per session makes larger configured limits meaningless: raising
  the frame limit, the stale-block quota or the transaction quota above 8192 (two of the three
  defaults are 100000) changes nothing about any session.
\<close>

theorem frame_cap_dominates:
  assumes "8192 \<le> unat (max_app_frames_per_session p)" "8192 \<le> unat a'"
    and "8192 \<le> unat (max_stale_decoded_blocks_per_session p)" "8192 \<le> unat b'"
    and "8192 \<le> unat (max_inbound_tx_per_session p)" "8192 \<le> unat c'"
  shows "peer_connection_loop K env p c n =
    peer_connection_loop K env (relimit p a' b' c') c n"
proof -
  have "counters_below session_start" by (simp add: counters_below_def session_start_def)
  from peer_loop_limit [OF assms this] show ?thesis
    by (simp add: peer_connection_loop_def split: prod.split sum.split)
qed

end
