(* ===== verification/Sync.thy ===== *)
theory Sync
  imports Node
begin

text \<open>
  \<open>network.rs\<close>, the outbound side: pulling block batches from a peer and appending them within a
  work budget, and pushing blocks and transactions.  Connecting is the operating system's doing:
  \<open>sy_dial i h\<close> is what dialling the peer gives in round \<open>i\<close> if the client is about to ask for height \<open>h\<close>,
  an error or a connection with the bytes that will arrive; nothing is assumed of how these relate to
  what the client sends, where it matters (\<open>Catch_Up\<close>) they are what a node answers to the bytes
  written.  The clock is read once per appended block and disk
  outcomes are given per appended block, both counted from the start of the call.
\<close>

definition PFX_SYNC :: string where "PFX_SYNC = ''[sync]''"

record sync_work_budget =
  max_rounds_per_call :: u32
  max_blocks_per_call :: u32
  max_wire_bytes_per_call :: u64

definition default_sync_budget :: sync_work_budget where
  "default_sync_budget =
    \<lparr>max_rounds_per_call = 8192, max_blocks_per_call = 500000, max_wire_bytes_per_call = 512 * 1024 * 1024\<rparr>"

definition validate_sync_work_budget :: "sync_work_budget \<Rightarrow> string + unit" where
  "validate_sync_work_budget b =
    (if max_rounds_per_call b = 0 then Inl (PFX_SYNC @ '' invalid budget: max_rounds_per_call must be >= 1'')
     else if max_blocks_per_call b = 0 then Inl (PFX_SYNC @ '' invalid budget: max_blocks_per_call must be >= 1'')
     else if max_wire_bytes_per_call b = 0 then Inl (PFX_SYNC @ '' invalid budget: max_wire_bytes_per_call must be >= 1'')
     else Inr ())"

record sync_from_peer_outcome =
  blocks_appended :: nat
  stopped_due_to_budget :: bool

text \<open>The loop over the batch, with the expected height and the previous hash.\<close>

fun validate_batch_from :: "crypto \<Rightarrow> nat \<Rightarrow> u64 \<Rightarrow> string \<Rightarrow> block list \<Rightarrow> string + unit" where
  "validate_batch_from K i expect_height prev_hash [] = Inr ()"
| "validate_batch_from K i expect_height prev_hash (b # bs) =
    and_then (map_err (\<lambda>e. ''sync batch block '' @ show_nat i @ '' basic_validate: '' @ display_error e) (block_basic_validate K b)) (\<lambda>_.
    if height b \<noteq> expect_height
    then Inl (''sync batch not linear at index '' @ show_nat i @ '': expected height '' @ show_word expect_height @ '', got '' @ show_word (height b))
    else if previous_hash b \<noteq> prev_hash
    then Inl (''sync batch broken link at index '' @ show_nat i @ '': previous_hash does not extend tip'')
    else validate_batch_from K (i + 1) (saturating_add expect_height 1) (block_hash b) bs)"

definition validate_linear_sync_batch :: "crypto \<Rightarrow> blockchain \<Rightarrow> block list \<Rightarrow> string + unit" where
  "validate_linear_sync_batch K chain bs =
    (if bs = [] then Inr ()
     else if bc_blocks chain = [] then Inl ''chain has no tip''
     else let tip = last (bc_blocks chain) in
       validate_batch_from K 0 (saturating_add (height tip) 1) (block_hash tip) bs)"

text \<open>The connection is returned as it is when it is dropped, \<open>None\<close> if there was none.\<close>

definition pull_blocks_from_peer ::
  "crypto \<Rightarrow> io_error + conn \<Rightarrow> string \<Rightarrow> u64 \<Rightarrow> genesis \<Rightarrow> u64 \<Rightarrow> conn option \<times> (string + (block list \<times> u64))" where
  "pull_blocks_from_peer K dialled peer start_height g advisory =
    (case dialled of
       Inl e \<Rightarrow> (None, Inl (PFX_SYNC @ '' connect '' @ peer @ '' failed: '' @ io_text e))
     | Inr c \<Rightarrow>
    (case handshake_initiator K c g advisory of
       (c, Inl e) \<Rightarrow> (Some c, Inl (PFX_SYNC @ '' session handshake with '' @ peer @ '' failed: '' @ io_text e))
     | (c, Inr _) \<Rightarrow>
    (case write_framed c (wire_encode_get_blocks start_height) of
       (c, Inl e) \<Rightarrow> (Some c, Inl (io_text e))
     | (c, Inr _) \<Rightarrow>
    (case read_framed c of
       (c, Inl e) \<Rightarrow> (Some c, Inl (io_text e))
     | (c, Inr resp) \<Rightarrow>
        (Some c, and_then (wire_decode_blocks_response resp) (\<lambda>bs. Inr (bs, word_of_nat (length resp))))))))"

record sync_env =
  sy_dial :: "nat \<Rightarrow> u64 \<Rightarrow> io_error + conn"
  sy_clock :: "nat \<Rightarrow> u64"
  sy_disk :: "nat \<Rightarrow> io_plan"

text \<open>The loop over the blocks of a batch; the flag is \<open>stopped\<close>.\<close>

fun append_batch ::
  "crypto \<Rightarrow> sync_env \<Rightarrow> nat \<Rightarrow> node_inner \<Rightarrow> nat \<Rightarrow> block list \<Rightarrow> ((node_inner \<times> nat) \<times> (string + bool)) option" where
  "append_batch K env limit n appended [] = Some ((n, appended), Inr False)"
| "append_batch K env limit n appended (b # bs) =
    (case append_network_block_persist K (sy_disk env appended) n b (sy_clock env appended) of
       None \<Rightarrow> None
     | Some (n, Inl f) \<Rightarrow> Some ((n, appended), Inl (display_failure f))
     | Some (n, Inr _) \<Rightarrow>
        let appended = appended + 1 in
        if appended \<ge> limit then Some ((n, appended), Inr True)
        else append_batch K env limit n appended bs)"

record sync_state =
  sy_node :: node_inner
  sy_total :: nat
  sy_rounds :: u32
  sy_wire_bytes :: u64

datatype sync_round = Sync_Again sync_state | Sync_Break sync_state bool | Sync_Err sync_state string

definition sync_one_round ::
  "crypto \<Rightarrow> sync_env \<Rightarrow> string \<Rightarrow> sync_work_budget \<Rightarrow> sync_state \<Rightarrow> sync_round option" where
  "sync_one_round K env peer budget s =
    (if sy_total s \<ge> unat (max_blocks_per_call budget) then Some (Sync_Break s True)
     else if sy_rounds s \<ge> max_rounds_per_call budget then Some (Sync_Break s True)
     else if sy_wire_bytes s \<ge> max_wire_bytes_per_call budget then Some (Sync_Break s True)
     else
     let n = sy_node s; height_now = bc_height (ni_chain n); start = saturating_add height_now 1 in
     case snd (pull_blocks_from_peer K (sy_dial env (unat (sy_rounds s)) start) peer start (ni_genesis n) height_now) of
       Inl e \<Rightarrow> Some (Sync_Err s e)
     | Inr (bs, nbytes) \<Rightarrow>
        let s = s\<lparr>sy_rounds := saturating_add (sy_rounds s) 1, sy_wire_bytes := saturating_add (sy_wire_bytes s) nbytes\<rparr> in
        if bs = [] then Some (Sync_Break s False)
        else (case validate_linear_sync_batch K (ni_chain n) bs of
            Inl e \<Rightarrow> Some (Sync_Err s e)
          | Inr _ \<Rightarrow>
             let room = unat (saturating_sub (max_blocks_per_call budget) (word_of_nat (sy_total s))) in
             if room = 0 then Some (Sync_Break s True)
             else let batch_len = length bs; apply_n = min batch_len room in
               (case append_batch K env (unat (max_blocks_per_call budget)) n (sy_total s) (take apply_n bs) of
                  None \<Rightarrow> None
                | Some ((n, appended), Inl e) \<Rightarrow> Some (Sync_Err (s\<lparr>sy_node := n, sy_total := appended\<rparr>) e)
                | Some ((n, appended), Inr stopped) \<Rightarrow>
                   let s = s\<lparr>sy_node := n, sy_total := appended\<rparr> in
                   if stopped then Some (Sync_Break s True)
                   else if apply_n < batch_len then Some (Sync_Break s True)
                   else if sy_wire_bytes s > max_wire_bytes_per_call budget then Some (Sync_Break s True)
                   else Some (Sync_Again s))))"

lemma sync_round_again:
  assumes "sync_one_round K env peer budget s = Some (Sync_Again s')"
  shows "unat (sy_rounds s') = Suc (unat (sy_rounds s)) \<and> sy_rounds s < max_rounds_per_call budget"
proof -
  have lt: "sy_rounds s < max_rounds_per_call budget"
    using assms by (auto simp: sync_one_round_def not_le split: if_splits)
  have eq: "sy_rounds s' = saturating_add (sy_rounds s) 1"
    using assms by (auto simp: sync_one_round_def Let_def split: if_splits sum.splits prod.splits option.splits)
  have "unat (sy_rounds s) + 1 < 2 ^ 32"
    using lt unat_bound [of "max_rounds_per_call budget"] by (simp add: word_less_nat_alt)
  with lt eq show ?thesis by (simp add: unat_saturating_add)
qed

function sync_rounds ::
  "crypto \<Rightarrow> sync_env \<Rightarrow> string \<Rightarrow> sync_work_budget \<Rightarrow> sync_state \<Rightarrow> (sync_state \<times> (string + bool)) option" where
  "sync_rounds K env peer budget s =
    (case sync_one_round K env peer budget s of
       None \<Rightarrow> None
     | Some (Sync_Err s' e) \<Rightarrow> Some (s', Inl e)
     | Some (Sync_Break s' stopped) \<Rightarrow> Some (s', Inr stopped)
     | Some (Sync_Again s') \<Rightarrow> sync_rounds K env peer budget s')"
  by auto
termination
  by (relation "measure (\<lambda>(_, _, _, budget, s). unat (max_rounds_per_call budget) - unat (sy_rounds s))")
    (auto dest!: sync_round_again simp: word_less_nat_alt)

declare sync_rounds.simps [simp del]

definition sync_from_peer_with_clock ::
  "crypto \<Rightarrow> sync_env \<Rightarrow> node_inner \<Rightarrow> string \<Rightarrow> sync_work_budget \<Rightarrow> (node_inner \<times> (string + sync_from_peer_outcome)) option" where
  "sync_from_peer_with_clock K env n peer budget =
    (if poisoned (ni_store n)
     then Some (n, Inl (PFX_STORAGE @ '' fail-closed: store poisoned: refusing peer sync''))
     else case validate_sync_work_budget budget of
       Inl e \<Rightarrow> Some (n, Inl e)
     | Inr _ \<Rightarrow>
        (case sync_rounds K env peer budget \<lparr>sy_node = n, sy_total = 0, sy_rounds = 0, sy_wire_bytes = 0\<rparr> of
           None \<Rightarrow> None
         | Some (s, Inl e) \<Rightarrow> Some (sy_node s, Inl e)
         | Some (s, Inr stopped) \<Rightarrow>
            let n = (if sy_total s > 0 then fst (mempool_hygiene_after_ledger_advance K (sy_node s)) else sy_node s)
            in Some (n, Inr \<lparr>blocks_appended = sy_total s, stopped_due_to_budget = stopped\<rparr>)))"

section \<open>Pushing\<close>

text \<open>The common part of the two push functions; \<open>enc\<close> is the encoder's result, \<open>None\<close> if it panics.\<close>

definition push_message ::
  "crypto \<Rightarrow> string \<Rightarrow> io_error + conn \<Rightarrow> string \<Rightarrow> genesis \<Rightarrow> u64 \<Rightarrow> u8 \<Rightarrow> bytes option \<Rightarrow> (conn option \<times> (string + unit)) option" where
  "push_message K what dialled peer g advisory opcode enc =
    (case dialled of
       Inl e \<Rightarrow> Some (None, Inl (PFX_PEER @ '' '' @ what @ ''connect '' @ peer @ '' failed: '' @ io_text e))
     | Inr c \<Rightarrow>
        (case handshake_initiator K c g advisory of
           (c, Inl e) \<Rightarrow> Some (Some c, Inl (PFX_PEER @ '' '' @ what @ ''session handshake with '' @ peer @ '' failed: '' @ io_text e))
         | (c, Inr _) \<Rightarrow>
            Option.bind enc (\<lambda>body.
            case write_framed c (opcode # body) of
              (c, Inl e) \<Rightarrow> Some (Some c, Inl (io_text e))
            | (c, Inr _) \<Rightarrow> Some (Some c, Inr ()))))"

definition push_block_to_peer ::
  "crypto \<Rightarrow> io_error + conn \<Rightarrow> string \<Rightarrow> genesis \<Rightarrow> u64 \<Rightarrow> block \<Rightarrow> (conn option \<times> (string + unit)) option" where
  "push_block_to_peer K dialled peer g advisory b =
    push_message K ''gossip '' dialled peer g advisory OP_BLOCK (encode_block b)"

definition push_tx_to_peer ::
  "crypto \<Rightarrow> io_error + conn \<Rightarrow> string \<Rightarrow> genesis \<Rightarrow> u64 \<Rightarrow> transaction \<Rightarrow> (conn option \<times> (string + unit)) option" where
  "push_tx_to_peer K dialled peer g advisory tx =
    push_message K ''push_tx '' dialled peer g advisory OP_TX (encode_transaction tx)"

section \<open>Synchronisation extends the chain\<close>

lemma run_case_Inr:
  "snd (case p of (c, Inl e) \<Rightarrow> (h c e, Inl (k c e)) | (c, Inr a) \<Rightarrow> f c a) = Inr b \<longleftrightarrow> (\<exists>c a. p = (c, Inr a) \<and> snd (f c a) = Inr b)"
  by (cases p; cases "snd p") auto

lemma pull_ok:
  "snd (pull_blocks_from_peer K dialled peer start g adv) = Inr (bs, nbytes) \<longleftrightarrow>
     (\<exists>c c1 c2 c3 resp. dialled = Inr c \<and> handshake_initiator K c g adv = (c1, Inr ()) \<and>
        write_framed c1 (wire_encode_get_blocks start) = (c2, Inr ()) \<and> read_framed c2 = (c3, Inr resp) \<and>
        wire_decode_blocks_response resp = Inr bs \<and> nbytes = word_of_nat (length resp))"
  by (cases dialled) (auto simp: pull_blocks_from_peer_def and_then_Inr_iff run_case_Inr)

lemma pulled_blocks_wire:
  assumes "snd (pull_blocks_from_peer K dialled peer start g adv) = Inr (bs, nbytes)"
  shows "length bs \<le> 64 \<and> (\<forall>b \<in> set bs. wire_block b)"
  using assms
  by (auto simp: pull_ok decode_batch_ok sendable_def wire_block_def)

lemma append_batch_spec:
  assumes "digest_format K"
  shows "node_inv K n \<Longrightarrow> \<forall>b \<in> set bs. wire_block b \<Longrightarrow> appended < limit \<Longrightarrow>
    \<exists>m appended' r. append_batch K env limit n appended bs = Some ((m, appended'), r) \<and> node_inv K m \<and>
      appended \<le> appended' \<and> appended' \<le> limit \<and> extended n (appended' - appended) m \<and>
      (r = Inr True \<longrightarrow> appended' = limit) \<and> (r = Inr False \<longrightarrow> appended' = appended + length bs \<and> appended' < limit)"
proof (induction bs arbitrary: n appended)
  case (Cons b bs)
  from Cons.prems have b: "wire_block b" by simp
  show ?case
  proof (rule append_persist_outcome [OF assms Cons.prems(1) b, of "sy_disk env appended" "sy_clock env appended"])
    fix chain st
    let ?n = "n\<lparr>ni_chain := chain, ni_store := st\<rparr>"
    assume w: "append_network_block_persist K (sy_disk env appended) n b (sy_clock env appended) = Some (?n, Inr ())"
      "append_block K (ni_chain n) b = (chain, Inr ())" "node_inv K ?n"
    have e1: "extended n 1 ?n" using w(2) by (auto simp: extended_def append_block_ok)
    show ?thesis
    proof (cases "appended + 1 \<ge> limit")
      case True
      with w e1 Cons.prems(3) show ?thesis by simp
    next
      case False
      with Cons.IH [OF w(3), of "appended + 1"] Cons.prems obtain m appended' r where
        r: "append_batch K env limit ?n (appended + 1) bs = Some ((m, appended'), r)" "node_inv K m" "appended + 1 \<le> appended'" "appended' \<le> limit"
          "extended ?n (appended' - (appended + 1)) m" "r = Inr True \<longrightarrow> appended' = limit"
          "r = Inr False \<longrightarrow> appended' = appended + 1 + length bs \<and> appended' < limit" by auto
      have eq: "1 + (appended' - (appended + 1)) = appended' - appended" using r(3) by linarith
      have "extended n (appended' - appended) m" using extended_trans [OF e1 r(5)] unfolding eq .
      with r w False show ?thesis by auto
    qed
  qed (use Cons.prems in \<open>auto simp: extended_def\<close>)
qed simp

lemma sync_one_round_spec:
  assumes "digest_format K" "node_inv K (sy_node s)" "sy_total s \<le> unat (max_blocks_per_call budget)"
  shows "\<exists>rd. sync_one_round K env peer budget s = Some rd \<and>
    (case rd of Sync_Again s' \<Rightarrow> node_inv K (sy_node s') \<and> sy_total s \<le> sy_total s' \<and> sy_total s' \<le> unat (max_blocks_per_call budget) \<and>
        extended (sy_node s) (sy_total s' - sy_total s) (sy_node s')
     | Sync_Break s' b \<Rightarrow> node_inv K (sy_node s') \<and> sy_total s \<le> sy_total s' \<and> sy_total s' \<le> unat (max_blocks_per_call budget) \<and>
        extended (sy_node s) (sy_total s' - sy_total s) (sy_node s')
     | Sync_Err s' e \<Rightarrow> node_inv K (sy_node s') \<and> sy_total s \<le> sy_total s' \<and> sy_total s' \<le> unat (max_blocks_per_call budget) \<and>
        extended (sy_node s) (sy_total s' - sy_total s) (sy_node s'))"
proof (cases "sy_total s < unat (max_blocks_per_call budget)")
  case False
  with assms show ?thesis by (simp add: sync_one_round_def)
next
  case lt: True
  let ?n = "sy_node s"
  let ?start = "saturating_add (bc_height (ni_chain ?n)) 1"
  let ?pull = "snd (pull_blocks_from_peer K (sy_dial env (unat (sy_rounds s)) ?start) peer ?start (ni_genesis ?n) (bc_height (ni_chain ?n)))"
  show ?thesis
  proof (cases ?pull)
    case (Inl e)
    with assms show ?thesis by (simp add: sync_one_round_def Let_def)
  next
    case (Inr p)
    obtain bs nbytes where p: "p = (bs, nbytes)" by fastforce
    from pulled_blocks_wire [OF Inr [unfolded p]] have wb: "\<forall>b \<in> set bs. wire_block b" by blast
    have "\<exists>m appended' r. append_batch K env (unat (max_blocks_per_call budget)) ?n (sy_total s) (take k bs) = Some ((m, appended'), r) \<and>
      node_inv K m \<and> sy_total s \<le> appended' \<and> appended' \<le> unat (max_blocks_per_call budget) \<and> extended ?n (appended' - sy_total s) m" for k
      using append_batch_spec [OF assms(1,2) _ lt, of "take k bs" env] wb by (fastforce dest: in_set_takeD)
    then obtain m appended' r where r: "append_batch K env (unat (max_blocks_per_call budget)) ?n (sy_total s)
        (take (min (length bs) (unat (saturating_sub (max_blocks_per_call budget) (word_of_nat (sy_total s))))) bs) = Some ((m, appended'), r)"
      "node_inv K m" "sy_total s \<le> appended'" "appended' \<le> unat (max_blocks_per_call budget)" "extended ?n (appended' - sy_total s) m"
      by blast
    with Inr p assms show ?thesis
      by (cases r; cases "validate_linear_sync_batch K (ni_chain ?n) bs") (simp_all add: sync_one_round_def Let_def)
  qed
qed

lemma sync_rounds_spec:
  assumes "digest_format K"
  shows "node_inv K (sy_node s) \<Longrightarrow> sy_total s \<le> unat (max_blocks_per_call budget) \<Longrightarrow>
    \<exists>s' r. sync_rounds K env peer budget s = Some (s', r) \<and> node_inv K (sy_node s') \<and> sy_total s \<le> sy_total s' \<and>
      sy_total s' \<le> unat (max_blocks_per_call budget) \<and> extended (sy_node s) (sy_total s' - sy_total s) (sy_node s')"
proof (induction "unat (max_rounds_per_call budget) - unat (sy_rounds s)" arbitrary: s rule: less_induct)
  case less
  from sync_one_round_spec [OF assms less.prems, of env peer] obtain rd where
    rd: "sync_one_round K env peer budget s = Some rd" by blast
  note spec = sync_one_round_spec [OF assms less.prems, of env peer, unfolded rd]
  show ?case
  proof (cases rd)
    case (Sync_Again s1)
    note again = sync_round_again [OF rd [unfolded Sync_Again]]
    from spec Sync_Again have s1: "node_inv K (sy_node s1)" "sy_total s \<le> sy_total s1" "sy_total s1 \<le> unat (max_blocks_per_call budget)"
      "extended (sy_node s) (sy_total s1 - sy_total s) (sy_node s1)" by auto
    have "unat (max_rounds_per_call budget) - unat (sy_rounds s1) < unat (max_rounds_per_call budget) - unat (sy_rounds s)"
      using again unfolding word_less_nat_alt by linarith
    from less.hyps [OF this s1(1,3)] obtain s' r where r: "sync_rounds K env peer budget s1 = Some (s', r)" "node_inv K (sy_node s')"
      "sy_total s1 \<le> sy_total s'" "sy_total s' \<le> unat (max_blocks_per_call budget)" "extended (sy_node s1) (sy_total s' - sy_total s1) (sy_node s')"
      by blast
    have "extended (sy_node s) (sy_total s' - sy_total s) (sy_node s')"
      using extended_trans [OF s1(4) r(5)] s1(2) r(3) by simp
    with r s1 rd Sync_Again show ?thesis by (subst sync_rounds.simps) simp
  qed (use rd spec in \<open>subst sync_rounds.simps; simp\<close>)+
qed

lemma sync_outcome:
  assumes "digest_format K" "node_inv K n"
  shows "\<exists>m r k. sync_from_peer_with_clock K env n peer budget = Some (m, r) \<and> node_inv K m \<and> extended n k m \<and>
    k \<le> unat (max_blocks_per_call budget) \<and> (\<forall>out. r = Inr out \<longrightarrow> blocks_appended out = k)"
proof (cases "poisoned (ni_store n) \<or> validate_sync_work_budget budget \<noteq> Inr ()")
  case True
  then show ?thesis
    using assms(2) extended_refl [of n]
    by (cases "validate_sync_work_budget budget") (auto simp: sync_from_peer_with_clock_def intro!: exI [of _ 0])
next
  case False
  let ?s = "\<lparr>sy_node = n, sy_total = 0, sy_rounds = 0, sy_wire_bytes = 0\<rparr>"
  from sync_rounds_spec [OF assms(1), of ?s budget env peer] assms(2) obtain s r where
    s: "sync_rounds K env peer budget ?s = Some (s, r)" "node_inv K (sy_node s)" "sy_total s \<le> unat (max_blocks_per_call budget)"
      "extended n (sy_total s) (sy_node s)" by auto
  show ?thesis
  proof (cases r)
    case (Inl e)
    with s False show ?thesis by (auto simp: sync_from_peer_with_clock_def)
  next
    case (Inr stopped)
    let ?m = "fst (mempool_hygiene_after_ledger_advance K (sy_node s))"
    have "node_inv K ?m" "extended n (sy_total s) ?m" using hygiene_node_inv [OF s(2)] s(4) by (auto simp: extended_def)
    with s Inr False show ?thesis by (auto simp: sync_from_peer_with_clock_def Let_def)
  qed
qed

text \<open>
  C17. Synchronising with a peer, honest or not, always comes to an end and never panics; it only
  ever extends the chain, by exactly the number of blocks it reports and never more than the
  budget allows.  It keeps \<open>node_inv\<close>, also when it stops with an error: the block file holds
  exactly the blocks in memory if no write failed, and still begins with all of them if one did.
\<close>

theorem sync_safe:
  assumes "digest_format K" "node_inv K n"
  shows "\<exists>m r k. sync_from_peer_with_clock K env n peer budget = Some (m, r) \<and> node_inv K m \<and> extended n k m \<and>
    k \<le> unat (max_blocks_per_call budget) \<and> (\<forall>out. r = Inr out \<longrightarrow> blocks_appended out = k)"
  using assms by (rule sync_outcome)

end
