(* ===== verification/Slot_Pool.thy ===== *)
theory Slot_Pool
  imports Tril_Prelude
begin

text \<open>
  \<open>network.rs\<close>, \<open>InboundSlotPool\<close>: the lock-free counter that bounds concurrent inbound sessions.
  Threads interleave at the granularity of the atomic operations: a load, a compare-exchange that
  succeeds, and one that fails (the weak one also spuriously).  The state is the counter and, for
  each thread, where it is in \<open>try_acquire\<close> or in the \<open>drop\<close> of its permit.
\<close>

text \<open>
  \<open>Acquiring n\<close>: in the loop of \<open>try_acquire\<close> with the value \<open>n\<close> read last.  \<open>Holding\<close>: owns an
  \<open>InboundPermit\<close>.  \<open>Releasing\<close>: at the head of the loop of \<open>drop\<close>.  \<open>Releasing_From c\<close>: in that
  loop with the value \<open>c\<close> read.
\<close>

datatype slot_thread = Idle | Acquiring nat | Holding | Releasing | Releasing_From nat

record slot_pool =
  slot_max :: nat
  active :: nat
  threads :: "slot_thread list"

definition slot_pool_new :: "nat \<Rightarrow> nat \<Rightarrow> slot_pool" where
  "slot_pool_new limit k = \<lparr>slot_max = limit, active = 0, threads = replicate k Idle\<rparr>"

abbreviation goto :: "slot_pool \<Rightarrow> nat \<Rightarrow> slot_thread \<Rightarrow> slot_pool" where
  "goto p i t \<equiv> p\<lparr>threads := (threads p)[i := t]\<rparr>"

inductive slot_step :: "slot_pool \<Rightarrow> slot_pool \<Rightarrow> bool" where
  acquire_load: "i < length (threads p) \<Longrightarrow> threads p ! i = Idle \<Longrightarrow> slot_step p (goto p i (Acquiring (active p)))"
| acquire_full: "i < length (threads p) \<Longrightarrow> threads p ! i = Acquiring n \<Longrightarrow> slot_max p \<le> n \<Longrightarrow> slot_step p (goto p i Idle)"
| acquire_ok: "i < length (threads p) \<Longrightarrow> threads p ! i = Acquiring n \<Longrightarrow> n < slot_max p \<Longrightarrow> active p = n \<Longrightarrow>
    slot_step p ((goto p i Holding)\<lparr>active := n + 1\<rparr>)"
| acquire_retry: "i < length (threads p) \<Longrightarrow> threads p ! i = Acquiring n \<Longrightarrow> n < slot_max p \<Longrightarrow>
    slot_step p (goto p i (Acquiring (active p)))"
| drop_start: "i < length (threads p) \<Longrightarrow> threads p ! i = Holding \<Longrightarrow> slot_step p (goto p i Releasing)"
| drop_load: "i < length (threads p) \<Longrightarrow> threads p ! i = Releasing \<Longrightarrow> slot_step p (goto p i (Releasing_From (active p)))"
| drop_zero: "i < length (threads p) \<Longrightarrow> threads p ! i = Releasing_From 0 \<Longrightarrow> slot_step p (goto p i Idle)"
| drop_ok: "i < length (threads p) \<Longrightarrow> threads p ! i = Releasing_From c \<Longrightarrow> c \<noteq> 0 \<Longrightarrow> active p = c \<Longrightarrow>
    slot_step p ((goto p i Idle)\<lparr>active := c - 1\<rparr>)"
| drop_retry: "i < length (threads p) \<Longrightarrow> threads p ! i = Releasing_From c \<Longrightarrow> c \<noteq> 0 \<Longrightarrow> active p \<noteq> c \<Longrightarrow>
    slot_step p (goto p i Releasing)"

section \<open>The counter counts the permits\<close>

fun permit :: "slot_thread \<Rightarrow> nat" where
  "permit Holding = 1" | "permit Releasing = 1" | "permit (Releasing_From c) = 1" | "permit _ = 0"

definition permits :: "slot_pool \<Rightarrow> nat" where
  "permits p = sum_list (map permit (threads p))"

definition slot_inv :: "slot_pool \<Rightarrow> bool" where
  "slot_inv p \<longleftrightarrow> active p = permits p \<and> active p \<le> slot_max p \<and> Releasing_From 0 \<notin> set (threads p)"

lemma sum_list_update_nat:
  "i < length xs \<Longrightarrow> sum_list (map f (xs[i := x])) + f (xs ! i) = sum_list (map f xs) + (f x :: nat)"
  by (induction xs arbitrary: i) (auto simp: nth_Cons split: nat.split)

lemma permits_goto:
  "i < length (threads p) \<Longrightarrow> permits (goto p i t) + permit (threads p ! i) = permits p + permit t"
  by (simp add: permits_def sum_list_update_nat)

lemma permit_le: "i < length (threads p) \<Longrightarrow> permit (threads p ! i) \<le> permits p"
  unfolding permits_def by (intro member_le_sum_list) simp_all

lemma permits_active [simp]: "permits (p\<lparr>active := k\<rparr>) = permits p"
  by (simp add: permits_def)

lemma slot_inv_goto:
  assumes "slot_inv p" "i < length (threads p)" "t \<noteq> Releasing_From 0"
    and "a + permit (threads p ! i) = active p + permit t" "a \<le> slot_max p"
  shows "slot_inv ((goto p i t)\<lparr>active := a\<rparr>)"
  using assms permits_goto [OF assms(2), of t] set_update_subset_insert [of "threads p" i t]
  by (auto simp: slot_inv_def)

lemma slot_inv_move:
  assumes "slot_inv p" "i < length (threads p)" "t \<noteq> Releasing_From 0" "permit (threads p ! i) = permit t"
  shows "slot_inv (goto p i t)"
  using slot_inv_goto [OF assms(1,2,3), of "active p"] assms(1,4) by (simp add: slot_inv_def)

lemma slot_step_inv: "slot_step p q \<Longrightarrow> slot_inv p \<Longrightarrow> slot_inv q"
proof (induction rule: slot_step.induct)
  case (acquire_ok i p n)
  then show ?case by (intro slot_inv_goto) simp_all
next
  case (drop_load i p)
  from permit_le [OF drop_load(1)] drop_load have "active p \<noteq> 0" by (simp add: slot_inv_def)
  with drop_load show ?case by (intro slot_inv_move) simp_all
next
  case (drop_zero i p)
  then show ?case by (metis nth_mem slot_inv_def)
next
  case (drop_ok i p c)
  then have "c - 1 \<le> slot_max p" by (auto simp: slot_inv_def)
  with drop_ok show ?case by (intro slot_inv_goto) simp_all
qed (simp_all add: slot_inv_move)

lemma slot_step_max: "slot_step p q \<Longrightarrow> slot_max q = slot_max p"
  by (erule slot_step.cases) simp_all

interpretation slot_run: stepwise slot_step slot_inv "\<lambda>p q. slot_max q = slot_max p"
  by unfold_locales (auto simp: slot_step_inv slot_step_max)

text \<open>
  C34. However the threads interleave and whichever exchanges fail, at most the configured number
  of sessions hold a slot, the counter is exactly the number of permits that exist, and a permit
  is never released while the counter is zero (the case the code logs as impossible).
\<close>

theorem slot_pool_bounded:
  assumes "slot_step\<^sup>*\<^sup>* (slot_pool_new limit k) p"
  shows "active p = permits p \<and> permits p \<le> limit \<and> Releasing_From 0 \<notin> set (threads p)"
proof -
  have "slot_inv (slot_pool_new limit k)" by (auto simp: slot_inv_def slot_pool_new_def permits_def sum_list_replicate)
  from slot_run.run_keeps [OF assms this] show ?thesis by (simp add: slot_inv_def slot_pool_new_def)
qed

end
