(* ===== verification/Examples_Node.thy ===== *)
theory Examples_Node
  imports Examples_Store Sync Slot_Pool
begin

text \<open>The properties of the networked node on the small network of \<open>Examples\<close>.\<close>

definition ex_node :: node_inner where
  "ex_node = node_for_tests ex_genesis ex_chain ex_pool ex_store"

lemma ex_txs_wire: "wire_tx tx1" "wire_tx tx2"
  using ex_txs_queueable by (auto simp: wire_tx_def queueable_def MAX_PENDING_TX_FRAME_def)

lemma ex_chain_ok: "chain_ok toy_crypto ex_genesis ex_chain"
  by (simp add: chain_ok_def ex_chain_inv ex_chain_eq [THEN arg_cong [of _ _ bc_consensus]])

lemma ex_node_inv: "node_inv toy_crypto ex_node"
  using ex_chain_ok ex_pool_inv ex_txs_wire ex_store_holds store_holds_keeps [OF ex_store_holds]
  by (simp add: node_inv_def ex_node_def node_for_tests_def pool_ok_def ex_pool_fifo
      ex_chain_eq [THEN arg_cong [of _ _ bc_blocks]])

definition quiet_conn :: conn where
  "quiet_conn = \<lparr>c_in = [], c_end = Io_Error UnexpectedEof '''', c_out = [], c_room = None, c_werr = Io_Error OtherKind ''''\<rparr>"

definition alone :: session_env where
  "alone = \<lparr>env_others = (\<lambda>_ n. n), env_clock = (\<lambda>_. 200), env_disk = (\<lambda>_. good_disk)\<rparr>"

theorem handshake_witness:
  "\<exists>hello ack cr. encode_session_payload toy_crypto OP_SESSION_HELLO ex_genesis 0 = Inr hello \<and>
     handshake_responder toy_crypto (quiet_conn\<lparr>c_in := framed hello\<rparr>) ex_genesis 1 = (cr, Inr ()) \<and> c_out cr = framed ack"
proof -
  from ex_commitment obtain c where c: "state_commitment_hex toy_crypto ex_genesis = Inr c" by blast
  obtain hello where h: "encode_session_payload toy_crypto OP_SESSION_HELLO ex_genesis 0 = Inr hello"
    using handshake_agreement [OF toy_digest_format c c, of quiet_conn quiet_conn 0 0 "[]"] by (auto simp: quiet_conn_def)
  from handshake_agreement [OF toy_digest_format c c, of quiet_conn "quiet_conn\<lparr>c_in := framed hello\<rparr>" 0 1 "[]"] h
  show ?thesis by (auto simp: quiet_conn_def)
qed

theorem batch_witness:
  "\<exists>reply. wire_encode_blocks_response [ex_block] = Some (Inr reply) \<and> wire_decode_blocks_response reply = Inr [ex_block]"
proof -
  have b: "rust_block ex_block \<and> block_fits ex_block \<and> length (block_image ex_block) < 2 ^ 32"
    using ex_block_storable max_frame_u32 by (simp add: storable_def)
  have "length (batch_image [ex_block]) \<le> unat MAX_WIRE_FRAME_BYTES"
    using ex_block_small by (simp add: batch_image_def MAX_WIRE_FRAME_BYTES_def framed_def)
  with batch_round_trip [of "[ex_block]"] b show ?thesis by simp
qed

theorem inbound_session_witness:
  "node_inv toy_crypto ex_node \<and>
   (\<exists>c' n' s' r. peer_connection_loop toy_crypto alone default_inbound_policy quiet_conn ex_node = Some ((c', n', s'), r) \<and>
      node_inv toy_crypto n')"
proof -
  have "\<forall>i n. node_inv toy_crypto n \<longrightarrow> node_inv toy_crypto (env_others alone i n)" by (simp add: alone_def)
  from inbound_session_safe [OF toy_digest_format ex_node_inv this] ex_node_inv show ?thesis by blast
qed

theorem frame_cap_witness:
  "peer_connection_loop toy_crypto alone default_inbound_policy quiet_conn ex_node =
   peer_connection_loop toy_crypto alone (relimit default_inbound_policy 8192 8192 8192) quiet_conn ex_node"
  by (rule frame_cap_dominates) (simp_all add: default_inbound_policy_def)

theorem slot_pool_witness:
  "\<exists>p. slot_step\<^sup>*\<^sup>* (slot_pool_new 1 2) p \<and> threads p = [Holding, Idle] \<and> active p = permits p \<and> permits p \<le> 1"
proof -
  let ?p0 = "slot_pool_new 1 2" and ?p1 = "\<lparr>slot_max = 1, active = 0, threads = [Acquiring 0, Idle]\<rparr>"
    and ?p2 = "\<lparr>slot_max = 1, active = 1, threads = [Holding, Idle]\<rparr>"
  have "slot_step ?p0 ?p1" using acquire_load [of 0 ?p0] by (simp add: slot_pool_new_def numeral_2_eq_2)
  moreover have "slot_step ?p1 ?p2" using acquire_ok [of 0 ?p1 0] by simp
  ultimately have "slot_step\<^sup>*\<^sup>* ?p0 ?p2" by (simp add: converse_rtranclp_into_rtranclp)
  from slot_pool_bounded [OF this] this show ?thesis by (intro exI [of _ ?p2]) simp
qed

definition unreachable_peer :: sync_env where
  "unreachable_peer = \<lparr>sy_dial = (\<lambda>_ _. Inl (Io_Error TimedOut ''timed out'')), sy_clock = (\<lambda>_. 200), sy_disk = (\<lambda>_. good_disk)\<rparr>"

theorem sync_witness:
  "node_inv toy_crypto ex_node \<and>
   (\<exists>m r k. sync_from_peer_with_clock toy_crypto unreachable_peer ex_node ''p'' default_sync_budget = Some (m, r) \<and>
      node_inv toy_crypto m \<and> extended ex_node k m)"
  using sync_safe [OF toy_digest_format ex_node_inv, of unreachable_peer "''p''" default_sync_budget] ex_node_inv by blast

end
