(* ===== verification/Cli.thy ===== *)
theory Cli
  imports Node
begin

text \<open>
  \<open>main.rs\<close>, the command line: the arguments of \<open>init\<close>, \<open>run\<close> and \<open>send\<close>.  A path is the string
  given by the user.  \<open>usize\<close> has 64 bits, so that \<open>usize::try_from\<close> of a \<open>u64\<close> cannot fail.
\<close>

definition DEFAULT_INTERVAL_SECS :: u64 where "DEFAULT_INTERVAL_SECS = 2"
definition DEFAULT_MEMPOOL_CAPACITY :: nat where "DEFAULT_MEMPOOL_CAPACITY = 10000"
definition MAX_MEMPOOL_CAPACITY :: nat where "MAX_MEMPOOL_CAPACITY = 1000000"

section \<open>Numbers and lists in arguments\<close>

text \<open>\<open>str::parse\<close> to an unsigned type with values below \<open>limit\<close>: an optional plus sign and digits.\<close>

definition parse_uint :: "nat \<Rightarrow> string \<Rightarrow> nat option" where
  "parse_uint limit s =
    (let ds = (case s of c # cs \<Rightarrow> if c = CHR ''+'' then cs else s | [] \<Rightarrow> [])
     in if ds = [] \<or> \<not> list_all is_digit ds \<or> limit \<le> read_digits 0 ds then None else Some (read_digits 0 ds))"

definition parse_u64 :: "string \<Rightarrow> u64 option" where
  "parse_u64 s = map_option word_of_nat (parse_uint (2 ^ 64) s)"

definition parse_u32 :: "string \<Rightarrow> u32 option" where
  "parse_u32 s = map_option word_of_nat (parse_uint (2 ^ 32) s)"

definition parse_usize :: "string \<Rightarrow> nat option" where
  "parse_usize s = parse_uint (2 ^ 64) s"

definition parse_peers :: "string \<Rightarrow> string list" where
  "parse_peers v = filter (\<lambda>s. s \<noteq> []) (map trim (split_on CHR '','' v))"

section \<open>The arguments of \<open>run\<close>\<close>

record run_config =
  rc_data_dir :: string
  rc_genesis_flag :: "string option"
  rc_interval_secs :: u64
  rc_listen :: "string option"
  rc_peers :: "string list"
  rc_max_future_drift_secs :: "u64 option"
  rc_inbound_peer_policy :: inbound_peer_policy
  rc_mempool_capacity :: nat

definition run_defaults :: run_config where
  "run_defaults =
    \<lparr>rc_data_dir = ''.'', rc_genesis_flag = None, rc_interval_secs = DEFAULT_INTERVAL_SECS, rc_listen = None,
     rc_peers = [], rc_max_future_drift_secs = None, rc_inbound_peer_policy = default_inbound_policy,
     rc_mempool_capacity = DEFAULT_MEMPOOL_CAPACITY\<rparr>"

text \<open>The arms of the match on a flag, and the message of each for a missing argument.\<close>

datatype flag =
    Data_Dir | Genesis_Path | Interval_Secs | Listen | Peers | Max_Future_Drift_Secs | Max_Inbound_Peers
  | Peer_Idle_Timeout_Secs | Peer_Write_Timeout_Secs | Peer_Max_Wire_Errors | Peer_Max_Frames
  | Peer_Max_Stale_Blocks | Peer_Max_Inbound_Tx | Mempool_Capacity

fun flag_name :: "flag \<Rightarrow> string" where
  "flag_name Data_Dir = ''--data-dir''"
| "flag_name Genesis_Path = ''--genesis''"
| "flag_name Interval_Secs = ''--interval-secs''"
| "flag_name Listen = ''--listen''"
| "flag_name Peers = ''--peers''"
| "flag_name Max_Future_Drift_Secs = ''--max-future-drift-secs''"
| "flag_name Max_Inbound_Peers = ''--max-inbound-peers''"
| "flag_name Peer_Idle_Timeout_Secs = ''--peer-idle-timeout-secs''"
| "flag_name Peer_Write_Timeout_Secs = ''--peer-write-timeout-secs''"
| "flag_name Peer_Max_Wire_Errors = ''--peer-max-wire-errors''"
| "flag_name Peer_Max_Frames = ''--peer-max-frames''"
| "flag_name Peer_Max_Stale_Blocks = ''--peer-max-stale-blocks''"
| "flag_name Peer_Max_Inbound_Tx = ''--peer-max-inbound-tx''"
| "flag_name Mempool_Capacity = ''--mempool-capacity''"

definition all_flags :: "flag list" where
  "all_flags =
    [Data_Dir, Genesis_Path, Interval_Secs, Listen, Peers, Max_Future_Drift_Secs, Max_Inbound_Peers,
     Peer_Idle_Timeout_Secs, Peer_Write_Timeout_Secs, Peer_Max_Wire_Errors, Peer_Max_Frames,
     Peer_Max_Stale_Blocks, Peer_Max_Inbound_Tx, Mempool_Capacity]"

definition flag_of :: "string \<Rightarrow> flag option" where
  "flag_of s = find (\<lambda>f. flag_name f = s) all_flags"

definition needs_value :: "flag \<Rightarrow> string" where
  "needs_value f = flag_name f @
    (case f of
       Genesis_Path \<Rightarrow> '' needs a file path''
     | Listen \<Rightarrow> '' needs HOST:PORT''
     | Peers \<Rightarrow> '' needs comma-separated HOST:PORT list''
     | _ \<Rightarrow> '' needs a value'')"

text \<open>The three policy counters and the error budget take a \<open>u32\<close> of at least one.\<close>

definition positive_u32 :: "flag \<Rightarrow> string \<Rightarrow> string + u32" where
  "positive_u32 f v =
    and_then (ok_or (flag_name f @ '' must be a u32 >= 1'') (parse_u32 v)) (\<lambda>n.
    if n < 1 then Inl (flag_name f @ '' must be >= 1'') else Inr n)"

definition set_policy :: "(inbound_peer_policy \<Rightarrow> inbound_peer_policy) \<Rightarrow> run_config \<Rightarrow> run_config" where
  "set_policy u c = c\<lparr>rc_inbound_peer_policy := u (rc_inbound_peer_policy c)\<rparr>"

definition nonzero :: "u64 \<Rightarrow> u64 option" where
  "nonzero n = (if n = 0 then None else Some n)"

fun run_flag :: "run_config \<Rightarrow> flag \<Rightarrow> string \<Rightarrow> string + run_config" where
  "run_flag c Data_Dir v = Inr (c\<lparr>rc_data_dir := v\<rparr>)"
| "run_flag c Genesis_Path v = Inr (c\<lparr>rc_genesis_flag := Some v\<rparr>)"
| "run_flag c Interval_Secs v =
    and_then (ok_or ''interval-secs must be a positive integer'' (parse_u64 v)) (\<lambda>interval.
    if interval = 0 then Inl ''--interval-secs must be > 0'' else Inr (c\<lparr>rc_interval_secs := interval\<rparr>))"
| "run_flag c Listen v = Inr (c\<lparr>rc_listen := Some v\<rparr>)"
| "run_flag c Peers v = Inr (c\<lparr>rc_peers := parse_peers v\<rparr>)"
| "run_flag c Max_Future_Drift_Secs v =
    and_then (ok_or ''max-future-drift-secs must be a u64'' (parse_u64 v)) (\<lambda>d.
    Inr (c\<lparr>rc_max_future_drift_secs := Some d\<rparr>))"
| "run_flag c Max_Inbound_Peers v =
    and_then (ok_or ''--max-inbound-peers must be a non-negative integer'' (parse_u64 v)) (\<lambda>n.
    Inr (set_policy (max_concurrent_sessions_update (\<lambda>_. unat n)) c))"
| "run_flag c Peer_Idle_Timeout_Secs v =
    and_then (ok_or ''--peer-idle-timeout-secs must be a positive integer'' (parse_u64 v)) (\<lambda>n.
    if n = 0 then Inl ''--peer-idle-timeout-secs must be >= 1''
    else Inr (set_policy (idle_read_timeout_update (\<lambda>_. n)) c))"
| "run_flag c Peer_Write_Timeout_Secs v =
    and_then (ok_or ''--peer-write-timeout-secs must be a non-negative integer'' (parse_u64 v)) (\<lambda>n.
    Inr (set_policy (write_timeout_update (\<lambda>_. nonzero n)) c))"
| "run_flag c Peer_Max_Wire_Errors v =
    and_then (positive_u32 Peer_Max_Wire_Errors v) (\<lambda>n.
    Inr (set_policy (max_protocol_errors_per_session_update (\<lambda>_. n)) c))"
| "run_flag c Peer_Max_Frames v =
    and_then (positive_u32 Peer_Max_Frames v) (\<lambda>n.
    Inr (set_policy (max_app_frames_per_session_update (\<lambda>_. n)) c))"
| "run_flag c Peer_Max_Stale_Blocks v =
    and_then (positive_u32 Peer_Max_Stale_Blocks v) (\<lambda>n.
    Inr (set_policy (max_stale_decoded_blocks_per_session_update (\<lambda>_. n)) c))"
| "run_flag c Peer_Max_Inbound_Tx v =
    and_then (positive_u32 Peer_Max_Inbound_Tx v) (\<lambda>n.
    Inr (set_policy (max_inbound_tx_per_session_update (\<lambda>_. n)) c))"
| "run_flag c Mempool_Capacity v =
    and_then (ok_or ''--mempool-capacity must be a usize >= 1'' (parse_usize v)) (\<lambda>n.
    if n < 1 then Inl ''--mempool-capacity must be >= 1''
    else if n > MAX_MEMPOOL_CAPACITY
    then Inl (''--mempool-capacity must be <= '' @ show_nat MAX_MEMPOOL_CAPACITY @ '' (local RAM bound)'')
    else Inr (c\<lparr>rc_mempool_capacity := n\<rparr>))"

fun parse_run_from :: "run_config \<Rightarrow> string list \<Rightarrow> string + run_config" where
  "parse_run_from c [] = Inr c"
| "parse_run_from c (s # args) =
    (case flag_of s of
       None \<Rightarrow> Inl (''unknown flag: '' @ s)
     | Some f \<Rightarrow>
        (case args of
           [] \<Rightarrow> Inl (needs_value f)
         | v # args \<Rightarrow> and_then (run_flag c f v) (\<lambda>c. parse_run_from c args)))"

definition parse_run_args :: "string list \<Rightarrow> string + run_config" where
  "parse_run_args args = parse_run_from run_defaults args"

section \<open>The arguments of \<open>init\<close> and \<open>send\<close>\<close>

fun parse_init_from :: "string \<Rightarrow> u64 option \<Rightarrow> string list \<Rightarrow> string + (string \<times> u64 option)" where
  "parse_init_from dir gb [] = Inr (dir, gb)"
| "parse_init_from dir gb (flag # args) =
    (if flag = ''--data-dir'' then
       (case args of
          [] \<Rightarrow> Inl ''--data-dir needs a value''
        | v # args \<Rightarrow> parse_init_from v gb args)
     else if flag = ''--genesis-balance'' then
       (case args of
          [] \<Rightarrow> Inl ''--genesis-balance needs a u64''
        | v # args \<Rightarrow>
           (case parse_u64 v of
              None \<Rightarrow> Inl ''--genesis-balance must be a u64''
            | Some n \<Rightarrow> if n = 0 then Inl ''--genesis-balance must be > 0'' else parse_init_from dir (Some n) args))
     else Inl (''unknown flag: '' @ flag))"

definition parse_init_args :: "string list \<Rightarrow> string + (string \<times> u64 option)" where
  "parse_init_args args = parse_init_from ''.'' None args"

fun parse_send_from ::
  "string \<Rightarrow> string option \<Rightarrow> string list \<Rightarrow> string list \<Rightarrow> string + (string \<times> string option \<times> string list)" where
  "parse_send_from dir gen rest [] = Inr (dir, gen, rest)"
| "parse_send_from dir gen rest (flag # args) =
    (if flag = ''--data-dir'' then
       (case args of
          [] \<Rightarrow> Inl ''--data-dir needs a value''
        | v # args \<Rightarrow> parse_send_from v gen rest args)
     else if flag = ''--genesis'' then
       (case args of
          [] \<Rightarrow> Inl ''--genesis needs a file path''
        | v # args \<Rightarrow> parse_send_from dir (Some v) rest args)
     else parse_send_from dir gen (rest @ [flag]) args)"

definition parse_send_args :: "string list \<Rightarrow> string + (string \<times> string option \<times> string list)" where
  "parse_send_args args = parse_send_from ''.'' None [] args"

text \<open>\<open>run_cli\<close>: which command runs, and with what.  \<open>args\<close> starts with the program's name.\<close>

datatype command =
    Cmd_Init string "u64 option"
  | Cmd_Run run_config
  | Cmd_Send string "string option" string u64 u64

definition run_cli :: "string list \<Rightarrow> string + command" where
  "run_cli args =
    (if length args < 2 then Inl ''missing command''
     else if args ! 1 = ''init'' then
       and_then (parse_init_args (drop 2 args)) (\<lambda>(dir, genesis_bal). Inr (Cmd_Init dir genesis_bal))
     else if args ! 1 = ''run'' then
       and_then (parse_run_args (drop 2 args)) (\<lambda>config. Inr (Cmd_Run config))
     else if args ! 1 = ''send'' then
       and_then (parse_send_args (drop 2 args)) (\<lambda>(dir, gen, rest).
       if length rest < 2 then Inl ''send: need RECEIVER AMOUNT [FEE]''
       else
         and_then (ok_or ''amount must be a u64'' (parse_u64 (rest ! 1))) (\<lambda>amount.
         and_then (if length rest > 2 then ok_or ''fee must be a u64'' (parse_u64 (rest ! 2)) else Inr 1) (\<lambda>fee.
         Inr (Cmd_Send dir gen (rest ! 0) amount fee))))
     else Inl ''unknown command'')"

section \<open>What an accepted command line means\<close>

lemma parse_uint_show: "n < limit \<Longrightarrow> parse_uint limit (show_nat n) = Some n"
proof -
  assume n: "n < limit"
  obtain c cs where s: "show_nat n = c # cs" by (cases "show_nat n") auto
  then have "is_digit c" using show_nat_digits [of n] by simp
  then have "c \<noteq> CHR ''+''" by (auto simp: is_digit_def)
  with n s show_nat_digits [of n] read_show_nat [of n] show ?thesis
    by (simp add: parse_uint_def list_all_iff Let_def)
qed

lemma parse_uint_bound: "parse_uint limit s = Some n \<Longrightarrow> n < limit"
  by (auto simp: parse_uint_def Let_def split: if_splits list.splits)

lemma split_on_parts: "w \<in> set (split_on c s) \<Longrightarrow> c \<notin> set w"
proof (induction s arbitrary: w)
  case (Cons x s)
  then show ?case by (cases "split_on c s") (auto split: if_splits)
qed simp

text \<open>Trimming twice trims once.\<close>

lemma find_None_prefix: "find (\<lambda>w. prefix w ys) ws = None \<Longrightarrow> prefix xs ys \<Longrightarrow> find (\<lambda>w. prefix w xs) ws = None"
  by (auto simp: find_None_iff intro: prefix_order.trans)

lemma trim_start_done: "find (\<lambda>w. prefix w (trim_start bs)) ws_chars = None"
proof (induction bs rule: trim_start.induct)
  case (1 bs)
  then show ?case by (subst trim_start.simps) (auto split: option.split)
qed

lemma trim_end_done: "find (\<lambda>w. suffix w (trim_end bs)) ws_chars = None"
proof (induction bs rule: trim_end.induct)
  case (1 bs)
  then show ?case by (subst trim_end.simps) (auto split: option.split)
qed

lemma trim_end_prefix: "prefix (trim_end bs) bs"
proof (induction bs rule: trim_end.induct)
  case (1 bs)
  then show ?case
    by (subst trim_end.simps) (auto split: option.split intro: prefix_order.trans take_is_prefix)
qed

lemma trim_start_suffix: "suffix (trim_start bs) bs"
proof (induction bs rule: trim_start.induct)
  case (1 bs)
  then show ?case
    by (subst trim_start.simps) (auto split: option.split intro: suffix_order.trans suffix_drop)
qed

lemma trim_trim [simp]: "trim (trim s) = trim s"
proof -
  let ?t = "trim_end (trim_start (as_bytes s))"
  have "find (\<lambda>w. prefix w ?t) ws_chars = None"
    by (rule find_None_prefix [OF trim_start_done trim_end_prefix])
  then have "trim_start ?t = ?t" by (subst trim_start.simps) simp
  moreover have "trim_end ?t = ?t" using trim_end_done by (subst trim_end.simps) simp
  ultimately show ?thesis by (simp add: trim_def)
qed

lemma set_trim: "set (trim s) \<subseteq> set s"
proof -
  have "set (trim_end (trim_start (as_bytes s))) \<subseteq> set (as_bytes s)"
    using set_mono_prefix [OF trim_end_prefix] set_mono_suffix [OF trim_start_suffix] by blast
  then have "set (trim s) \<subseteq> set (string_of_bytes (as_bytes s))"
    unfolding trim_def string_of_bytes_def by auto
  then show ?thesis by simp
qed

text \<open>What \<open>run\<close> promises about its configuration.\<close>

definition policy_ok :: "inbound_peer_policy \<Rightarrow> bool" where
  "policy_ok pol \<longleftrightarrow> max_concurrent_sessions pol < 2 ^ 64 \<and> idle_read_timeout pol \<noteq> 0 \<and> write_timeout pol \<noteq> Some 0 \<and>
     max_protocol_errors_per_session pol \<noteq> 0 \<and> max_app_frames_per_session pol \<noteq> 0 \<and>
     max_stale_decoded_blocks_per_session pol \<noteq> 0 \<and> max_inbound_tx_per_session pol \<noteq> 0 \<and>
     max_invalid_network_blocks_per_session pol = 24"

definition peer_name_ok :: "string \<Rightarrow> bool" where
  "peer_name_ok p \<longleftrightarrow> p \<noteq> [] \<and> trim p = p \<and> CHR '','' \<notin> set p"

definition run_config_ok :: "run_config \<Rightarrow> bool" where
  "run_config_ok c \<longleftrightarrow> rc_interval_secs c \<noteq> 0 \<and> 1 \<le> rc_mempool_capacity c \<and> rc_mempool_capacity c \<le> MAX_MEMPOOL_CAPACITY \<and>
     list_all peer_name_ok (rc_peers c) \<and> policy_ok (rc_inbound_peer_policy c)"

lemma run_defaults_ok: "run_config_ok run_defaults"
  by (simp add: run_config_ok_def policy_ok_def run_defaults_def default_inbound_policy_def DEFAULT_INTERVAL_SECS_def
      DEFAULT_MEMPOOL_CAPACITY_def MAX_MEMPOOL_CAPACITY_def)

lemma positive_u32_ok: "positive_u32 f v = Inr n \<Longrightarrow> n \<noteq> 0"
  by (auto simp: positive_u32_def and_then_Inr_iff split: if_splits)

lemma parse_peers_ok: "list_all peer_name_ok (parse_peers v)"
  using split_on_parts set_trim by (fastforce simp: parse_peers_def peer_name_ok_def list_all_iff)

lemma u64_less: "unat (n :: u64) < 18446744073709551616"
  using unat_bound [of n] by simp

lemma set_policy_ok:
  "run_config_ok c \<Longrightarrow> policy_ok (u (rc_inbound_peer_policy c)) \<Longrightarrow> run_config_ok (set_policy u c)"
  by (simp add: run_config_ok_def set_policy_def)

lemma policy_updates:
  assumes "policy_ok pol"
  shows "policy_ok (pol\<lparr>max_concurrent_sessions := unat (n :: u64)\<rparr>)"
    "n \<noteq> 0 \<Longrightarrow> policy_ok (pol\<lparr>idle_read_timeout := n\<rparr>)"
    "policy_ok (pol\<lparr>write_timeout := nonzero n\<rparr>)"
    "k \<noteq> 0 \<Longrightarrow> policy_ok (pol\<lparr>max_protocol_errors_per_session := k\<rparr>)"
    "k \<noteq> 0 \<Longrightarrow> policy_ok (pol\<lparr>max_app_frames_per_session := k\<rparr>)"
    "k \<noteq> 0 \<Longrightarrow> policy_ok (pol\<lparr>max_stale_decoded_blocks_per_session := k\<rparr>)"
    "k \<noteq> 0 \<Longrightarrow> policy_ok (pol\<lparr>max_inbound_tx_per_session := k\<rparr>)"
  using assms u64_less by (simp_all add: policy_ok_def nonzero_def)

lemma run_flag_ok:
  assumes "run_config_ok c" "run_flag c f v = Inr c'"
  shows "run_config_ok c'"
proof -
  have pol: "policy_ok (rc_inbound_peer_policy c)" using assms(1) by (simp add: run_config_ok_def)
  note ok = set_policy_ok [OF assms(1)] policy_updates [OF pol] positive_u32_ok
  show ?thesis
  proof (cases "f \<in> {Data_Dir, Genesis_Path, Interval_Secs, Listen, Peers, Max_Future_Drift_Secs, Mempool_Capacity}")
    case True
    with assms parse_peers_ok [of v] show ?thesis
      by (cases f) (auto simp: run_config_ok_def and_then_Inr_iff split: if_splits)
  next
    case False
    with assms(2) show ?thesis by (cases f) (auto simp: and_then_Inr_iff intro!: ok split: if_splits)
  qed
qed

lemma parse_run_from_ok: "run_config_ok c \<Longrightarrow> parse_run_from c args = Inr c' \<Longrightarrow> run_config_ok c'"
  by (induction c args rule: parse_run_from.induct)
    (auto simp: and_then_Inr_iff dest: run_flag_ok split: option.splits list.splits)

text \<open>A command line for a given configuration.\<close>

definition flag_opt :: "flag \<Rightarrow> string option \<Rightarrow> string list" where
  "flag_opt f v = (case v of None \<Rightarrow> [] | Some v \<Rightarrow> [flag_name f, v])"

abbreviation flag_arg :: "flag \<Rightarrow> string \<Rightarrow> string list" where
  "flag_arg f v \<equiv> flag_opt f (Some v)"

definition render_run_args :: "run_config \<Rightarrow> string list" where
  "render_run_args c = (let pol = rc_inbound_peer_policy c in
     flag_arg Data_Dir (rc_data_dir c) @ flag_opt Genesis_Path (rc_genesis_flag c) @
     flag_arg Interval_Secs (show_word (rc_interval_secs c)) @ flag_opt Listen (rc_listen c) @
     flag_arg Peers (join '','' (rc_peers c)) @
     flag_opt Max_Future_Drift_Secs (map_option show_word (rc_max_future_drift_secs c)) @
     flag_arg Max_Inbound_Peers (show_nat (max_concurrent_sessions pol)) @
     flag_arg Peer_Idle_Timeout_Secs (show_word (idle_read_timeout pol)) @
     flag_arg Peer_Write_Timeout_Secs (show_word (case write_timeout pol of None \<Rightarrow> 0 | Some n \<Rightarrow> n)) @
     flag_arg Peer_Max_Wire_Errors (show_word (max_protocol_errors_per_session pol)) @
     flag_arg Peer_Max_Frames (show_word (max_app_frames_per_session pol)) @
     flag_arg Peer_Max_Stale_Blocks (show_word (max_stale_decoded_blocks_per_session pol)) @
     flag_arg Peer_Max_Inbound_Tx (show_word (max_inbound_tx_per_session pol)) @
     flag_arg Mempool_Capacity (show_nat (rc_mempool_capacity c)))"

lemma flag_of_name [simp]: "flag_of (flag_name f) = Some f"
  by (cases f) (simp_all add: flag_of_def all_flags_def)

lemma parse_flag_opt:
  "parse_run_from c (flag_opt f v @ args) =
    (case v of None \<Rightarrow> parse_run_from c args | Some v \<Rightarrow> and_then (run_flag c f v) (\<lambda>c. parse_run_from c args))"
  by (simp add: flag_opt_def split: option.split)

lemma parse_flag_last: "parse_run_from c (flag_arg f v) = run_flag c f v"
  by (cases "run_flag c f v") (simp_all add: flag_opt_def)

lemma parse_shown [simp]:
  "parse_u64 (show_word w) = Some w" "parse_u32 (show_word v) = Some v"
  "n < 2 ^ 64 \<Longrightarrow> parse_u64 (show_nat n) = Some (word_of_nat n)" "n < 2 ^ 64 \<Longrightarrow> parse_usize (show_nat n) = Some n"
  using parse_uint_show [of "unat w" "2 ^ 64"] parse_uint_show [of "unat v" "2 ^ 32"] unat_bound [of w] unat_bound [of v]
  by (simp_all add: parse_u64_def parse_u32_def parse_usize_def show_word_def parse_uint_show)

lemma parse_peers_join:
  assumes "list_all peer_name_ok ps"
  shows "parse_peers (join '','' ps) = ps"
proof (cases "ps = []")
  case False
  then have "split_on CHR '','' (join '','' ps) = ps" using assms by (intro split_join) (auto simp: list_all_iff peer_name_ok_def)
  moreover have "map trim ps = ps" "filter (\<lambda>s. s \<noteq> []) ps = ps" using assms by (auto simp: list_all_iff peer_name_ok_def intro: map_idI)
  ultimately show ?thesis by (simp add: parse_peers_def)
qed (simp add: parse_peers_def)

lemma positive_u32_shown: "n \<noteq> 0 \<Longrightarrow> positive_u32 f (show_word n) = Inr n"
  by (simp add: positive_u32_def)

lemma parse_run_render:
  assumes "run_config_ok c"
  shows "parse_run_args (render_run_args c) = Inr c"
proof -
  obtain dir gen interval listen ps drift pol cap where c: "c = \<lparr>rc_data_dir = dir, rc_genesis_flag = gen, rc_interval_secs = interval,
    rc_listen = listen, rc_peers = ps, rc_max_future_drift_secs = drift, rc_inbound_peer_policy = pol, rc_mempool_capacity = cap\<rparr>"
    by (cases c) blast
  obtain m i w e a n s t where pol: "pol = \<lparr>max_concurrent_sessions = m, idle_read_timeout = i, write_timeout = w,
    max_protocol_errors_per_session = e, max_app_frames_per_session = a, max_invalid_network_blocks_per_session = n,
    max_stale_decoded_blocks_per_session = s, max_inbound_tx_per_session = t\<rparr>" by (cases pol) blast
  have ok: "interval \<noteq> 0" "i \<noteq> 0" "w \<noteq> Some 0" "e \<noteq> 0" "a \<noteq> 0" "n = 24" "s \<noteq> 0" "t \<noteq> 0" "m < 2 ^ 64" "1 \<le> cap" "cap \<le> MAX_MEMPOOL_CAPACITY"
    "list_all peer_name_ok ps"
    using assms by (auto simp: run_config_ok_def policy_ok_def c pol)
  then have cap: "cap < 2 ^ 64" by (simp add: MAX_MEMPOOL_CAPACITY_def)
  have w: "nonzero (case w of None \<Rightarrow> 0 | Some n \<Rightarrow> n) = w"
    using ok(3) by (cases w) (auto simp: nonzero_def)
  have m: "unat (word_of_nat m :: u64) = m" using ok(9) by (simp add: unat_of_nat)
  show ?thesis
    using ok cap w m
    by (cases gen; cases listen; cases drift) (simp_all add: parse_run_args_def render_run_args_def c pol parse_flag_opt parse_flag_last positive_u32_shown parse_peers_join
        run_defaults_def default_inbound_policy_def set_policy_def)
qed

text \<open>
  C26. The configurations that \<open>run\<close> accepts: command lines produce exactly the configurations with a
  positive interval, positive idle time-out and session limits, no zero write time-out, between one
  and a million pool slots, and trimmed, non-blank peers without commas; a zero, a missing argument,
  an unknown flag or a number out of range never gets through, and every such configuration can be
  asked for.
\<close>

theorem run_configs_exact: "(\<exists>args. parse_run_args args = Inr c) \<longleftrightarrow> run_config_ok c"
  using parse_run_from_ok [OF run_defaults_ok] parse_run_render by (auto simp: parse_run_args_def)

end
