(* ===== verification/Commands.thy ===== *)
theory Commands
  imports Cli Wallet Storage Data_Dir_Bind Sizes
begin

text \<open>
  \<open>main.rs\<close>, the commands that run to completion: \<open>init\<close> and \<open>send\<close>, and the loading of wallet and
  genesis they share with \<open>run\<close>.  A data directory is the record of its files, each \<open>None\<close> if it does
  not exist; \<open>dd_other\<close> are text files elsewhere, which \<open>--genesis\<close> may name.  The \<open>toml\<close> package is the
  record \<open>toml_lib\<close>, the operating system the record \<open>cmd_env\<close>.  Explanatory tails of operator messages
  are left out.
\<close>

definition WALLET_FILE :: string where "WALLET_FILE = ''wallet.seed''"
definition GENESIS_FILE :: string where "GENESIS_FILE = ''genesis.toml''"

record data_dir =
  dd_wallet :: "bytes option"
  dd_genesis :: "string option"
  dd_bind :: "string option"
  dd_chain :: "bytes option"
  dd_pending :: "bytes option"
  dd_peers :: "string option"
  dd_other :: "string \<Rightarrow> string option"

record toml_lib =
  genesis_rd :: "string \<Rightarrow> string + genesis"
  genesis_wr :: "genesis \<Rightarrow> string + string"
  bind_rd :: "string \<Rightarrow> string + bind_file"
  bind_wr :: "bind_file \<Rightarrow> string + string"
  book_rd :: "string \<Rightarrow> string + peer_book_file"
  book_wr :: "peer_book_file \<Rightarrow> string + string"

text \<open>For each call its failure, if any.\<close>

record cmd_env =
  ce_mkdir :: "string option"
  ce_read_wallet :: "string option"
  ce_write_wallet :: write_outcome
  ce_read_genesis :: "string option"
  ce_write_genesis :: write_outcome
  ce_rewrite_chain :: "nat option"
  ce_bind :: bind_io
  ce_queue :: queue_io
  ce_rng :: bytes
  ce_now :: u64

section \<open>Loading\<close>

definition resolve_genesis_path :: "data_dir \<Rightarrow> string option \<Rightarrow> string option" where
  "resolve_genesis_path d genesis_flag = (case genesis_flag of Some p \<Rightarrow> dd_other d p | None \<Rightarrow> dd_genesis d)"

definition genesis_path_name :: "string option \<Rightarrow> string" where
  "genesis_path_name genesis_flag = (case genesis_flag of Some p \<Rightarrow> p | None \<Rightarrow> GENESIS_FILE)"

definition load_genesis_for_cmd :: "toml_lib \<Rightarrow> cmd_env \<Rightarrow> data_dir \<Rightarrow> string option \<Rightarrow> string + genesis" where
  "load_genesis_for_cmd T env d genesis_flag =
    (case resolve_genesis_path d genesis_flag of
       None \<Rightarrow> Inl (''genesis file not found: '' @ genesis_path_name genesis_flag)
     | Some raw \<Rightarrow>
         map_err (\<lambda>e. genesis_path_name genesis_flag @ '': '' @ e)
           (from_path (genesis_rd T) (case ce_read_genesis env of Some e \<Rightarrow> Inl e | None \<Rightarrow> Inr raw)))"

definition load_wallet :: "cmd_env \<Rightarrow> data_dir \<Rightarrow> string + wallet" where
  "load_wallet env d =
    (case dd_wallet d of
       None \<Rightarrow> Inl (WALLET_FILE @ '': no wallet here'')
     | Some raw \<Rightarrow>
        (case ce_read_wallet env of
           Some e \<Rightarrow> Inl e
         | None \<Rightarrow>
            if length raw \<noteq> 32
            then Inl (''expected 32-byte '' @ WALLET_FILE @ '', got '' @ show_nat (length raw) @ '' bytes'')
            else Inr (from_seed raw)))"

section \<open>The commands\<close>

definition init_genesis :: "crypto \<Rightarrow> wallet \<Rightarrow> u64 \<Rightarrow> genesis" where
  "init_genesis K w initial = \<lparr>allocations = [\<lparr>alloc_address = str (wallet_address K w), alloc_balance = initial\<rparr>]\<rparr>"

definition cmd_init :: "crypto \<Rightarrow> toml_lib \<Rightarrow> cmd_env \<Rightarrow> data_dir \<Rightarrow> u64 option \<Rightarrow> data_dir \<times> (string + unit)" where
  "cmd_init K T env d genesis_balance =
    (case ce_mkdir env of
       Some e \<Rightarrow> (d, Inl e)
     | None \<Rightarrow>
    (if dd_wallet d \<noteq> None then (d, Inl (WALLET_FILE @ '' already exists''))
     else let w = generate_with_rng (ce_rng env) in
    (case fs_write (ce_write_wallet env) (seed_bytes w) (dd_wallet d) of
       (f, Inl e) \<Rightarrow> (d\<lparr>dd_wallet := f\<rparr>, Inl e)
     | (f, Inr _) \<Rightarrow>
        let d = d\<lparr>dd_wallet := f\<rparr> in
        (case genesis_balance of
           None \<Rightarrow> (d, Inr ())
         | Some initial \<Rightarrow>
            (if dd_genesis d \<noteq> None then (d, Inl (GENESIS_FILE @ '' already exists''))
             else let g = init_genesis K w initial in
             (case write_to_path (genesis_wr T) K (ce_write_genesis env) (dd_genesis d) g of
                (f, Inl e) \<Rightarrow> (d\<lparr>dd_genesis := f\<rparr>, Inl e)
              | (f, Inr _) \<Rightarrow>
                  (d\<lparr>dd_genesis := f\<rparr>, and_then (map_err display_error (state_commitment_hex K g)) (\<lambda>hex. Inr ()))))))))"

text \<open>The steps that \<open>send\<close> and \<open>run\<close> begin with: wallet, genesis, binding and chain.\<close>

definition display_storage_error :: "storage_error \<Rightarrow> string" where
  "display_storage_error e =
    (case e of
       Io s \<Rightarrow> ''storage I/O: '' @ s
     | Decode s \<Rightarrow> ''storage decode: '' @ s
     | Replay p \<Rightarrow> ''chain replay: '' @ display_error p
     | Genesis s \<Rightarrow> ''genesis: '' @ s)"

definition open_data_dir ::
  "crypto \<Rightarrow> toml_lib \<Rightarrow> cmd_env \<Rightarrow> data_dir \<Rightarrow> string option \<Rightarrow> data_dir \<times> (string + (wallet \<times> genesis \<times> blockchain))" where
  "open_data_dir K T env d genesis_flag =
    (case load_wallet env d of
       Inl e \<Rightarrow> (d, Inl e)
     | Inr wallet \<Rightarrow>
    (case load_genesis_for_cmd T env d genesis_flag of
       Inl e \<Rightarrow> (d, Inl e)
     | Inr g \<Rightarrow>
    (case verify_binding_if_present (bind_rd T) K (bi_read (ce_bind env)) (dd_bind d) g of
       Inl e \<Rightarrow> (d, Inl e)
     | Inr _ \<Rightarrow>
    (case load_blockchain_from_disk K (ce_rewrite_chain env) (dd_chain d) g of
       (f, Inl e) \<Rightarrow> (d\<lparr>dd_chain := f\<rparr>, Inl (PFX_STARTUP @ '' fail-closed: could not load chain '' @ display_storage_error e))
     | (f, Inr (chain, repaired)) \<Rightarrow>
        let d = d\<lparr>dd_chain := f\<rparr> in
        (case ensure_binding_if_missing (bind_rd T) (bind_wr T) K (ce_bind env) (dd_bind d) g of
           (b, Inl e) \<Rightarrow> (d\<lparr>dd_bind := b\<rparr>, Inl e)
         | (b, Inr _) \<Rightarrow> (d\<lparr>dd_bind := b\<rparr>, Inr (wallet, g, chain)))))))"

definition cmd_send ::
  "crypto \<Rightarrow> toml_lib \<Rightarrow> cmd_env \<Rightarrow> data_dir \<Rightarrow> string option \<Rightarrow> string \<Rightarrow> u64 \<Rightarrow> u64 \<Rightarrow> (data_dir \<times> (string + unit)) option" where
  "cmd_send K T env d genesis_flag recv amt fe =
    (case ce_mkdir env of
       Some e \<Rightarrow> Some (d, Inl e)
     | None \<Rightarrow>
    (case open_data_dir K T env d genesis_flag of
       (d, Inl e) \<Rightarrow> Some (d, Inl e)
     | (d, Inr (wallet, g, chain)) \<Rightarrow>
    (case get_account (bc_state chain) (wallet_address K wallet) of
       None \<Rightarrow> Some (d, Inl ''wallet address has no genesis allocation'')
     | Some acc \<Rightarrow>
    (case sign_transfer K wallet (Address recv) amt fe (acc_nonce acc) (ce_now env) of
       Inl e \<Rightarrow> Some (d, Inl (display_error e))
     | Inr tx \<Rightarrow>
        map_option (\<lambda>(f, r). (d\<lparr>dd_pending := f\<rparr>, r)) (append_pending_transaction (ce_queue env) (dd_pending d) tx)))))"

section \<open>What opening a data directory guarantees\<close>

lemma load_wallet_ok: "load_wallet env d = Inr w \<longleftrightarrow> ce_read_wallet env = None \<and> dd_wallet d = Some (seed_bytes w) \<and> length (seed_bytes w) = 32"
  by (cases w) (auto simp: load_wallet_def from_seed_def seed_bytes_def split: option.split)

lemma open_data_dir_ok:
  assumes "digest_format K" "bind_round_trip (bind_rd T) (bind_wr T)" "open_data_dir K T env d gf = (d', Inr (w, g, chain))"
  shows "load_wallet env d = Inr w \<and> load_genesis_for_cmd T env d gf = Inr g \<and>
    (\<exists>rep. load_blockchain_from_disk K (ce_rewrite_chain env) (dd_chain d) g = (dd_chain d', Inr (chain, rep))) \<and>
    (\<exists>c. state_commitment_hex K g = Inr c \<and> bound_to (bind_rd T) (dd_bind d') c) \<and>
    d' = d\<lparr>dd_chain := dd_chain d', dd_bind := dd_bind d'\<rparr>"
  using assms(3) ensure_ok [OF assms(2)]
  by (fastforce simp: open_data_dir_def Let_def split: sum.splits prod.splits)

lemma open_data_dir_frame:
  assumes "open_data_dir K T env d gf = (d', r)"
  shows "d' = d\<lparr>dd_chain := dd_chain d', dd_bind := dd_bind d'\<rparr>"
  using assms by (auto simp: open_data_dir_def Let_def split: sum.splits prod.splits)

text \<open>A queue file that can be read; a missing one is an empty queue.\<close>

definition queue_reads :: "bytes option \<Rightarrow> transaction list \<Rightarrow> bool" where
  "queue_reads f txs \<longleftrightarrow> parse_pending_file_bytes (case f of None \<Rightarrow> [] | Some data \<Rightarrow> data) = Inr txs"

lemma append_pending_outcome:
  assumes "queue_reads f txs" "queueable tx"
  shows "\<exists>f' r. append_pending_transaction io f tx = Some (f', r) \<and>
    (case r of Inr _ \<Rightarrow> queue_reads f' (txs @ [tx]) | Inl _ \<Rightarrow> q_write io = None \<longrightarrow> f' = f)"
proof -
  let ?data = "case f of None \<Rightarrow> [] | Some data \<Rightarrow> data"
  have enc: "encode_transaction tx = Some (tx_image tx)" "length (tx_image tx) < 2 ^ 32"
    using assms(2) by (auto simp: encode_transaction_ok queueable_def MAX_PENDING_TX_FRAME_def)
  have "parse_pending_file_bytes (?data @ framed (tx_image tx)) = Inr (txs @ [tx])"
    using assms by (simp add: queue_reads_def parse_queue)
  with enc show ?thesis
    by (cases "q_lock io"; cases "q_open io"; cases "q_write io")
      (simp_all add: append_pending_transaction_def u32_try_from_def framed_def queue_reads_def Let_def)
qed

text \<open>
  C20. What \<open>send\<close> does: it always returns; on success it has put exactly one transaction behind the
  queued ones, signed by the wallet of the directory and accepted by \<open>basic_validate\<close>, with the
  requested receiver, amount and fee and with the nonce that the sender has on the chain as it is on
  disk, and the directory is bound to the genesis; if it fails and no write was cut short the queue
  is untouched; wallet, genesis and peer book are never touched.
\<close>

theorem send_queues_one:
  assumes "digest_format K" "signing_correct K" "bind_round_trip (bind_rd T) (bind_wr T)"
    and "rust_string recv" "queue_reads (dd_pending d) txs"
  shows "\<exists>d' r. cmd_send K T env d gf recv amt fe = Some (d', r) \<and>
    dd_wallet d' = dd_wallet d \<and> dd_genesis d' = dd_genesis d \<and> dd_peers d' = dd_peers d \<and>
    (case r of
       Inl _ \<Rightarrow> q_write (ce_queue env) = None \<longrightarrow> dd_pending d' = dd_pending d
     | Inr _ \<Rightarrow> \<exists>tx w g chain rep acc c. queue_reads (dd_pending d') (txs @ [tx]) \<and> tx_basic_validate K tx = Inr () \<and>
         dd_wallet d = Some (seed_bytes w) \<and> sender tx = wallet_address K w \<and>
         receiver tx = Address recv \<and> amount tx = amt \<and> fee tx = fe \<and>
         load_blockchain_from_disk K (ce_rewrite_chain env) (dd_chain d) g = (dd_chain d', Inr (chain, rep)) \<and>
         get_account (bc_state chain) (sender tx) = Some acc \<and> nonce tx = acc_nonce acc \<and>
         state_commitment_hex K g = Inr c \<and> bound_to (bind_rd T) (dd_bind d') c)"
proof (cases "ce_mkdir env")
  case mkdir: None
  obtain d1 r1 where op: "open_data_dir K T env d gf = (d1, r1)" by fastforce
  note fr = open_data_dir_frame [OF op]
  have keep: "dd_wallet d1 = dd_wallet d" "dd_genesis d1 = dd_genesis d" "dd_peers d1 = dd_peers d" "dd_pending d1 = dd_pending d"
    by (subst fr; simp)+
  show ?thesis
  proof (cases r1)
    case (Inr x)
    obtain w g chain where x: "x = (w, g, chain)" by (rule prod_cases3)
    note ok = open_data_dir_ok [OF assms(1,3) op [unfolded Inr x]]
    show ?thesis
    proof (cases "get_account (bc_state chain) (wallet_address K w)")
      case (Some acc)
      show ?thesis
      proof (cases "sign_transfer K w (Address recv) amt fe (acc_nonce acc) (ce_now env)")
        case tx: (Inr tx)
        have w: "length (signing_key w) = 32" "dd_wallet d = Some (seed_bytes w)"
          using ok by (auto simp: load_wallet_ok seed_bytes_def)
        note valid = sign_transfer_valid [OF assms(1,2) w(1) tx] and fields = sign_transfer_fields [OF tx]
        have "queueable tx" using valid_tx_queueable [OF assms(1) valid] fields assms(4) by simp
        from append_pending_outcome [OF assms(5) this, of "ce_queue env"] obtain f' r where
          ap: "append_pending_transaction (ce_queue env) (dd_pending d) tx = Some (f', r)"
            "case r of Inr _ \<Rightarrow> queue_reads f' (txs @ [tx]) | Inl _ \<Rightarrow> q_write (ce_queue env) = None \<longrightarrow> f' = dd_pending d" by blast
        have "cmd_send K T env d gf recv amt fe = Some (d1\<lparr>dd_pending := f'\<rparr>, r)"
          using mkdir op Inr x Some tx ap(1) keep by (simp add: cmd_send_def)
        with keep ap(2) w valid fields ok Some show ?thesis
          by (cases r) (auto intro!: exI [of _ tx] exI [of _ w] exI [of _ g] exI [of _ chain])
      qed (use mkdir op Inr x Some keep in \<open>simp add: cmd_send_def\<close>)
    qed (use mkdir op Inr x keep in \<open>simp add: cmd_send_def\<close>)
  qed (use mkdir op keep in \<open>simp add: cmd_send_def\<close>)
qed (simp add: cmd_send_def)

section \<open>A fresh directory\<close>

text \<open>What the commands rely on of the \<open>toml\<close> package: it reads back what it wrote, behind comment lines.\<close>

definition genesis_round_trip :: "toml_lib \<Rightarrow> bool" where
  "genesis_round_trip T \<longleftrightarrow> (\<forall>g body hex. genesis_wr T g = Inr body \<longrightarrow> genesis_rd T (genesis_comment hex @ body) = Inr g)"

text \<open>No call to the operating system fails.\<close>

definition calm :: "cmd_env \<Rightarrow> bool" where
  "calm env \<longleftrightarrow> ce_mkdir env = None \<and> ce_read_wallet env = None \<and> ce_read_genesis env = None \<and>
     ce_bind env = \<lparr>bi_mkdir = None, bi_lock = None, bi_read = None, bi_create = Created, bi_write = None, bi_link = Linked,
       bi_rename = None, bi_intruder = None\<rparr> \<and>
     q_lock (ce_queue env) = None \<and> q_open (ce_queue env) = None \<and> q_write (ce_queue env) = None"

lemma cmd_init_ok:
  assumes "genesis_round_trip T" "cmd_init K T env d (Some initial) = (d', Inr ())"
  shows "\<exists>raw w. w = generate_with_rng (ce_rng env) \<and> dd_wallet d = None \<and> dd_genesis d = None \<and>
    d' = d\<lparr>dd_wallet := Some (seed_bytes w), dd_genesis := Some raw\<rparr> \<and>
    from_toml_str (genesis_rd T) raw = Inr (init_genesis K w initial)"
proof -
  let ?w = "generate_with_rng (ce_rng env)"
  let ?g = "init_genesis K ?w initial"
  from assms(2) obtain raw where wr: "write_to_path (genesis_wr T) K (ce_write_genesis env) None ?g = (Some raw, Inr ())"
    and d: "dd_wallet d = None" "dd_genesis d = None" "d' = d\<lparr>dd_wallet := Some (seed_bytes ?w), dd_genesis := Some raw\<rparr>"
    by (auto simp: cmd_init_def Let_def fs_write_ok write_to_path_def split: option.splits if_splits prod.splits sum.splits)
  from wr obtain body hex where "validate_decl ?g = Inr ()" "genesis_wr T ?g = Inr body" "raw = genesis_comment hex @ body"
    by (auto simp: write_to_path_def fs_write_ok and_then_Inr_iff split: sum.splits)
  with assms(1) have "from_toml_str (genesis_rd T) raw = Inr ?g"
    by (simp add: from_toml_str_def genesis_round_trip_def)
  with d show ?thesis by blast
qed

lemma init_genesis_chain:
  assumes "digest_format K" "validate_decl (init_genesis K w initial) = Inr ()"
  shows "\<exists>bc. blockchain_from_genesis (init_genesis K w initial) = Inr bc \<and>
    get_account (bc_state bc) (wallet_address K w) = Some (account_new (wallet_address K w) initial) \<and>
    (\<forall>a. a \<noteq> wallet_address K w \<longrightarrow> bal (bc_state bc) a = 0)"
proof -
  let ?g = "init_genesis K w initial"
  have "genesis_valid ?g"
    using assms(2) by (simp add: validate_decl_ok genesis_valid_def alloc_pairs_def init_genesis_def)
  then have "sorted_pairs ?g = Inr (sort_key fst (alloc_pairs ?g))" by (simp add: sorted_pairs_ok)
  then obtain st where st: "state_from_genesis ?g = Inr st" by (simp add: state_from_genesis_def)
  have "get_account st (wallet_address K w) = Some (account_new (wallet_address K w) initial)"
    "a \<noteq> wallet_address K w \<Longrightarrow> bal st a = 0" for a
    using state_from_genesis_lookup [OF st, of a] state_from_genesis_lookup [OF st, of "wallet_address K w"]
    by (simp_all add: alloc_pairs_def init_genesis_def get_account_def bal_def)
  with st show ?thesis by (simp add: blockchain_from_genesis_def)
qed

lemma init_then_open:
  assumes "digest_format K" "genesis_round_trip T" "\<forall>f. \<exists>body. bind_wr T f = Inr body"
    and "cmd_init K T env0 d (Some initial) = (d1, Inr ())" "length (ce_rng env0) = 32"
    and "dd_bind d = None" "dd_chain d = None" "calm env"
  shows "\<exists>w bc b. length (signing_key w) = 32 \<and> load_genesis_for_cmd T env d1 None = Inr (init_genesis K w initial) \<and>
    validate_decl (init_genesis K w initial) = Inr () \<and> blockchain_from_genesis (init_genesis K w initial) = Inr bc \<and>
    open_data_dir K T env d1 None = (d1\<lparr>dd_bind := Some b\<rparr>, Inr (w, init_genesis K w initial, bc)) \<and> dd_pending d1 = dd_pending d"
proof -
  from cmd_init_ok [OF assms(2,4)] obtain raw w where w: "w = generate_with_rng (ce_rng env0)"
    and d1: "d1 = d\<lparr>dd_wallet := Some (seed_bytes w), dd_genesis := Some raw\<rparr>"
    and raw: "from_toml_str (genesis_rd T) raw = Inr (init_genesis K w initial)" by blast
  let ?g = "init_genesis K w initial"
  have len: "length (signing_key w) = 32" using assms(5) by (simp add: w generate_with_rng_def)
  have vd: "validate_decl ?g = Inr ()" using raw by (auto simp: from_toml_str_def and_then_Inr_iff)
  from init_genesis_chain [OF assms(1) vd] obtain bc where bc: "blockchain_from_genesis ?g = Inr bc" by blast
  have lw: "load_wallet env d1 = Inr w" using len assms(8) by (simp add: load_wallet_ok d1 calm_def seed_bytes_def)
  have lg: "load_genesis_for_cmd T env d1 None = Inr ?g"
    using assms(8) raw by (simp add: load_genesis_for_cmd_def resolve_genesis_path_def d1 from_path_def calm_def)
  have lc: "load_blockchain_from_disk K (ce_rewrite_chain env) (dd_chain d1) ?g = (None, Inr (bc, False))"
    using bc assms(7) by (simp add: load_blockchain_from_disk_def read_all_blocks_repairing_tail_def chain_from_genesis_def d1)
  have "genesis_valid ?g" using vd by (simp add: validate_decl_ok genesis_valid_def alloc_pairs_def init_genesis_def)
  then have "sorted_pairs ?g = Inr (sort_key fst (alloc_pairs ?g))" by (simp add: sorted_pairs_ok)
  then obtain c where c: "state_commitment_hex K ?g = Inr c" by (simp add: state_commitment_hex_def state_commitment_raw32_def)
  obtain body where "bind_wr T \<lparr>state_commitment = c\<rparr> = Inr body" using assms(3) by blast
  then have "ensure_binding_if_missing (bind_rd T) (bind_wr T) K (ce_bind env) None ?g = (Some (bind_comment @ body @ [CHR 10]), Inr ())"
    using assms(8) c by (simp add: ensure_binding_if_missing_def binding_text_def install_binding_def calm_def)
  with lw lg lc assms(6,7) have "open_data_dir K T env d1 None = (d1\<lparr>dd_bind := Some (bind_comment @ body @ [CHR 10])\<rparr>, Inr (w, ?g, bc))"
    by (simp add: open_data_dir_def verify_binding_if_present_def d1)
  with len lg vd bc d1 show ?thesis by auto
qed

text \<open>The first \<open>send\<close> in a directory that \<open>init\<close> has set up.\<close>

lemma first_send:
  assumes "digest_format K" "signing_correct K" "bind_round_trip (bind_rd T) (bind_wr T)" "genesis_round_trip T"
    and "\<forall>f. \<exists>body. bind_wr T f = Inr body"
    and "cmd_init K T env0 d (Some initial) = (d1, Inr ())" "length (ce_rng env0) = 32"
    and "dd_bind d = None" "dd_chain d = None" "dd_pending d = None"
    and "calm env" "rust_string recv" "address_is_valid (Address recv)" "amt \<noteq> 0"
  shows "\<exists>w bc b tx. length (signing_key w) = 32 \<and> load_genesis_for_cmd T env d1 None = Inr (init_genesis K w initial) \<and>
    validate_decl (init_genesis K w initial) = Inr () \<and> blockchain_from_genesis (init_genesis K w initial) = Inr bc \<and>
    open_data_dir K T env d1 None = (d1\<lparr>dd_bind := Some b\<rparr>, Inr (w, init_genesis K w initial, bc)) \<and>
    sign_transfer K w (Address recv) amt fe 0 (ce_now env) = Inr tx \<and> queue_reads (Some (framed (tx_image tx))) [tx] \<and>
    cmd_send K T env d1 None recv amt fe = Some (d1\<lparr>dd_bind := Some b, dd_pending := Some (framed (tx_image tx))\<rparr>, Inr ())"
proof -
  from init_then_open [OF assms(1,4,5,6,7,8,9,11)] obtain w bc b where
    w: "length (signing_key w) = 32" "load_genesis_for_cmd T env d1 None = Inr (init_genesis K w initial)"
      "validate_decl (init_genesis K w initial) = Inr ()" "blockchain_from_genesis (init_genesis K w initial) = Inr bc"
    and op: "open_data_dir K T env d1 None = (d1\<lparr>dd_bind := Some b\<rparr>, Inr (w, init_genesis K w initial, bc))"
    and pending: "dd_pending d1 = None" using assms(10) by auto
  let ?a = "wallet_address K w"
  from init_genesis_chain [OF assms(1) w(3)] w(4) have acc: "get_account (bc_state bc) ?a = Some (account_new ?a initial)" by auto
  from assms(13,14) obtain tx where tx: "sign_transfer K w (Address recv) amt fe 0 (ce_now env) = Inr tx"
    by (auto simp: sign_transfer_def Let_def)
  have "queueable tx"
    using valid_tx_queueable [OF assms(1) sign_transfer_valid [OF assms(1,2) w(1) tx]] sign_transfer_fields [OF tx] assms(12) by simp
  then have enc: "encode_transaction tx = Some (tx_image tx)" "length (tx_image tx) < 2 ^ 32" "queue_reads (Some (framed (tx_image tx))) [tx]"
    by (auto simp: encode_transaction_ok queueable_def MAX_PENDING_TX_FRAME_def queue_reads_def parse_queue)
  have "append_pending_transaction (ce_queue env) None tx = Some (Some (framed (tx_image tx)), Inr ())"
    using enc(1,2) assms(11) by (simp add: append_pending_transaction_def u32_try_from_def framed_def calm_def)
  then have "cmd_send K T env d1 None recv amt fe = Some (d1\<lparr>dd_bind := Some b, dd_pending := Some (framed (tx_image tx))\<rparr>, Inr ())"
    using assms(11) op acc tx pending by (simp add: cmd_send_def calm_def account_new_def)
  with w op tx enc(3) show ?thesis by blast
qed

text \<open>
  C25. A fresh directory works: after a successful \<open>init\<close> with a balance in an empty directory, and if
  the operating system does its part, \<open>send\<close> to a valid receiver of a non-zero amount succeeds, binds
  the directory, and queues one valid transaction with nonce 0; if the balance covers amount and fee
  it applies to the state that a node started on the directory begins with.
\<close>

theorem init_then_send:
  assumes "digest_format K" "signing_correct K" "bind_round_trip (bind_rd T) (bind_wr T)" "genesis_round_trip T"
    and "\<forall>f. \<exists>body. bind_wr T f = Inr body"
    and "cmd_init K T env0 d (Some initial) = (d1, Inr ())" "length (ce_rng env0) = 32"
    and "dd_bind d = None" "dd_chain d = None" "dd_pending d = None"
    and "calm env" "rust_string recv" "address_is_valid (Address recv)" "amt \<noteq> 0"
  shows "\<exists>d2 tx g bc. cmd_send K T env d1 None recv amt fe = Some (d2, Inr ()) \<and> queue_reads (dd_pending d2) [tx] \<and>
    tx_basic_validate K tx = Inr () \<and> nonce tx = 0 \<and> receiver tx = Address recv \<and> amount tx = amt \<and> fee tx = fe \<and>
    load_genesis_for_cmd T env d1 None = Inr g \<and> blockchain_from_genesis g = Inr bc \<and>
    (\<exists>c. state_commitment_hex K g = Inr c \<and> bound_to (bind_rd T) (dd_bind d2) c) \<and>
    (unat amt + unat fe \<le> unat initial \<longrightarrow> (\<exists>s. apply_transaction K (bc_state bc) tx = (s, Inr ())))"
proof -
  from first_send [OF assms] obtain w bc b tx where
    w: "length (signing_key w) = 32" "load_genesis_for_cmd T env d1 None = Inr (init_genesis K w initial)"
      "validate_decl (init_genesis K w initial) = Inr ()" "blockchain_from_genesis (init_genesis K w initial) = Inr bc"
    and op: "open_data_dir K T env d1 None = (d1\<lparr>dd_bind := Some b\<rparr>, Inr (w, init_genesis K w initial, bc))"
    and tx: "sign_transfer K w (Address recv) amt fe 0 (ce_now env) = Inr tx" "queue_reads (Some (framed (tx_image tx))) [tx]"
    and sent: "cmd_send K T env d1 None recv amt fe = Some (d1\<lparr>dd_bind := Some b, dd_pending := Some (framed (tx_image tx))\<rparr>, Inr ())"
    by blast
  let ?a = "wallet_address K w"
  from init_genesis_chain [OF assms(1) w(3)] w(4) have acc: "get_account (bc_state bc) ?a = Some (account_new ?a initial)"
    and zero: "a \<noteq> ?a \<Longrightarrow> bal (bc_state bc) a = 0" for a by auto
  note valid = sign_transfer_valid [OF assms(1,2) w(1) tx(1)] and fields = sign_transfer_fields [OF tx(1)]
  have "\<exists>s. apply_transaction K (bc_state bc) tx = (s, Inr ())" if "unat amt + unat fe \<le> unat initial"
  proof -
    have "transfer_enabled K (bc_state bc) tx (account_new ?a initial)"
      using that acc valid fields zero [of "receiver tx"] unat_bound [of amt] by (auto simp: transfer_enabled_def account_new_def)
    then show ?thesis by (auto simp: apply_transaction_ok)
  qed
  moreover have "\<exists>c. state_commitment_hex K (init_genesis K w initial) = Inr c \<and> bound_to (bind_rd T) (Some b) c"
    using open_data_dir_ok [OF assms(1,3) op] by simp
  ultimately show ?thesis
    using tx(2) sent valid fields w(2,4)
    by (intro exI [of _ "d1\<lparr>dd_bind := Some b, dd_pending := Some (framed (tx_image tx))\<rparr>"] exI [of _ tx]
        exI [of _ "init_genesis K w initial"] exI [of _ bc]) simp
qed

end
