(* ===== verification/File_Lock.thy ===== *)
theory File_Lock
  imports Tril_Prelude
begin

text \<open>
  \<open>file_lock.rs\<close>: the non-blocking attempt to take an advisory lock.  Opening the file and the lock call
  are the operating system's, given by their failures.  The blocking \<open>acquire_exclusive\<close> passes on the
  failure of either call; where it is used the failure is the field \<open>q_lock\<close> or \<open>bi_lock\<close>.
\<close>

record lock_error =
  le_would_block :: bool
  le_raw_os :: "int option"
  le_text :: string

record lock_io =
  lk_open :: "string option"
  lk_try :: "lock_error option"

datatype lock_outcome = Locked | Held_Elsewhere | Lock_Failed string

definition try_acquire_exclusive :: "lock_io \<Rightarrow> lock_outcome" where
  "try_acquire_exclusive io =
    (case lk_open io of
       Some e \<Rightarrow> Lock_Failed e
     | None \<Rightarrow>
        (case lk_try io of
           None \<Rightarrow> Locked
         | Some e \<Rightarrow>
            if le_would_block e then Held_Elsewhere
            else if le_raw_os e = Some 33 then Held_Elsewhere
            else Lock_Failed (le_text e)))"

definition lock_free :: lock_io where
  "lock_free = \<lparr>lk_open = None, lk_try = None\<rparr>"

lemma try_acquire_free [simp]: "try_acquire_exclusive lock_free = Locked"
  by (simp add: try_acquire_exclusive_def lock_free_def)

lemma try_acquire_locked: "try_acquire_exclusive io = Locked \<longleftrightarrow> lk_open io = None \<and> lk_try io = None"
  by (auto simp: try_acquire_exclusive_def split: option.split)

end
