(* ===== verification/Run_Loop.thy ===== *)
theory Run_Loop
  imports Commands Sync File_Lock
begin

text \<open>
  \<open>main.rs\<close>, the command \<open>run\<close>: start-up and one round of its loop.  During a round the node lock is
  held from the start to the end of synchronisation, so other threads act between rounds only.  The
  operating system, the clock and the peers are the records \<open>run_env\<close> and \<open>tick_env\<close>; a peer is
  addressed by its position in the list that is worked through, because it may occur twice.
\<close>

definition GOSSIP_FAIL_THRESHOLD :: u32 where "GOSSIP_FAIL_THRESHOLD = 5"
definition GOSSIP_COOLDOWN_SECS :: u64 where "GOSSIP_COOLDOWN_SECS = 45"
definition FATAL_SYNC_PREFIX :: string where "FATAL_SYNC_PREFIX = ''FATAL:''"

section \<open>Start-up\<close>

record run_env =
  re_cmd :: cmd_env
  re_lock :: lock_io
  re_open_chain :: "string option"
  re_read_book :: "string option"
  re_mkdir_book :: "string option"
  re_write_book :: write_outcome
  re_catch_up :: "nat \<Rightarrow> sync_env"
  re_mkdir_book2 :: "string option"
  re_write_book2 :: write_outcome
  re_listen :: "string option"

definition set_drift :: "u64 option \<Rightarrow> blockchain \<Rightarrow> blockchain" where
  "set_drift drift chain =
    (case drift of
       None \<Rightarrow> chain
     | Some s \<Rightarrow> chain\<lparr>bc_consensus := (bc_consensus chain)\<lparr>max_future_drift_secs := s\<rparr>\<rparr>)"

definition run_start ::
  "crypto \<Rightarrow> toml_lib \<Rightarrow> run_env \<Rightarrow> run_config \<Rightarrow> data_dir \<Rightarrow> data_dir \<times> (string + (wallet \<times> node_inner))" where
  "run_start K T env config d =
    (case ce_mkdir (re_cmd env) of
       Some e \<Rightarrow> (d, Inl e)
     | None \<Rightarrow>
    (case try_acquire_exclusive (re_lock env) of
       Held_Elsewhere \<Rightarrow> (d, Inl (PFX_STARTUP @ '' fail-closed: another `node run` already holds this data directory''))
     | Lock_Failed e \<Rightarrow> (d, Inl (PFX_STARTUP @ '' fail-closed: could not acquire run lock '' @ e))
     | Locked \<Rightarrow>
    (case open_data_dir K T (re_cmd env) d (rc_genesis_flag config) of
       (d, Inl e) \<Rightarrow> (d, Inl e)
     | (d, Inr (wallet, g, chain)) \<Rightarrow>
    (let chain = set_drift (rc_max_future_drift_secs config) chain in
     case (case re_open_chain env of Some e \<Rightarrow> Inl e | None \<Rightarrow> open_append (dd_chain d)) of
       Inl e \<Rightarrow> (d, Inl e)
     | Inr store \<Rightarrow>
    (let d = d\<lparr>dd_chain := Some (bs_file store)\<rparr> in
     case load_or_empty (book_rd T) ''peer_book.toml''
            (map_option (\<lambda>raw. case re_read_book env of Some e \<Rightarrow> Inl e | None \<Rightarrow> Inr raw) (dd_peers d)) of
       Inl e \<Rightarrow> (d, Inl e)
     | Inr book \<Rightarrow>
    (let book = fold (\<lambda>p b. merge_seed b p) (rc_peers config) book in
     case book_save (book_wr T) (re_mkdir_book env) (re_write_book env) (dd_peers d) book of
       (f, Inl e) \<Rightarrow> (d\<lparr>dd_peers := f\<rparr>, Inl e)
     | (f, Inr _) \<Rightarrow>
        (d\<lparr>dd_peers := f\<rparr>, Inr (wallet,
          \<lparr>ni_genesis = g, ni_chain = chain, ni_pool = mempool_new (rc_mempool_capacity config), ni_store = store,
           seen_tx = seen_new 50000, seen_block = seen_new 50000, ni_peer_book = book\<rparr>))))))))"

section \<open>Catching up with the configured peers\<close>

text \<open>The loop over the peers, before the main loop and in it; the flag is \<open>all_ok\<close>.\<close>

fun catch_up ::
  "crypto \<Rightarrow> (nat \<Rightarrow> sync_env) \<Rightarrow> sync_work_budget \<Rightarrow> nat \<Rightarrow> node_inner \<Rightarrow> string list \<Rightarrow> (node_inner \<times> bool) option" where
  "catch_up K env budget i n [] = Some (n, True)"
| "catch_up K env budget i n (p # ps) =
    (case sync_from_peer_with_clock K (env i) n p budget of
       None \<Rightarrow> None
     | Some (n, r) \<Rightarrow>
        map_option (\<lambda>(n, all_ok). (n, all_ok \<and> \<not> isl r)) (catch_up K env budget (i + 1) n ps))"

section \<open>Sealing\<close>

definition seal_step ::
  "crypto \<Rightarrow> io_plan \<Rightarrow> u64 \<Rightarrow> bool \<Rightarrow> node_inner \<Rightarrow> (node_inner \<times> (string + block option)) option" where
  "seal_step K io now sealing n =
    (let n = fst (mempool_hygiene_after_ledger_advance K n) in
     if \<not> sealing then Some (n, Inr None)
     else (case append_block_from_mempool_pending_removal K (ni_chain n) (ni_pool n) 64 now of
         (chain, Inr None) \<Rightarrow> Some (n\<lparr>ni_chain := chain\<rparr>, Inr None)
       | (chain, Inr (Some hashes)) \<Rightarrow>
          if bc_blocks chain = [] then None
          else let tip = last (bc_blocks chain) in
            (case store_append_block io (ni_store n) tip of
               None \<Rightarrow> None
             | Some (st, Inr _) \<Rightarrow>
                 Some (n\<lparr>ni_chain := chain, ni_store := st, ni_pool := remove_by_tx_hashes (ni_pool n) hashes\<rparr>, Inr (Some tip))
             | Some (st, Inl e) \<Rightarrow>
                 (case rollback_last_block K chain (ni_genesis n) of
                    (chain, Inl r) \<Rightarrow>
                      Some (n\<lparr>ni_chain := chain, ni_store := st\<rparr>, Inl ''chain.blocks persist failed and rollback failed'')
                  | (chain, Inr _) \<Rightarrow>
                      Some (n\<lparr>ni_chain := chain, ni_store := st\<rparr>, Inl (PFX_STORAGE @ '' fail-closed: chain.blocks write failure '' @ e))))
       | (chain, Inl e) \<Rightarrow>
          Some (fst (mempool_hygiene_after_ledger_advance K (n\<lparr>ni_chain := chain\<rparr>)), Inr None)))"

section \<open>Synchronising with known peers\<close>

fun sync_targets ::
  "crypto \<Rightarrow> (nat \<Rightarrow> sync_env) \<Rightarrow> (nat \<Rightarrow> u64) \<Rightarrow> sync_work_budget \<Rightarrow> nat \<Rightarrow> node_inner \<Rightarrow> string list \<Rightarrow>
     (node_inner \<times> (string + unit)) option" where
  "sync_targets K env clock budget i n [] = Some (n, Inr ())"
| "sync_targets K env clock budget i n (p # ps) =
    (case sync_from_peer_with_clock K (env i) n p budget of
       None \<Rightarrow> None
     | Some (n, Inr _) \<Rightarrow>
         sync_targets K env clock budget (i + 1) (n\<lparr>ni_peer_book := record_ok (ni_peer_book n) p (clock i)\<rparr>) ps
     | Some (n, Inl e) \<Rightarrow>
         if prefix FATAL_SYNC_PREFIX e then Some (n, Inl e)
         else sync_targets K env clock budget (i + 1) (n\<lparr>ni_peer_book := record_fail (ni_peer_book n) p (clock i)\<rparr>) ps)"

section \<open>Gossip\<close>

record gossip_state =
  cooldown_until :: "(string, u64) fmap"
  gossip_fail_streak :: "(string, u32) fmap"

definition gossip_idle :: gossip_state where
  "gossip_idle = \<lparr>cooldown_until = fmempty, gossip_fail_streak = fmempty\<rparr>"

definition cooling :: "gossip_state \<Rightarrow> string \<Rightarrow> u64 \<Rightarrow> bool" where
  "cooling gs p now = (case fmlookup (cooldown_until gs) p of None \<Rightarrow> False | Some t \<Rightarrow> t > now)"

definition gossip_failed :: "gossip_state \<Rightarrow> string \<Rightarrow> u64 \<Rightarrow> gossip_state" where
  "gossip_failed gs p now =
    (let streak = saturating_add (case fmlookup (gossip_fail_streak gs) p of None \<Rightarrow> 0 | Some s \<Rightarrow> s) 1 in
     if streak \<ge> GOSSIP_FAIL_THRESHOLD
     then \<lparr>cooldown_until = fmupd p (now + GOSSIP_COOLDOWN_SECS) (cooldown_until gs),
           gossip_fail_streak = fmupd p 0 (gossip_fail_streak gs)\<rparr>
     else gs\<lparr>gossip_fail_streak := fmupd p streak (gossip_fail_streak gs)\<rparr>)"

definition gossip_succeeded :: "gossip_state \<Rightarrow> string \<Rightarrow> gossip_state" where
  "gossip_succeeded gs p = gs\<lparr>gossip_fail_streak := fmdrop p (gossip_fail_streak gs)\<rparr>"

fun gossip_block ::
  "crypto \<Rightarrow> (nat \<Rightarrow> io_error + conn) \<Rightarrow> u64 \<Rightarrow> genesis \<Rightarrow> block \<Rightarrow> nat \<Rightarrow> gossip_state \<Rightarrow> string list \<Rightarrow> gossip_state option" where
  "gossip_block K dial now g b i gs [] = Some gs"
| "gossip_block K dial now g b i gs (p # ps) =
    (if cooling gs p now then gossip_block K dial now g b (i + 1) gs ps
     else (case push_block_to_peer K (dial i) p g (height b) b of
         None \<Rightarrow> None
       | Some (_, Inr _) \<Rightarrow> gossip_block K dial now g b (i + 1) (gossip_succeeded gs p) ps
       | Some (_, Inl _) \<Rightarrow> gossip_block K dial now g b (i + 1) (gossip_failed gs p now) ps))"

section \<open>One round of the loop\<close>

record run_state =
  rs_node :: node_inner
  rs_pending :: "bytes option"
  rs_peer_file :: "string option"
  sealing_allowed :: bool
  rs_gossip :: gossip_state

record tick_env =
  tk_queue :: queue_io
  tk_catch_up :: "nat \<Rightarrow> sync_env"
  tk_now :: u64
  tk_disk :: io_plan
  tk_now_sync :: u64
  tk_sync :: "nat \<Rightarrow> sync_env"
  tk_book_clock :: "nat \<Rightarrow> u64"
  tk_mkdir_book :: "string option"
  tk_write_book :: write_outcome
  tk_now_gossip :: u64
  tk_dial :: "nat \<Rightarrow> io_error + conn"

text \<open>The drain, whose failure is only reported, and the catch-up that may enable sealing.\<close>

definition tick_intake :: "crypto \<Rightarrow> tick_env \<Rightarrow> run_config \<Rightarrow> run_state \<Rightarrow> run_state option" where
  "tick_intake K env config s =
    Option.bind (drain_pending_file K (tk_queue env) (rs_pending s) (ni_pool (rs_node s))) (\<lambda>((f, pool), _).
    let s = s\<lparr>rs_pending := f, rs_node := (rs_node s)\<lparr>ni_pool := pool\<rparr>\<rparr> in
    if \<not> sealing_allowed s \<and> rc_peers config \<noteq> [] then
      map_option (\<lambda>(n, all_ok). s\<lparr>rs_node := n, sealing_allowed := all_ok\<rparr>)
        (catch_up K (tk_catch_up env) default_sync_budget 0 (rs_node s) (rc_peers config))
    else Some s)"

definition tick_sync ::
  "crypto \<Rightarrow> toml_lib \<Rightarrow> tick_env \<Rightarrow> run_config \<Rightarrow> run_state \<Rightarrow> (run_state \<times> (string + unit)) option" where
  "tick_sync K T env config s =
    (if rc_peers config = [] then Some (s, Inr ())
     else
     let book = ni_peer_book (rs_node s);
         filtered = filter_available book (sync_candidates book (rc_peers config)) (tk_now_sync env) in
     case sync_targets K (tk_sync env) (tk_book_clock env) default_sync_budget 0 (rs_node s) filtered of
       None \<Rightarrow> None
     | Some (n, Inl e) \<Rightarrow> Some (s\<lparr>rs_node := n\<rparr>, Inl e)
     | Some (n, Inr _) \<Rightarrow>
        (case book_save (book_wr T) (tk_mkdir_book env) (tk_write_book env) (rs_peer_file s) (ni_peer_book n) of
           (f, r) \<Rightarrow> Some (s\<lparr>rs_node := n, rs_peer_file := f\<rparr>, r)))"

definition run_tick ::
  "crypto \<Rightarrow> toml_lib \<Rightarrow> tick_env \<Rightarrow> run_config \<Rightarrow> run_state \<Rightarrow> (run_state \<times> (string + unit)) option" where
  "run_tick K T env config s =
    (if poisoned (ni_store (rs_node s))
     then Some (s, Inl (PFX_STORAGE @ '' fail-closed: store poisoned in this process after a prior append/sync failure''))
     else
     Option.bind (tick_intake K env config s) (\<lambda>s.
     Option.bind (seal_step K (tk_disk env) (tk_now env) (sealing_allowed s) (rs_node s)) (\<lambda>(n, seal_result).
     let s = s\<lparr>rs_node := n\<rparr> in
     case seal_result of
       Inl e \<Rightarrow> Some (s, Inl e)
     | Inr sealed \<Rightarrow>
        Option.bind (tick_sync K T env config s) (\<lambda>(s, r).
        case (r, sealed) of
          (Inl e, _) \<Rightarrow> Some (s, Inl e)
        | (Inr _, None) \<Rightarrow> Some (s, Inr ())
        | (Inr _, Some b) \<Rightarrow>
           map_option (\<lambda>gs. (s\<lparr>rs_gossip := gs\<rparr>, Inr ()))
             (gossip_block K (tk_dial env) (tk_now_gossip env) (ni_genesis (rs_node s)) b 0 (rs_gossip s) (rc_peers config))))))"

section \<open>From start-up into the loop\<close>

text \<open>The first catch-up, which decides whether sealing is allowed, and the listener.\<close>

definition run_begin ::
  "crypto \<Rightarrow> toml_lib \<Rightarrow> run_env \<Rightarrow> run_config \<Rightarrow> data_dir \<Rightarrow> node_inner \<Rightarrow> (data_dir \<times> (string + run_state)) option" where
  "run_begin K T env config d n =
    Option.bind (catch_up K (re_catch_up env) default_sync_budget 0 n (rc_peers config)) (\<lambda>(n, all_ok).
    case (if rc_peers config = [] then (dd_peers d, Inr ())
          else book_save (book_wr T) (re_mkdir_book2 env) (re_write_book2 env) (dd_peers d) (ni_peer_book n)) of
      (f, Inl e) \<Rightarrow> Some (d\<lparr>dd_peers := f\<rparr>, Inl e)
    | (f, Inr _) \<Rightarrow>
       let d = d\<lparr>dd_peers := f\<rparr> in
       (case (rc_listen config, re_listen env) of
          (Some addr, Some e) \<Rightarrow> Some (d, Inl (''network listen '' @ addr @ '': '' @ e))
        | _ \<Rightarrow> Some (d, Inr \<lparr>rs_node = n, rs_pending = dd_pending d, rs_peer_file = f, sealing_allowed = all_ok,
                 rs_gossip = gossip_idle\<rparr>)))"

text \<open>
  What can happen to the state of a running node: a round of the loop, a message handled by the
  thread of an inbound session, or a \<open>send\<close> in another process that appends to the queue file.
\<close>

inductive node_step :: "crypto \<Rightarrow> toml_lib \<Rightarrow> run_config \<Rightarrow> run_state \<Rightarrow> run_state \<Rightarrow> bool" for K T config where
  tick: "run_tick K T env config s = Some (s', r) \<Longrightarrow> node_step K T config s s'"
| frame: "length frame \<le> unat MAX_WIRE_FRAME_BYTES \<Longrightarrow> predecode_inbound_app_payload frame = Inr decoded \<Longrightarrow>
    apply_predecoded K io (rc_inbound_peer_policy config) (rs_node s) ses decoded now = Some ((n', ses'), r) \<Longrightarrow>
    node_step K T config s (s\<lparr>rs_node := n'\<rparr>)"
| queue: "append_pending_transaction io (rs_pending s) tx = Some (f, r) \<Longrightarrow> node_step K T config s (s\<lparr>rs_pending := f\<rparr>)"

section \<open>Sealing keeps memory and disk together\<close>

lemma pending_removal_cases:
  assumes "append_block_from_mempool_pending_removal K bc mp limit ts = (bc', r)"
  obtains (none) "r = Inr None" "bc' = bc"
  | (failed) e where "r = Inl e" "bc' = bc"
  | (sealed) sel where "r = Inr (Some (map tx_hash sel))" "ordered_candidates_for_seal K mp (bc_state bc) limit = Inr sel"
      "append_block K bc (sealed_block K (last (bc_blocks bc)) ts sel) = (bc', Inr ())"
  using assms
  by (auto simp: append_block_from_mempool_pending_removal_def sealed_block_def Let_def dest: append_block_Inl
      split: sum.splits prod.splits if_splits)

lemma sealed_valid_body:
  assumes "digest_format K" "chain_ok K g bc" "pool_ok mp" "ordered_candidates_for_seal K mp st limit = Inr sel"
    and "append_block K bc (sealed_block K (last (bc_blocks bc)) ts sel) = (bc', Inr ())"
  shows "valid_body K (sealed_block K (last (bc_blocks bc)) ts sel) \<and> length sel \<le> limit"
proof -
  let ?tip = "last (bc_blocks bc)"
  let ?b = "sealed_block K ?tip ts sel"
  have sel: "length sel \<le> limit" "set sel \<subseteq> set (clone_fifo mp)"
    using candidates_for_seal_sound [OF assms(4)] by (auto dest: subseq_set)
  have "block_basic_validate K ?b = Inr ()" using assms(5) by (simp add: append_block_ok valid_link_def)
  then have txs: "\<forall>tx \<in> set sel. tx_basic_validate K tx = Inr ()" using block_valid_txs [of K ?b] by simp
  have rust: "\<forall>tx \<in> set sel. rust_string (str (receiver tx))"
    using sel(2) assms(3) by (auto simp: pool_ok_def wire_tx_def rust_transaction_def)
  have "chain_wf K (min_block_interval_secs (bc_consensus bc)) (bc_blocks bc)"
    using assms(2) unfolding chain_ok_def chain_inv_def by blast
  then have "?tip = genesis_block \<or> hex64 (block_hash ?tip)"
    using chain_wf_last_valid block_valid_hex64 [OF assms(1)] by blast
  then have prev: "rust_string (block_hash ?tip) \<and> length (block_hash ?tip) \<le> 64"
    using hex64_rust_string genesis_wire
    by (auto simp: hex64_def wire_block_def rust_block_def genesis_block_def)
  have "hex64 (block_hash ?b)" by (simp add: sealed_block_hash compute_block_hash_def hash_bytes_hex64 assms(1))
  with prev txs rust sel show ?thesis by (simp add: valid_body_def)
qed

lemma remove_pool_ok: "pool_ok mp \<Longrightarrow> pool_ok (remove_by_tx_hashes mp hs)"
  by (rule pool_ok_subset [of _ mp]) (auto simp: pool_ok_def remove_by_tx_hashes_eq pool_without_inv fifo_pool_without)

lemma seal_step_outcome:
  assumes "digest_format K" "node_inv K n"
  shows "\<exists>m r. seal_step K io now sealing n = Some (m, r) \<and> node_inv K m \<and>
    (case r of Inr (Some b) \<Rightarrow> sealing \<and> extended n 1 m \<and> last (bc_blocks (ni_chain m)) = b \<and> valid_body K b \<and> length (transactions b) \<le> 64
     | _ \<Rightarrow> extended n 0 m)"
proof (cases sealing)
  case False
  with hygiene_node_inv [OF assms(2)] show ?thesis by (simp add: seal_step_def Let_def extended_def)
next
  case True
  define n1 where "n1 = fst (mempool_hygiene_after_ledger_advance K n)"
  have n1: "node_inv K n1" "extended n 0 n1" "ni_genesis n1 = ni_genesis n"
    using hygiene_node_inv [OF assms(2)] by (simp_all add: n1_def extended_def)
  obtain chain r where ap: "append_block_from_mempool_pending_removal K (ni_chain n1) (ni_pool n1) 64 now = (chain, r)" by fastforce
  show ?thesis
  proof (rule pending_removal_cases [OF ap])
    assume "r = Inr None" "chain = ni_chain n1"
    with True ap n1 show ?thesis by (simp add: seal_step_def Let_def n1_def [symmetric])
  next
    fix e assume "r = Inl e" "chain = ni_chain n1"
    with True ap n1 hygiene_node_inv [OF n1(1)] show ?thesis by (simp add: seal_step_def Let_def n1_def [symmetric] extended_def)
  next
    fix sel
    let ?b = "sealed_block K (last (bc_blocks (ni_chain n1))) now sel"
    assume r: "r = Inr (Some (map tx_hash sel))" "ordered_candidates_for_seal K (ni_pool n1) (bc_state (ni_chain n1)) 64 = Inr sel"
      and b: "append_block K (ni_chain n1) ?b = (chain, Inr ())"
    from n1(1) have ok: "chain_ok K (ni_genesis n1) (ni_chain n1)" "pool_ok (ni_pool n1)" by (simp_all add: node_inv_def)
    from sealed_valid_body [OF assms(1) ok r(2) b] have vb: "valid_body K ?b" "length (transactions ?b) \<le> 64" by simp_all
    then have wb: "wire_block ?b" using valid_body_rust [OF assms(1), of ?b] by (simp add: wire_block_def)
    have tip: "bc_blocks chain = bc_blocks (ni_chain n1) @ [?b]" using b by (auto simp: append_block_ok)
    show ?thesis
    proof (rule append_and_store [OF assms(1) n1(1) b wb, of io])
      fix st
      let ?m = "n1\<lparr>ni_chain := chain, ni_store := st, ni_pool := remove_by_tx_hashes (ni_pool n1) (map tx_hash sel)\<rparr>"
      assume w: "store_append_block io (ni_store n1) ?b = Some (st, Inr ())" "node_inv K (n1\<lparr>ni_chain := chain, ni_store := st\<rparr>)"
      then have "node_inv K ?m" using remove_pool_ok [OF ok(2)] by (simp add: node_inv_def)
      moreover have "seal_step K io now sealing n = Some (?m, Inr (Some ?b))"
        using True ap r w(1) tip by (simp add: seal_step_def Let_def n1_def [symmetric])
      moreover have "extended n 1 ?m" using n1 tip by (simp add: extended_def)
      ultimately show ?thesis using vb True tip by simp
    next
      fix st e
      assume u: "store_append_block io (ni_store n1) ?b = Some (st, Inl e)" "node_inv K (n1\<lparr>ni_store := st\<rparr>)"
        "rollback_last_block K chain (ni_genesis n1) = (ni_chain n1, Inr ())"
      with True ap r tip n1 show ?thesis by (simp add: seal_step_def Let_def n1_def [symmetric] extended_def)
    qed
  qed
qed

section \<open>A round of the loop\<close>

lemma catch_up_outcome:
  assumes "digest_format K"
  shows "node_inv K n \<Longrightarrow> \<exists>m ok k. catch_up K env budget i n ps = Some (m, ok) \<and> node_inv K m \<and> extended n k m"
proof (induction ps arbitrary: i n)
  case Nil
  then show ?case using extended_refl by (auto intro!: exI [of _ 0])
next
  case (Cons p ps)
  from sync_outcome [OF assms Cons.prems, of "env i" p budget] obtain m r k where
    s: "sync_from_peer_with_clock K (env i) n p budget = Some (m, r)" "node_inv K m" "extended n k m" by blast
  from Cons.IH [OF s(2), of "i + 1"] obtain l ok j where "catch_up K env budget (i + 1) m ps = Some (l, ok)" "node_inv K l" "extended m j l" by blast
  with s extended_trans [OF s(3)] show ?case by auto
qed

lemma book_change [simp]:
  "node_inv K (n\<lparr>ni_peer_book := b\<rparr>) = node_inv K n" "extended (n\<lparr>ni_peer_book := b\<rparr>) k m = extended n k m"
  by (simp_all add: node_inv_def extended_def)

lemma sync_targets_outcome:
  assumes "digest_format K"
  shows "node_inv K n \<Longrightarrow> \<exists>m r k. sync_targets K env clock budget i n ps = Some (m, r) \<and> node_inv K m \<and> extended n k m"
proof (induction ps arbitrary: i n)
  case Nil
  then show ?case using extended_refl by (auto intro!: exI [of _ 0])
next
  case (Cons p ps)
  from sync_outcome [OF assms Cons.prems, of "env i" p budget] obtain m r k where
    s: "sync_from_peer_with_clock K (env i) n p budget = Some (m, r)" "node_inv K m" "extended n k m" by blast
  have "\<exists>l r j. sync_targets K env clock budget (i + 1) (m\<lparr>ni_peer_book := b\<rparr>) ps = Some (l, r) \<and> node_inv K l \<and> extended n j l" for b
    using Cons.IH [of "m\<lparr>ni_peer_book := b\<rparr>" "i + 1"] s(2) extended_trans [OF s(3)] by fastforce
  with s show ?case by (cases r) (auto split: if_splits)
qed

lemma gossip_total:
  assumes "wire_block b"
  shows "\<exists>gs'. gossip_block K dial now g b i gs ps = Some gs'"
proof (induction ps arbitrary: i gs)
  case (Cons p ps)
  have "encode_block b = Some (block_image b)" using assms by (simp add: wire_block_def encode_block_ok)
  then have "\<exists>c r. push_block_to_peer K (dial i) p g (height b) b = Some (c, r)"
    by (auto simp: push_block_to_peer_def push_message_def split: sum.split prod.split)
  then obtain c r where "push_block_to_peer K (dial i) p g (height b) b = Some (c, r)" by blast
  with Cons show ?case by (cases r) simp_all
qed simp

lemma drain_pool_ok:
  assumes "pool_ok pool"
  shows "\<exists>f pool' r. drain_pending_file K io file pool = Some ((f, pool'), r) \<and> pool_ok pool'"
proof -
  have inv: "mempool_inv pool" using assms by (simp add: pool_ok_def)
  from drain_outcome [OF inv, of K io "file"] obtain f pool' r where
    d: "drain_pending_file K io file pool = Some ((f, pool'), r)"
    and out: "case r of Inl _ \<Rightarrow> f = file \<and> pool' = pool
      | Inr _ \<Rightarrow> (case file of None \<Rightarrow> f = None \<and> pool' = pool | Some data \<Rightarrow> drained data pool f pool')" by blast
  have "pool_ok pool'" if "drained data pool f pool'" for data
  proof -
    from that obtain taken remaining new where t: "mempool_inv pool'" "parse_pending_file_bytes data = Inr (taken @ remaining)"
      "clone_fifo pool' = clone_fifo pool @ new" "subseq new taken" unfolding drained_def by blast
    have "wire_tx tx" if "tx \<in> set new" for tx
    proof -
      have "queueable tx" using that t(2) subseq_set [OF t(4)] by (auto simp: parse_queue)
      then show ?thesis by (simp add: queueable_def wire_tx_def MAX_PENDING_TX_FRAME_def)
    qed
    with t(1,3) assms show ?thesis by (auto simp: pool_ok_def)
  qed
  with d out assms show ?thesis by (cases r) (auto split: option.splits)
qed

lemma tick_intake_outcome:
  assumes "digest_format K" "node_inv K (rs_node s)"
  shows "\<exists>s' k. tick_intake K env config s = Some s' \<and> node_inv K (rs_node s') \<and> extended (rs_node s) k (rs_node s')"
proof -
  from drain_pool_ok [of "ni_pool (rs_node s)" K "tk_queue env" "rs_pending s"] assms(2) obtain f pool r where
    d: "drain_pending_file K (tk_queue env) (rs_pending s) (ni_pool (rs_node s)) = Some ((f, pool), r)" "pool_ok pool"
    by (auto simp: node_inv_def)
  let ?n = "(rs_node s)\<lparr>ni_pool := pool\<rparr>"
  have n: "node_inv K ?n" "extended (rs_node s) 0 ?n" using assms(2) d(2) by (simp_all add: node_inv_def extended_def)
  from catch_up_outcome [OF assms(1) n(1)] obtain m ok k where
    c: "catch_up K (tk_catch_up env) default_sync_budget 0 ?n (rc_peers config) = Some (m, ok)" "node_inv K m" "extended ?n k m" by blast
  have "extended (rs_node s) k m" using extended_trans [OF n(2) c(3)] by simp
  with c d n show ?thesis by (auto simp: tick_intake_def Let_def)
qed

lemma tick_sync_outcome:
  assumes "digest_format K" "node_inv K (rs_node s)"
  shows "\<exists>s' r k. tick_sync K T env config s = Some (s', r) \<and> node_inv K (rs_node s') \<and> extended (rs_node s) k (rs_node s')"
proof (cases "rc_peers config = []")
  case True
  with assms(2) show ?thesis using extended_refl by (auto simp: tick_sync_def intro!: exI [of _ 0])
next
  case False
  let ?book = "ni_peer_book (rs_node s)"
  from sync_targets_outcome [OF assms, of "tk_sync env" "tk_book_clock env" default_sync_budget 0
      "filter_available ?book (sync_candidates ?book (rc_peers config)) (tk_now_sync env)"]
  obtain m r k where c: "sync_targets K (tk_sync env) (tk_book_clock env) default_sync_budget 0 (rs_node s)
      (filter_available ?book (sync_candidates ?book (rc_peers config)) (tk_now_sync env)) = Some (m, r)"
    "node_inv K m" "extended (rs_node s) k m" by blast
  with False show ?thesis by (cases r) (auto simp: tick_sync_def Let_def split: prod.split)
qed

lemma run_tick_outcome:
  assumes "digest_format K" "node_inv K (rs_node s)"
  shows "\<exists>s' r k. run_tick K T env config s = Some (s', r) \<and> node_inv K (rs_node s') \<and> extended (rs_node s) k (rs_node s')"
proof (cases "poisoned (ni_store (rs_node s))")
  case True
  with assms(2) show ?thesis using extended_refl by (auto simp: run_tick_def intro!: exI [of _ 0])
next
  case False
  from tick_intake_outcome [OF assms, of env config] obtain s1 k1 where
    s1: "tick_intake K env config s = Some s1" "node_inv K (rs_node s1)" "extended (rs_node s) k1 (rs_node s1)" by blast
  from seal_step_outcome [OF assms(1) s1(2), of "tk_disk env" "tk_now env" "sealing_allowed s1"] obtain n sealed where
    n: "seal_step K (tk_disk env) (tk_now env) (sealing_allowed s1) (rs_node s1) = Some (n, sealed)" "node_inv K n"
    and sl: "case sealed of Inr (Some b) \<Rightarrow> sealing_allowed s1 \<and> extended (rs_node s1) 1 n \<and> last (bc_blocks (ni_chain n)) = b \<and>
        valid_body K b \<and> length (transactions b) \<le> 64 | _ \<Rightarrow> extended (rs_node s1) 0 n" by blast
  then obtain k2 where k2: "extended (rs_node s1) k2 n" by (cases sealed) (auto split: option.splits)
  from tick_sync_outcome [OF assms(1), of "s1\<lparr>rs_node := n\<rparr>" T env config] n(2) obtain s2 r k3 where
    s2: "tick_sync K T env config (s1\<lparr>rs_node := n\<rparr>) = Some (s2, r)" "node_inv K (rs_node s2)" "extended n k3 (rs_node s2)" by auto
  have ext: "extended (rs_node s) (k1 + k2) n" "extended (rs_node s) (k1 + k2 + k3) (rs_node s2)"
    using extended_trans [OF s1(3) k2] extended_trans s2(3) by blast+
  have gossip: "\<exists>gs. gossip_block K (tk_dial env) (tk_now_gossip env) g b 0 gs0 (rc_peers config) = Some gs"
    if "sealed = Inr (Some b)" for b g gs0
    using that sl valid_body_rust [OF assms(1), of b] by (intro gossip_total) (simp add: wire_block_def)
  show ?thesis
  proof (cases sealed)
    case (Inl e)
    with False s1(1) n ext show ?thesis by (auto simp: run_tick_def)
  next
    case (Inr tip)
    with False s1(1) n s2 ext gossip show ?thesis
      by (cases r; cases tip) (fastforce simp: run_tick_def)+
  qed
qed

section \<open>The running node\<close>

lemma open_data_dir_chain:
  assumes "open_data_dir K T env d gf = (d', Inr (w, g, chain))"
  shows "\<exists>rep. load_blockchain_from_disk K (ce_rewrite_chain env) (dd_chain d) g = (dd_chain d', Inr (chain, rep))"
  using assms by (fastforce simp: open_data_dir_def Let_def split: sum.splits prod.splits)

lemma mempool_new_ok: "pool_ok (mempool_new cap)"
  using mempool_new_inv [of cap] by (simp add: pool_ok_def clone_fifo_def mempool_new_def)

lemma set_drift_ok: "chain_inv K g bc \<Longrightarrow> bc_consensus bc = default_consensus_params \<Longrightarrow> chain_ok K g (set_drift drift bc)"
  by (cases drift) (simp_all add: set_drift_def chain_ok_def chain_inv_def)

lemma run_start_ok:
  assumes "run_start K T env config d = (d', Inr (w, n))"
  obtains d1 chain where "open_data_dir K T (re_cmd env) d (rc_genesis_flag config) = (d1, Inr (w, ni_genesis n, chain))"
    "ni_chain n = set_drift (rc_max_future_drift_secs config) chain" "open_append (dd_chain d1) = Inr (ni_store n)"
    "ni_pool n = mempool_new (rc_mempool_capacity config)" "try_acquire_exclusive (re_lock env) = Locked"
  using assms
  by (auto simp: run_start_def Let_def split: option.splits lock_outcome.splits sum.splits prod.splits)

lemma run_start_inv:
  assumes "digest_format K" "run_start K T env config d = (d', Inr (w, n))"
  shows "node_inv K n \<and> \<not> poisoned (ni_store n)"
proof (rule run_start_ok [OF assms(2)])
  fix d1 chain
  assume op: "open_data_dir K T (re_cmd env) d (rc_genesis_flag config) = (d1, Inr (w, ni_genesis n, chain))"
    and n: "ni_chain n = set_drift (rc_max_future_drift_secs config) chain" "open_append (dd_chain d1) = Inr (ni_store n)"
      "ni_pool n = mempool_new (rc_mempool_capacity config)"
  from open_data_dir_chain [OF op] obtain rep where
    "load_blockchain_from_disk K (ce_rewrite_chain (re_cmd env)) (dd_chain d) (ni_genesis n) = (dd_chain d1, Inr (chain, rep))" ..
  note lc = loaded_chain [OF assms(1) this]
  then have "store_holds (ni_store n) (tl (bc_blocks chain)) \<and> \<not> poisoned (ni_store n)"
    using repaired_store n(2) by (metis sum.inject(2))
  moreover have "bc_blocks (set_drift x chain) = bc_blocks chain" for x by (cases x) (simp_all add: set_drift_def)
  ultimately show ?thesis using lc n mempool_new_ok set_drift_ok by (simp add: node_inv_def)
qed

lemma run_begin_inv:
  assumes "digest_format K" "node_inv K n" "run_begin K T env config d n = Some (d', Inr s)"
  shows "node_inv K (rs_node s) \<and> grows n (rs_node s)"
proof -
  from catch_up_outcome [OF assms(1,2)] obtain m ok k where
    c: "catch_up K (re_catch_up env) default_sync_budget 0 n (rc_peers config) = Some (m, ok)" "node_inv K m" "extended n k m" by blast
  with assms(3) have "rs_node s = m"
    by (auto simp: run_begin_def Let_def split: if_splits prod.splits sum.splits option.splits)
  with c extended_grows show ?thesis by blast
qed

lemma node_step_inv:
  assumes "digest_format K" "node_step K T config s s'" "node_inv K (rs_node s)"
  shows "node_inv K (rs_node s') \<and> grows (rs_node s) (rs_node s')"
  using assms(2)
proof cases
  case (tick env r)
  with run_tick_outcome [OF assms(1,3), of T env config] extended_grows show ?thesis by fastforce
next
  case (frame frame decoded io ses now n' ses' r)
  with apply_predecoded_inv [OF assms(1,3) predecode_ok [OF frame(3,2)], of io "rc_inbound_peer_policy config" ses now]
  show ?thesis by simp
next
  case (queue io tx f r)
  with assms(3) show ?thesis by (simp add: grows_def)
qed

interpretation node_run: stepwise "node_step K T config" "\<lambda>s. digest_format K \<and> node_inv K (rs_node s)"
  "\<lambda>s s'. grows (rs_node s) (rs_node s')" for K T config
  by unfold_locales (use grows_trans node_step_inv in \<open>auto simp: grows_def\<close>)

lemma started_node:
  assumes "digest_format K" "run_start K T env config d = (d1, Inr (w, n0))"
    and "run_begin K T env config d1 n0 = Some (d2, Inr s0)" "(node_step K T config)\<^sup>*\<^sup>* s0 s"
  shows "node_inv K (rs_node s) \<and> grows n0 (rs_node s)"
proof -
  have n0: "node_inv K n0" using run_start_inv [OF assms(1,2)] by blast
  from node_run.run_keeps [OF assms(4)] run_begin_inv [OF assms(1) n0 assms(3)] assms(1) grows_trans show ?thesis by blast
qed

lemma reload_ignores_drift:
  assumes "chain_ok K g bc" "store_holds st (tl (bc_blocks bc))"
  shows "load_blockchain_from_disk K rw (Some (bs_file st)) g =
    (Some (bs_file st), Inr (bc\<lparr>bc_consensus := default_consensus_params\<rparr>, False))"
proof -
  let ?bc = "bc\<lparr>bc_consensus := default_consensus_params\<rparr>"
  have "chain_inv K g ?bc" using assms(1) by (auto simp: chain_ok_def chain_inv_def)
  from reload_chain [OF this] store_reads(2) [of st "tl (bc_blocks ?bc)"] assms(2) show ?thesis by simp
qed

text \<open>
  A running node never panics and never loses a block.  However start-up found the disk, and
  however rounds of the loop, messages of peers and \<open>send\<close> commands interleave, whichever writes
  fail and whatever peers and clock say: every round of the loop returns, and so does the handling
  of every message; the chain in memory stays valid and only ever gets longer.
\<close>

theorem running_node_safe:
  assumes "digest_format K" "run_start K T env config d = (d1, Inr (w, n0))"
    and "run_begin K T env config d1 n0 = Some (d2, Inr s0)" "(node_step K T config)\<^sup>*\<^sup>* s0 s"
  shows "chain_inv K (ni_genesis n0) (ni_chain (rs_node s)) \<and> grows n0 (rs_node s) \<and>
    run_tick K T tick config s \<noteq> None \<and>
    (length frame \<le> unat MAX_WIRE_FRAME_BYTES \<longrightarrow> handle_frame K (senv\<lparr>env_others := \<lambda>i n. n\<rparr>) policy (rs_node s) ses frame \<noteq> None)"
proof -
  have s: "node_inv K (rs_node s)" "grows n0 (rs_node s)" using started_node [OF assms(1-4)] by blast+
  then have "chain_inv K (ni_genesis n0) (ni_chain (rs_node s))" by (simp add: node_inv_def chain_ok_def grows_def)
  with s run_tick_outcome [OF assms(1) s(1), of T tick config]
    handle_frame_inv [OF assms(1) s(1), of frame "senv\<lparr>env_others := \<lambda>i n. n\<rparr>" policy ses] show ?thesis by auto
qed

text \<open>
  C4. A restart recovers everything.  Whenever a node that has not met a write error is stopped or
  killed between two steps, the next start reads from \<open>chain.blocks\<close>, without a repair, exactly the
  blocks and the account state the node had in memory; only the drift override of the command line
  is not on disk.
\<close>

theorem restart_recovers:
  assumes "digest_format K" "run_start K T env config d = (d1, Inr (w, n0))"
    and "run_begin K T env config d1 n0 = Some (d2, Inr s0)" "(node_step K T config)\<^sup>*\<^sup>* s0 s"
    and "\<not> poisoned (ni_store (rs_node s))"
  shows "load_blockchain_from_disk K rw (Some (bs_file (ni_store (rs_node s)))) (ni_genesis n0) =
    (Some (bs_file (ni_store (rs_node s))), Inr ((ni_chain (rs_node s))\<lparr>bc_consensus := default_consensus_params\<rparr>, False))"
  using started_node [OF assms(1-4)] assms(5) by (intro reload_ignores_drift) (auto simp: node_inv_def grows_def)

end
