(* ===== verification/Commit.thy ===== *)
theory Commit
  imports Run_Loop
begin

text \<open>
  Progress of a node that produces blocks alone: what \<open>send\<close> has queued is drained, sealed, applied
  and on disk after one round of the loop.
\<close>

section \<open>Draining a queue that fits\<close>

lemma submit_fresh:
  assumes "mempool_inv mp" "tx_basic_validate K tx = Inr ()" "tx_hash tx \<notin> tx_hash ` set (clone_fifo mp)"
    and "(sender tx, nonce tx) \<notin> (\<lambda>t. (sender t, nonce t)) ` set (clone_fifo mp)" "length (clone_fifo mp) < mp_capacity mp"
  shows "\<exists>mp'. try_submit_pending_drain K mp tx = (mp', Inr ())"
proof -
  have held: "t \<in> set (clone_fifo mp)" "tx_hash t = h" if "fmlookup (mp_txs mp) h = Some t" for h t
    using that agree_hash [OF inv_agree [OF assms(1)] that] fifo_lookup [OF assms(1), of t] by auto
  have "fmlookup (mp_txs mp) (tx_hash tx) = None" using held assms(3) by (metis image_eqI not_None_eq)
  moreover have "slot mp (sender tx) (nonce tx) = None"
  proof (rule ccontr)
    assume "slot mp (sender tx) (nonce tx) \<noteq> None"
    then obtain h t where t: "fmlookup (mp_txs mp) h = Some t" "sender t = sender tx" "nonce t = nonce tx"
      using inv_agree [OF assms(1)] by (fastforce simp: indexes_agree_def)
    with held(1) [OF t(1)] assms(4) show False by (metis (mono_tags, lifting) image_eqI)
  qed
  ultimately have "submit_checks K mp tx = Inr ()" using assms(2) by (simp add: submit_checks_ok)
  with assms(5) show ?thesis by (simp add: drain_submit_cases fifo_length [OF assms(1)])
qed

lemma drain_everything:
  assumes "mempool_inv pool" "\<forall>tx \<in> set txs. tx_basic_validate K tx = Inr ()" "distinct (map tx_hash (clone_fifo pool @ txs))"
    and "distinct (map (\<lambda>t. (sender t, nonce t)) (clone_fifo pool @ txs))" "length (clone_fifo pool @ txs) \<le> mp_capacity pool"
  shows "\<exists>pool'. drain_loop K pool txs = (pool', []) \<and> clone_fifo pool' = clone_fifo pool @ txs"
  using assms
proof (induction txs arbitrary: pool)
  case (Cons tx txs)
  from submit_fresh [OF Cons.prems(1), of K tx] Cons.prems(2-5) obtain p where p: "try_submit_pending_drain K pool tx = (p, Inr ())"
    by fastforce
  note q = drain_submit_ok [OF Cons.prems(1) p]
  with Cons.IH [of p] Cons.prems(2-5) have "\<exists>pool'. drain_loop K p txs = (pool', []) \<and> clone_fifo pool' = clone_fifo p @ txs" by simp
  with p q show ?case by auto
qed simp

section \<open>Transactions that apply one after the other\<close>

lemma run_distinct_slots:
  assumes "run_steps (apply_transaction K) s txs = (s', Inr ())"
  shows "distinct (map (\<lambda>t. (sender t, nonce t)) txs)"
  using ledger_run.run_no_replay [OF assms] by (auto simp: distinct_map inj_on_def)

lemma run_not_stale:
  assumes "run_steps (apply_transaction K) s txs = (s', Inr ())" "tx \<in> set txs"
  shows "\<not> stale_vs s tx"
proof -
  have "unat (nonce tx) \<in> set (map (\<lambda>t. unat (nonce t)) (filter (\<lambda>t. sender t = sender tx) txs))" using assms(2) by auto
  then have "nonce_at s (sender tx) \<le> unat (nonce tx)" using ledger_run.run_seq_gapless [OF assms(1), of "sender tx"] by simp
  then show ?thesis by (auto simp: stale_vs_def nonce_at_def get_account_def word_less_nat_alt split: option.splits)
qed

lemma run_head_viable:
  assumes "run_steps (apply_transaction K) s (tx # txs) = (s', Inr ())"
  shows "\<not> nonviable K s tx"
proof -
  from assms obtain s1 where "apply_transaction K s tx = (s1, Inr ())" by (auto simp: run_steps_Cons_ok simp del: run_steps.simps)
  then obtain acc where "transfer_enabled K s tx acc" by (auto simp: apply_transaction_ok)
  then show ?thesis by (auto simp: nonviable_def transfer_enabled_def)
qed

lemma hygiene_keeps_run:
  assumes "mempool_inv mp" "run_steps (apply_transaction K) c (clone_fifo mp) = (s', Inr ())"
  shows "clone_fifo (fst (hygiene_vs_committed_ledger K mp c)) = clone_fifo mp"
proof -
  have "dropWhile (nonviable K c) (clone_fifo mp) = clone_fifo mp"
    using assms(2) run_head_viable by (cases "clone_fifo mp") fastforce+
  moreover have "filter (\<lambda>tx. \<not> stale_vs c tx) (clone_fifo mp) = clone_fifo mp"
    using run_not_stale [OF assms(2)] by (simp add: filter_id_conv)
  ultimately show ?thesis using hygiene_spec [OF assms(1), of K c] by auto
qed

lemma seal_walk_all:
  assumes "run_steps (apply_transaction K) s txs = (s', Inr ())" "\<forall>tx \<in> set txs. fmlookup pool (tx_hash tx) = Some tx"
    and "length out + length txs \<le> limit"
  shows "seal_walk K pool limit s out (map tx_hash txs) = Inr (out @ txs)"
  using assms
proof (induction txs arbitrary: s out)
  case (Cons tx txs)
  then obtain s1 where s1: "apply_transaction K s tx = (s1, Inr ())" and r: "run_steps (apply_transaction K) s1 txs = (s', Inr ())"
    by (auto simp: run_steps_Cons_ok simp del: run_steps.simps)
  from s1 obtain acc where "get_account s (sender tx) = Some acc" "acc_nonce acc = nonce tx"
    by (auto simp: apply_transaction_ok transfer_enabled_def)
  with Cons.IH [OF r, of "out @ [tx]"] Cons.prems s1 show ?case by simp
qed simp

lemma candidates_all:
  assumes "mempool_inv mp" "run_steps (apply_transaction K) s (clone_fifo mp) = (s', Inr ())" "length (clone_fifo mp) \<le> limit"
  shows "ordered_candidates_for_seal K mp s limit = Inr (clone_fifo mp)"
  using seal_walk_all [OF assms(2), of "mp_txs mp" "[]" limit] assms(3) fifo_lookup [OF assms(1)]
  by (simp add: ordered_candidates_for_seal_def fifo_hashes [OF assms(1)])

section \<open>A round without failures\<close>

definition calm_queue :: "queue_io \<Rightarrow> bool" where
  "calm_queue io \<longleftrightarrow> q_lock io = None \<and> q_read io = None \<and> q_tmp_write io = None \<and> q_tmp_sync io = None \<and> q_rename io = None"

lemma calm_drain:
  assumes "calm_queue io" "mempool_inv pool" "queue_reads (Some data) txs" "drain_loop K pool txs = (pool', [])"
  shows "\<exists>p. drain_pending_file K io (Some data) pool = Some ((Some [], p), Inr ()) \<and> p = pool'"
proof -
  have "parse_pending_file_bytes data = Inr txs" using assms(3) by (simp add: queue_reads_def)
  with assms(1,4) show ?thesis
    by (cases "txs = []") (simp_all add: drain_pending_file_def calm_queue_def try_io_def write_pending_atomic_def
        encode_pending_payload_def)
qed

lemma seal_step_commits:
  assumes "digest_format K" "node_inv K n" "\<not> poisoned (ni_store n)" "calm_disk io"
    and "run_steps (apply_transaction K) (bc_state (ni_chain n)) (clone_fifo (ni_pool n)) = (final, Inr ())"
    and "clone_fifo (ni_pool n) \<noteq> []" "length (clone_fifo (ni_pool n)) \<le> 64"
    and "unat (timestamp_unix (last (bc_blocks (ni_chain n)))) + unat (min_block_interval_secs (bc_consensus (ni_chain n))) \<le> unat now"
    and "unat (bc_height (ni_chain n)) + 1 < 2 ^ 64"
  shows "\<exists>m b. seal_step K io now True n = Some (m, Inr (Some b)) \<and> transactions b = clone_fifo (ni_pool n) \<and>
    bc_blocks (ni_chain m) = bc_blocks (ni_chain n) @ [b] \<and> bc_state (ni_chain m) = final \<and> clone_fifo (ni_pool m) = [] \<and>
    ni_genesis m = ni_genesis n \<and> \<not> poisoned (ni_store m)"
proof -
  define n1 where "n1 = fst (mempool_hygiene_after_ledger_advance K n)"
  have inv: "mempool_inv (ni_pool n)" using assms(2) by (simp add: node_inv_def pool_ok_def)
  have fifo: "clone_fifo (ni_pool n1) = clone_fifo (ni_pool n)"
    using hygiene_keeps_run [OF inv assms(5)] by (auto simp: n1_def mempool_hygiene_after_ledger_advance_def split: prod.splits)
  have n1: "node_inv K n1" "ni_chain n1 = ni_chain n" "ni_genesis n1 = ni_genesis n" "ni_store n1 = ni_store n"
    using hygiene_node_inv [OF assms(2)] by (simp_all add: n1_def mempool_hygiene_after_ledger_advance_def split: prod.split)
  then have ok: "mempool_inv (ni_pool n1)" "pool_ok (ni_pool n1)" "chain_ok K (ni_genesis n) (ni_chain n)" "chain_inv K (ni_genesis n) (ni_chain n)"
    by (simp_all add: node_inv_def pool_ok_def chain_ok_def)
  let ?txs = "clone_fifo (ni_pool n)" and ?tip = "last (bc_blocks (ni_chain n))"
  let ?b = "sealed_block K ?tip now ?txs"
  have cand: "ordered_candidates_for_seal K (ni_pool n1) (bc_state (ni_chain n)) 64 = Inr ?txs"
    using candidates_all [OF ok(1)] assms(5,7) by (simp add: fifo)
  from seal_pending [OF assms(1) ok(4,1) cand assms(6,8,9)] obtain chain where
    p: "append_block_from_mempool_pending_removal K (ni_chain n) (ni_pool n1) 64 now = (chain, Inr (Some (map tx_hash ?txs)))"
    and ap: "append_block K (ni_chain n) ?b = (chain, Inr ())" and fin: "bc_state chain = final" using assms(5) by auto
  from sealed_valid_body [OF assms(1) ok(3,2) cand ap] have vb: "valid_body K ?b" "length (transactions ?b) \<le> 64" by simp_all
  have "storable ?b" using valid_body_storable [OF assms(1) vb(1)] vb(2) by simp
  from calm_append [OF assms(4,3) this] obtain st where st: "store_append_block io (ni_store n) ?b = Some (st, Inr ())" by blast
  have tip: "bc_blocks chain = bc_blocks (ni_chain n) @ [?b]" using ap by (auto simp: append_block_ok)
  let ?m = "n1\<lparr>ni_chain := chain, ni_store := st, ni_pool := remove_by_tx_hashes (ni_pool n1) (map tx_hash ?txs)\<rparr>"
  have "seal_step K io now True n = Some (?m, Inr (Some ?b))"
    using p st tip n1 by (simp add: seal_step_def Let_def n1_def [symmetric])
  moreover have "clone_fifo (remove_by_tx_hashes (ni_pool n1) (map tx_hash ?txs)) = []"
    using pool_queue.commit_contents [OF ok(1), of ?txs] fifo by simp
  moreover have "\<not> poisoned st"
    using st assms(3) by (auto simp: store_append_block_def append_payload_def write_frame_def write_magic_def write_all_def sync_all_def
        split: option.splits if_splits prod.splits sum.splits)
  ultimately show ?thesis using tip fin n1 by (intro exI [of _ ?m] exI [of _ ?b]) simp
qed

text \<open>
  C18. Queued transfers are committed.  On a node that produces blocks alone, if the pool is empty and
  nothing fails, and the queue holds at most 64 transactions that fit the pool, have different
  ids and apply one after the other to the committed state, then one round of the loop drains
  the queue, appends one block with exactly these transactions in this order, brings the state to
  the result of applying them, leaves the pool empty, and a restart finds the block on disk.
\<close>

theorem queue_is_committed:
  assumes "digest_format K" "node_inv K (rs_node s)" "\<not> poisoned (ni_store (rs_node s))"
    and "rc_peers config = []" "sealing_allowed s" "clone_fifo (ni_pool (rs_node s)) = []"
    and "rs_pending s = Some data" "queue_reads (Some data) txs" "txs \<noteq> []" "length txs \<le> 64"
    and "length txs \<le> mp_capacity (ni_pool (rs_node s))" "distinct (map tx_hash txs)"
    and "run_steps (apply_transaction K) (bc_state (ni_chain (rs_node s))) txs = (final, Inr ())"
    and "unat (timestamp_unix (last (bc_blocks (ni_chain (rs_node s))))) +
      unat (min_block_interval_secs (bc_consensus (ni_chain (rs_node s)))) \<le> unat (tk_now env)"
    and "unat (bc_height (ni_chain (rs_node s))) + 1 < 2 ^ 64" "calm_queue (tk_queue env)" "calm_disk (tk_disk env)"
  shows "\<exists>s' b. run_tick K T env config s = Some (s', Inr ()) \<and> transactions b = txs \<and>
    bc_blocks (ni_chain (rs_node s')) = bc_blocks (ni_chain (rs_node s)) @ [b] \<and>
    bc_state (ni_chain (rs_node s')) = final \<and> clone_fifo (ni_pool (rs_node s')) = [] \<and> rs_pending s' = Some [] \<and>
    load_blockchain_from_disk K rw (Some (bs_file (ni_store (rs_node s')))) (ni_genesis (rs_node s)) =
     (Some (bs_file (ni_store (rs_node s'))), Inr ((ni_chain (rs_node s'))\<lparr>bc_consensus := default_consensus_params\<rparr>, False))"
proof -
  let ?n = "rs_node s"
  from assms(2) have inv: "mempool_inv (ni_pool ?n)" "chain_inv K (ni_genesis ?n) (ni_chain ?n)" "pool_ok (ni_pool ?n)"
    by (simp_all add: node_inv_def pool_ok_def chain_ok_def)
  from drain_everything [OF inv(1), of txs K] obtain pool where
    d: "drain_loop K (ni_pool ?n) txs = (pool, [])" "clone_fifo pool = txs"
    using assms(6,11,12) run_validates [OF assms(13)] run_distinct_slots [OF assms(13)] by auto
  have dr: "drain_pending_file K (tk_queue env) (Some data) (ni_pool ?n) = Some ((Some [], pool), Inr ())"
    using calm_drain [OF assms(16) inv(1) assms(8) d(1)] by blast
  with drain_pool_ok [OF inv(3), of K "tk_queue env" "Some data"] have pool: "pool_ok pool" "mempool_inv pool"
    by (auto simp: pool_ok_def)
  define s1 where "s1 = s\<lparr>rs_pending := Some [], rs_node := ?n\<lparr>ni_pool := pool\<rparr>\<rparr>"
  have intake: "tick_intake K env config s = Some s1" using dr assms(4,7) by (simp add: tick_intake_def s1_def Let_def)
  have n1: "node_inv K (rs_node s1)" "bc_blocks (ni_chain (rs_node s1)) = bc_blocks (ni_chain ?n)"
    using assms(2) pool by (simp_all add: s1_def node_inv_def)
  from seal_step_commits [OF assms(1) n1(1), of "tk_disk env" final "tk_now env"] obtain m b where
    m: "seal_step K (tk_disk env) (tk_now env) True (rs_node s1) = Some (m, Inr (Some b))" "transactions b = txs"
      "bc_blocks (ni_chain m) = bc_blocks (ni_chain ?n) @ [b]" "bc_state (ni_chain m) = final" "clone_fifo (ni_pool m) = []"
      "ni_genesis m = ni_genesis ?n" "\<not> poisoned (ni_store m)"
    using assms(3,9,10,13,14,15,17) d(2) by (auto simp: s1_def)
  have "run_tick K T env config s = Some (s1\<lparr>rs_node := m\<rparr>, Inr ())"
    using assms(3,4,5) intake m(1) by (simp add: run_tick_def tick_sync_def s1_def)
  moreover have "node_inv K m"
    using seal_step_outcome [OF assms(1) n1(1), of "tk_disk env" "tk_now env" True] m(1) by auto
  ultimately show ?thesis
    using m reload_ignores_drift [of K "ni_genesis m" "ni_chain m" "ni_store m" rw]
    by (intro exI [of _ "s1\<lparr>rs_node := m\<rparr>"] exI [of _ b]) (simp add: s1_def node_inv_def)
qed

end
