(* ===== verification/Catch_Up.thy ===== *)
theory Catch_Up
  imports Sync
begin

text \<open>
  Two nodes talking to each other: the server runs \<open>peer_connection_loop\<close>, the client
  \<open>sync_from_peer_with_clock\<close>, and what one writes is what the other reads.  If the client's chain is
  a prefix of the server's it ends with the server's chain and state.
\<close>

section \<open>What a node serves\<close>

text \<open>The bytes that a node sends in answer to the bytes of one connection, which then ends.\<close>

definition closed :: io_error where "closed = Io_Error UnexpectedEof ''failed to fill whole buffer''"

definition over :: "bytes \<Rightarrow> conn" where
  "over input = \<lparr>c_in = input, c_end = closed, c_out = [], c_room = None, c_werr = closed\<rparr>"

definition served_by :: "crypto \<Rightarrow> session_env \<Rightarrow> inbound_peer_policy \<Rightarrow> node_inner \<Rightarrow> bytes \<Rightarrow> bytes" where
  "served_by K env policy p input =
    (case peer_connection_loop K env policy (over input) p of
       None \<Rightarrow> []
     | Some ((c, _), _) \<Rightarrow> c_out c)"

text \<open>
  A hello and a request for blocks; \<open>pull_writes\<close> shows that this is what \<open>pull_blocks_from_peer\<close> sends.
\<close>

definition request :: "crypto \<Rightarrow> genesis \<Rightarrow> u64 \<Rightarrow> u64 \<Rightarrow> bytes" where
  "request K g advisory start =
    (case encode_session_payload K OP_SESSION_HELLO g advisory of
       Inl _ \<Rightarrow> []
     | Inr hello \<Rightarrow> framed hello @ framed (wire_encode_get_blocks start))"

lemma decode_get_blocks: "predecode_inbound_app_payload (wire_encode_get_blocks start) = Inr (Pre_GetBlocks start)"
  by (simp add: predecode_inbound_app_payload_def wire_encode_get_blocks_def op_defs)

lemma get_blocks_length: "length (wire_encode_get_blocks start) \<le> unat MAX_WIRE_FRAME_BYTES"
  by (simp add: wire_encode_get_blocks_def max_wire_nat)

definition batch_of :: "node_inner \<Rightarrow> u64 \<Rightarrow> block list" where
  "batch_of p start = take 64 (drop (unat start) (bc_blocks (ni_chain p)))"

lemma serve_batch:
  assumes "node_inv K p" "\<not> poisoned (ni_store p)" "length (batch_image (batch_of p start)) \<le> unat MAX_WIRE_FRAME_BYTES"
  shows "apply_predecoded K io policy p s (Pre_GetBlocks start) now = Some ((p, s), Inr (Some (batch_image (batch_of p start))))"
proof -
  have ci: "chain_inv K (ni_genesis p) (ni_chain p)" using assms(1) by (simp add: node_inv_def chain_ok_def)
  have slice: "blocks_from_height_limited (ni_chain p) start 64 = batch_of p start"
    using blocks_from_height_slice [OF ci] by (simp add: batch_of_def)
  have "\<forall>b \<in> set (take 64 (batch_of p start)). rust_block b \<and> block_fits b \<and> length (block_image b) < 2 ^ 32"
    using node_blocks_wire [OF assms(1)] by (auto simp: batch_of_def dest!: in_set_takeD in_set_dropD)
  from encode_batch [OF this] assms(3) have "wire_encode_blocks_response (batch_of p start) = Some (Inr (batch_image (batch_of p start)))"
    by (simp add: batch_of_def)
  with assms(2) slice show ?thesis by (simp add: apply_predecoded_def MAX_BLOCKS_PER_BATCH_def)
qed

lemma last_round:
  assumes "c_in c = []" "c_end c = closed" "frames_seen s = 1"
  shows "\<exists>s'. peer_loop K env policy (c, n, s) = Some ((c, n, s'), Inr ())"
proof -
  have "read_framed c = (c\<lparr>c_in := []\<rparr>, Inl closed)" using assms by (simp add: read_framed_def conn_read_exact_def)
  moreover have "c\<lparr>c_in := []\<rparr> = c" using assms(1) by (cases c) simp
  moreover have "\<not> saturating_add (frames_seen s) 1 > MAX_FRAMES_PER_INBOUND_SESSION"
    by (simp add: assms(3) saturating_add_def MAX_FRAMES_PER_INBOUND_SESSION_def)
  ultimately show ?thesis by (subst peer_loop.simps) (simp add: session_round_def Let_def closed_def)
qed

lemma commitment_exists:
  assumes "node_inv K p"
  shows "\<exists>c. state_commitment_hex K (ni_genesis p) = Inr c"
proof -
  from assms obtain s0 where "state_from_genesis (ni_genesis p) = Inr s0"
    by (auto simp: node_inv_def chain_ok_def chain_inv_def recompute_eq_run)
  then show ?thesis by (auto simp: state_from_genesis_def state_commitment_hex_def state_commitment_raw32_def and_then_Inr_iff)
qed

lemma serve_request:
  assumes "digest_format K" "node_inv K p" "\<not> poisoned (ni_store p)" "max_app_frames_per_session policy \<noteq> 0"
    and "\<forall>i n. env_others env i n = n" "length (batch_image (batch_of p start)) \<le> unat MAX_WIRE_FRAME_BYTES"
  shows "\<exists>ack. encode_session_payload K OP_SESSION_HELLO_ACK (ni_genesis p) (bc_height (ni_chain p)) = Inr ack \<and>
    served_by K env policy p (request K (ni_genesis p) advisory start) = framed ack @ framed (batch_image (batch_of p start))"
proof -
  obtain c where c: "state_commitment_hex K (ni_genesis p) = Inr c" using commitment_exists [OF assms(2)] ..
  let ?get = "framed (wire_encode_get_blocks start)" and ?batch = "batch_image (batch_of p start)"
  obtain hello ack where h: "encode_session_payload K OP_SESSION_HELLO (ni_genesis p) advisory = Inr hello"
    "encode_session_payload K OP_SESSION_HELLO_ACK (ni_genesis p) (bc_height (ni_chain p)) = Inr ack"
    using encode_session_image [OF assms(1) c] by blast
  let ?c0 = "over (framed hello @ ?get)"
  from handshake_outcome [OF assms(1) c c, of ?c0 ?c0 advisory "bc_height (ni_chain p)" ?get] h
  have hs: "handshake_responder K ?c0 (ni_genesis p) (bc_height (ni_chain p)) = (?c0\<lparr>c_in := ?get, c_out := framed ack\<rparr>, Inr ())"
    by (simp add: over_def)
  let ?c1 = "?c0\<lparr>c_in := ?get, c_out := framed ack\<rparr>" and ?s1 = "session_start\<lparr>frames_seen := 1, app_frames := 1\<rparr>"
  let ?c2 = "?c0\<lparr>c_in := [], c_out := framed ack @ framed ?batch\<rparr>"
  have rd: "read_framed ?c1 = (?c1\<lparr>c_in := []\<rparr>, Inr (wire_encode_get_blocks start))"
    using get_blocks_length [of start] by (simp add: read_framed_ok)
  have wr: "write_framed (?c1\<lparr>c_in := []\<rparr>) ?batch = (?c2, Inr ())"
    using assms(6) by (subst write_framed_unlimited) (simp_all add: over_def)
  have hf: "handle_frame K env policy p ?s1 (wire_encode_get_blocks start) = Some ((p, ?s1), Inr (Some ?batch))"
    using serve_batch [OF assms(2,3,6)] assms(5) by (simp add: handle_frame_def decode_get_blocks Let_def)
  have "session_round K env policy (?c1, p, session_start) = Some (Again (?c2, p, ?s1))"
    using rd hf wr assms(4)
    by (simp add: session_round_def session_start_def Let_def saturating_add_def checked_add_def MAX_FRAMES_PER_INBOUND_SESSION_def
        finish_round_def)
  moreover obtain s' where "peer_loop K env policy (?c2, p, ?s1) = Some ((?c2, p, s'), Inr ())"
    using last_round [of ?c2 ?s1 K env policy p] by (auto simp: over_def)
  ultimately have "peer_loop K env policy (?c1, p, session_start) = Some ((?c2, p, s'), Inr ())" by (subst peer_loop.simps) simp
  with hs assms(3) have "peer_connection_loop K env policy ?c0 p = Some ((?c2, p, s'), Inr ())"
    by (simp add: peer_connection_loop_def peer_session_setup_def)
  with h show ?thesis by (auto simp: served_by_def request_def)
qed

section \<open>Two nodes on one connection\<close>

text \<open>
  The other end of the connection \<open>c\<close> is node \<open>p\<close>: the bytes that arrive are those that \<open>p\<close> sends
  in answer to the bytes that the client, at height \<open>h\<close>, writes to this very connection.
\<close>

definition answers :: "crypto \<Rightarrow> session_env \<Rightarrow> inbound_peer_policy \<Rightarrow> node_inner \<Rightarrow> string \<Rightarrow> genesis \<Rightarrow> u64 \<Rightarrow> conn \<Rightarrow> bool" where
  "answers K senv policy p peer g h c \<longleftrightarrow> c_out c = [] \<and> c_room c = None \<and>
     (\<exists>c'. fst (pull_blocks_from_peer K (Inr c) peer (saturating_add h 1) g h) = Some c' \<and>
        c_in c = served_by K senv policy p (c_out c'))"

definition dials :: "crypto \<Rightarrow> session_env \<Rightarrow> inbound_peer_policy \<Rightarrow> node_inner \<Rightarrow> string \<Rightarrow> genesis \<Rightarrow> sync_env \<Rightarrow> bool" where
  "dials K senv policy p peer g env \<longleftrightarrow>
     (\<forall>i h. \<exists>c. sy_dial env i (saturating_add h 1) = Inr c \<and> answers K senv policy p peer g h c)"

text \<open>Reading leaves the output alone, writing and whole sessions only add to it.\<close>

lemma read_framed_out: "read_framed c = (c', r) \<Longrightarrow> c_out c' = c_out c"
  by (auto simp: read_framed_def then_do_def conn_read_exact_def Let_def split: if_splits prod.splits sum.splits)

lemma write_framed_out: "write_framed c p = (c', r) \<Longrightarrow> \<exists>out. c_out c' = c_out c @ out"
  by (auto simp: write_framed_def then_do_def lift_io_def conn_write_all_def split: if_splits prod.splits sum.splits option.splits)

fun round_out :: "(conn \<times> node_inner \<times> session) round \<Rightarrow> bytes" where
  "round_out (Again (c, n, s)) = c_out c" | "round_out (Return (c, n, s) r) = c_out c"

lemma finish_round_out: "\<exists>out. round_out (finish_round policy c n s r) = c_out c @ out"
  using write_framed_out [of c]
  by (auto simp: finish_round_def Let_def split: sum.split option.split prod.split peer_frame_error.split)

lemma session_round_out:
  assumes "session_round K env policy (c, n, s) = Some rd"
  shows "\<exists>out. round_out rd = c_out c @ out"
proof -
  obtain c1 r where rd: "read_framed c = (c1, r)" by fastforce
  from assms rd have "round_out rd = c_out c \<or> round_out rd = c_out c1 \<or> (\<exists>n' s' o'. rd = finish_round policy c1 n' s' o')"
    by (auto simp: session_round_def Let_def split: if_splits sum.splits option.splits)
  with read_framed_out [OF rd] finish_round_out [of policy c1] show ?thesis by (metis append_Nil2)
qed

lemma peer_loop_out:
  "peer_loop K env policy (c, n, s) = Some ((c', n', s'), r) \<Longrightarrow> \<exists>out. c_out c' = c_out c @ out"
proof (induction "8192 - unat (frames_seen s)" arbitrary: c n s rule: less_induct)
  case less
  obtain rd where rd: "session_round K env policy (c, n, s) = Some rd"
    using less.prems by (subst (asm) peer_loop.simps) (auto split: option.splits)
  from session_round_out [OF rd] obtain out where out: "round_out rd = c_out c @ out" ..
  show ?case
  proof (cases rd)
    case (Again st)
    obtain c1 n1 s1 where st: "st = (c1, n1, s1)" by (metis prod_cases3)
    with rd Again less.prems have pl: "peer_loop K env policy (c1, n1, s1) = Some ((c', n', s'), r)" by (subst (asm) peer_loop.simps) simp
    have "8192 - unat (frames_seen s1) < 8192 - unat (frames_seen s)"
      using session_round_again [OF rd [unfolded Again st]] by auto
    from less.hyps [OF this pl] out Again st show ?thesis by auto
  next
    case (Return st r')
    with rd less.prems out show ?thesis by (subst (asm) peer_loop.simps) auto
  qed
qed

definition serves :: "crypto \<Rightarrow> session_env \<Rightarrow> inbound_peer_policy \<Rightarrow> node_inner \<Rightarrow> bool" where
  "serves K senv policy p \<longleftrightarrow> node_inv K p \<and> \<not> poisoned (ni_store p) \<and> max_app_frames_per_session policy \<noteq> 0 \<and>
     (\<forall>i n. env_others senv i n = n) \<and> length (bc_blocks (ni_chain p)) < 2 ^ 64 \<and>
     (\<forall>start. length (batch_image (batch_of p start)) \<le> unat MAX_WIRE_FRAME_BYTES)"

lemma batch_sendable:
  assumes "node_inv K p" "length (batch_image (batch_of p start)) \<le> unat MAX_WIRE_FRAME_BYTES"
  shows "wire_decode_blocks_response (batch_image (batch_of p start)) = Inr (batch_of p start)"
proof -
  have "length (block_image b) \<le> length (batch_image (batch_of p start))" if "b \<in> set (batch_of p start)" for b
    using that by (auto simp: batch_image_def framed_def dest!: split_list)
  then have "sendable b" if "b \<in> set (batch_of p start)" for b
    using that node_blocks_wire [OF assms(1), of b] assms(2)
    by (fastforce simp: sendable_def batch_of_def dest!: in_set_takeD in_set_dropD)
  then show ?thesis by (simp add: decode_batch_ok batch_of_def)
qed

section \<open>What the client makes of it\<close>

text \<open>Whatever arrives, the client begins with its hello; and the server answers a hello with its own.\<close>

lemma pull_begins:
  assumes "encode_session_payload K OP_SESSION_HELLO g h = Inr hello" "length hello \<le> unat MAX_WIRE_FRAME_BYTES"
    and "c_out c = []" "c_room c = None" "fst (pull_blocks_from_peer K (Inr c) peer start g h) = Some c'"
  shows "\<exists>rest. c_out c' = framed hello @ rest"
proof -
  let ?c = "c\<lparr>c_out := framed hello\<rparr>"
  have wr: "write_framed c hello = (?c, Inr ())" using write_framed_unlimited [OF assms(4,2)] assms(3) by simp
  obtain c1 r where rd: "read_framed ?c = (c1, r)" by fastforce
  obtain q where hs: "handshake_initiator K c g h = (c1, q)"
    using assms(1) wr rd by (cases r) (auto simp: handshake_initiator_def then_do_def lift_io_def)
  obtain c2 r2 where wr2: "write_framed c1 (wire_encode_get_blocks start) = (c2, r2)" by fastforce
  obtain c3 r3 where rd2: "read_framed c2 = (c3, r3)" by fastforce
  have "c' = c1 \<or> c' = c2 \<or> c' = c3" using assms(5) hs wr2 rd2
    by (auto simp: pull_blocks_from_peer_def split: sum.splits)
  moreover have "c_out c1 = framed hello" using read_framed_out [OF rd] by simp
  ultimately show ?thesis using write_framed_out [OF wr2] read_framed_out [OF rd2] by auto
qed

lemma served_begins:
  assumes "digest_format K" "node_inv K p" "\<not> poisoned (ni_store p)" "\<forall>i n. env_others env i n = n"
    and "encode_session_payload K OP_SESSION_HELLO (ni_genesis p) h = Inr hello"
    and "encode_session_payload K OP_SESSION_HELLO_ACK (ni_genesis p) (bc_height (ni_chain p)) = Inr ack"
  shows "\<exists>out. served_by K env policy p (framed hello @ rest) = framed ack @ out"
proof -
  obtain c where c: "state_commitment_hex K (ni_genesis p) = Inr c" using commitment_exists [OF assms(2)] ..
  let ?c0 = "over (framed hello @ rest)" and ?c1 = "(over (framed hello @ rest))\<lparr>c_in := rest, c_out := framed ack\<rparr>"
  from handshake_outcome [OF assms(1) c c, of ?c0 ?c0 h "bc_height (ni_chain p)" rest] assms(5,6)
  have hs: "handshake_responder K ?c0 (ni_genesis p) (bc_height (ni_chain p)) = (?c1, Inr ())" by (simp add: over_def)
  from peer_loop_inv [OF assms(1) _ assms(2), of env policy ?c1 session_start] assms(4) obtain c' n' s' r where
    pl: "peer_loop K env policy (?c1, p, session_start) = Some ((c', n', s'), r)" by auto
  from peer_loop_out [OF pl] hs pl assms(3) show ?thesis
    by (auto simp: served_by_def peer_connection_loop_def peer_session_setup_def)
qed

lemma pull_writes:
  assumes "digest_format K" "state_commitment_hex K g = Inr hex"
    and "encode_session_payload K OP_SESSION_HELLO_ACK g a = Inr ack" "c_in c = framed ack @ r" "c_out c = []" "c_room c = None"
  shows "\<exists>c1 c'. handshake_initiator K c g h = (c1, Inr ()) \<and> c_in c1 = r \<and>
    write_framed c1 (wire_encode_get_blocks start) = (c1\<lparr>c_out := request K g h start\<rparr>, Inr ()) \<and>
    fst (pull_blocks_from_peer K (Inr c) peer start g h) = Some c' \<and> c_out c' = request K g h start"
proof -
  from handshake_outcome [OF assms(1,2,2) assms(6,6), of h a r] assms(3-5) obtain hello where
    hello: "encode_session_payload K OP_SESSION_HELLO g h = Inr hello"
    and hs: "handshake_initiator K c g h = (c\<lparr>c_in := r, c_out := framed hello\<rparr>, Inr ())" by auto
  let ?c1 = "c\<lparr>c_in := r, c_out := framed hello\<rparr>"
  have wr: "write_framed ?c1 (wire_encode_get_blocks start) = (?c1\<lparr>c_out := request K g h start\<rparr>, Inr ())"
    using write_framed_unlimited [of ?c1 "wire_encode_get_blocks start"] get_blocks_length assms(6) hello by (simp add: request_def)
  obtain c3 q where rd: "read_framed (?c1\<lparr>c_out := request K g h start\<rparr>) = (c3, q)" by fastforce
  have "fst (pull_blocks_from_peer K (Inr c) peer start g h) = Some c3"
    using hs wr rd by (cases q) (simp_all add: pull_blocks_from_peer_def)
  with hs wr read_framed_out [OF rd] show ?thesis by auto
qed

text \<open>So what passes over the connection is determined.\<close>

lemma answers_request:
  assumes "digest_format K" "serves K senv policy p"
  shows "answers K senv policy p peer (ni_genesis p) h c \<longleftrightarrow> c_out c = [] \<and> c_room c = None \<and>
    c_in c = served_by K senv policy p (request K (ni_genesis p) h (saturating_add h 1))"
    (is "_ \<longleftrightarrow> _ \<and> _ \<and> c_in c = ?served")
proof -
  let ?g = "ni_genesis p" and ?start = "saturating_add h 1"
  from assms(2) have p: "node_inv K p" "\<not> poisoned (ni_store p)" "max_app_frames_per_session policy \<noteq> 0"
    "\<forall>i n. env_others senv i n = n" "length (batch_image (batch_of p ?start)) \<le> unat MAX_WIRE_FRAME_BYTES"
    by (auto simp: serves_def)
  obtain hex where hex: "state_commitment_hex K ?g = Inr hex" using commitment_exists [OF p(1)] ..
  from serve_request [OF assms(1) p, of h] obtain ack where
    ack: "encode_session_payload K OP_SESSION_HELLO_ACK ?g (bc_height (ni_chain p)) = Inr ack"
      "?served = framed ack @ framed (batch_image (batch_of p ?start))" by blast
  obtain hello where hello: "encode_session_payload K OP_SESSION_HELLO ?g h = Inr hello" "length hello \<le> unat MAX_WIRE_FRAME_BYTES"
    using encode_session_image [OF assms(1) hex] commitment_string [OF assms(1) hex] by (simp add: session_image_length max_wire_nat)
  show ?thesis
  proof
    assume "answers K senv policy p peer ?g h c"
    then obtain c' where c: "c_out c = []" "c_room c = None" "fst (pull_blocks_from_peer K (Inr c) peer ?start ?g h) = Some c'"
      "c_in c = served_by K senv policy p (c_out c')" by (auto simp: answers_def)
    from pull_begins [OF hello c(1-3)] served_begins [OF assms(1) p(1,2,4) hello(1) ack(1)] c(4) obtain out where
      "c_in c = framed ack @ out" by metis
    from pull_writes [OF assms(1) hex ack(1) this c(1,2), of h ?start peer] c show "c_out c = [] \<and> c_room c = None \<and> c_in c = ?served" by auto
  next
    assume c: "c_out c = [] \<and> c_room c = None \<and> c_in c = ?served"
    with ack(2) pull_writes [OF assms(1) hex ack(1), of c "framed (batch_image (batch_of p ?start))" h ?start peer]
    show "answers K senv policy p peer ?g h c" by (auto simp: answers_def)
  qed
qed

lemma pull_from_node:
  assumes "digest_format K" "serves K senv policy p" "dials K senv policy p peer (ni_genesis p) env" "start = saturating_add h 1"
  shows "snd (pull_blocks_from_peer K (sy_dial env i start) peer start (ni_genesis p) h) =
    Inr (batch_of p start, word_of_nat (length (batch_image (batch_of p start))))"
proof -
  let ?batch = "batch_image (batch_of p start)"
  from assms(2) have p: "node_inv K p" "\<not> poisoned (ni_store p)" "max_app_frames_per_session policy \<noteq> 0"
    "\<forall>i n. env_others senv i n = n" "length ?batch \<le> unat MAX_WIRE_FRAME_BYTES" by (auto simp: serves_def)
  obtain hex where hex: "state_commitment_hex K (ni_genesis p) = Inr hex" using commitment_exists [OF p(1)] ..
  from serve_request [OF assms(1) p, of h] obtain ack where
    ack: "encode_session_payload K OP_SESSION_HELLO_ACK (ni_genesis p) (bc_height (ni_chain p)) = Inr ack"
      "served_by K senv policy p (request K (ni_genesis p) h start) = framed ack @ framed ?batch" by blast
  from assms(3,4) obtain c where c: "sy_dial env i start = Inr c" "answers K senv policy p peer (ni_genesis p) h c"
    by (auto simp: dials_def)
  then have io: "c_in c = framed ack @ framed ?batch" "c_out c = []" "c_room c = None"
    using answers_request [OF assms(1,2)] ack(2) assms(4) by auto
  from pull_writes [OF assms(1) hex ack(1) io, of h start peer] obtain c1 where
    c1: "handshake_initiator K c (ni_genesis p) h = (c1, Inr ())" "c_in c1 = framed ?batch"
      "write_framed c1 (wire_encode_get_blocks start) = (c1\<lparr>c_out := request K (ni_genesis p) h start\<rparr>, Inr ())" by blast
  have "read_framed (c1\<lparr>c_out := out\<rparr>) = (c1\<lparr>c_out := out, c_in := []\<rparr>, Inr ?batch)" for out
    using p(5) c1(2) by (simp add: read_framed_ok)
  with c(1) c1 batch_sendable [OF p(1,5)] show ?thesis by (simp add: pull_ok)
qed

section \<open>Appending what a longer chain has\<close>

definition behind :: "crypto \<Rightarrow> node_inner \<Rightarrow> node_inner \<Rightarrow> block list \<Rightarrow> bool" where
  "behind K p n rest \<longleftrightarrow> node_inv K n \<and> \<not> poisoned (ni_store n) \<and> ni_genesis n = ni_genesis p \<and>
     bc_blocks (ni_chain p) = bc_blocks (ni_chain n) @ rest"

lemma next_block_appends:
  assumes "chain_ok K g bc" "chain_ok K g bc2" "bc_blocks bc2 = bc_blocks bc @ b # rest"
  shows "\<exists>bc'. append_block K bc b = (bc', Inr ())"
proof -
  let ?i = "min_block_interval_secs (bc_consensus bc)"
  have ne: "bc_blocks bc \<noteq> []" by (rule chain_ok_blocks [OF assms(1)])
  have tk: "take (Suc (length (bc_blocks bc))) (bc_blocks bc2) = bc_blocks bc @ [b]" by (simp add: assms(3))
  have i: "min_block_interval_secs (bc_consensus bc2) = ?i" using assms(1,2) by (simp add: chain_ok_def)
  have "chain_wf K ?i (bc_blocks bc2)" using assms(2) unfolding chain_ok_def chain_inv_def i by blast
  from chain_wf_take [OF this, of "Suc (length (bc_blocks bc))"] have link: "valid_link K ?i (last (bc_blocks bc)) b"
    using chain_wf_butlast ne unfolding tk by blast
  from assms(2) have "\<exists>s'. recompute_state_from_blocks K (bc_blocks bc @ [b]) g = Inr s'"
    using recompute_take [of K "bc_blocks bc2" g _ "Suc (length (bc_blocks bc))"] unfolding tk chain_ok_def chain_inv_def by blast
  then obtain s' where "apply_block_txs K (bc_state bc) b = (s', Inr ())"
    using assms(1) ne by (auto simp: recompute_snoc chain_ok_def chain_inv_def)
  with link ne show ?thesis by (simp add: append_block_ok)
qed

definition in_time :: "sync_env \<Rightarrow> node_inner \<Rightarrow> block list \<Rightarrow> bool" where
  "in_time env n bs \<longleftrightarrow> (\<forall>b \<in> set bs. \<forall>i. unat (timestamp_unix b) \<le>
     unat (sy_clock env i) + unat (max_future_drift_secs (bc_consensus (ni_chain n))))"

lemma append_next:
  assumes "digest_format K" "node_inv K p" "\<not> poisoned (ni_store p)" "behind K p n (b # rest)" "calm_disk io"
    and "unat (timestamp_unix b) \<le> unat now + unat (max_future_drift_secs (bc_consensus (ni_chain n)))"
  shows "\<exists>n'. append_network_block_persist K io n b now = Some (n', Inr ()) \<and> behind K p n' rest \<and>
    bc_consensus (ni_chain n') = bc_consensus (ni_chain n)"
proof -
  from assms(4) have n: "node_inv K n" "\<not> poisoned (ni_store n)" "ni_genesis n = ni_genesis p"
    and bs: "bc_blocks (ni_chain p) = bc_blocks (ni_chain n) @ b # rest" by (auto simp: behind_def)
  then have ok: "chain_ok K (ni_genesis p) (ni_chain n)" "chain_ok K (ni_genesis p) (ni_chain p)"
    using assms(2) by (auto simp: node_inv_def)
  from next_block_appends [OF ok bs] obtain chain where ap: "append_block K (ni_chain n) b = (chain, Inr ())" ..
  have "bc_blocks (ni_chain n) \<noteq> []" by (rule chain_ok_blocks [OF ok(1)])
  then have "b \<in> set (tl (bc_blocks (ni_chain p)))" using bs by simp
  moreover have "store_holds (ni_store p) (tl (bc_blocks (ni_chain p)))" using assms(2,3) by (simp add: node_inv_def)
  ultimately have sb: "storable b" by (simp add: store_holds_def)
  then have wb: "wire_block b" by (simp add: storable_def wire_block_def)
  from calm_append [OF assms(5) n(2) sb] obtain st where st: "store_append_block io (ni_store n) b = Some (st, Inr ())" ..
  let ?n = "n\<lparr>ni_chain := chain, ni_store := st\<rparr>"
  have inv: "node_inv K ?n \<and> \<not> poisoned st"
    by (rule append_and_store [OF assms(1) n(1) ap wb, of io]) (use st in auto)
  have tip: "bc_blocks chain = bc_blocks (ni_chain n) @ [b]" "bc_consensus chain = bc_consensus (ni_chain n)"
    using ap by (auto simp: append_block_ok)
  have "validate_block_vs_local_time (timestamp_unix b) now (max_future_drift_secs (bc_consensus (ni_chain n))) = Inr ()"
    using assms(6) by (simp add: local_time_ok_iff)
  then have "append_network_block_persist K io n b now = Some (?n, Inr ())"
    using n(2) ap st tip by (simp add: append_network_block_persist_def try_append_network_block_def Let_def)
  with inv tip n bs show ?thesis by (auto simp: behind_def)
qed

lemma append_batch_all:
  assumes "digest_format K" "node_inv K p" "\<not> poisoned (ni_store p)" "\<forall>i. calm_disk (sy_disk env i)"
  shows "behind K p n (bs @ rest) \<Longrightarrow> in_time env n bs \<Longrightarrow> appended + length bs < limit \<Longrightarrow>
    \<exists>n'. append_batch K env limit n appended bs = Some ((n', appended + length bs), Inr False) \<and> behind K p n' rest \<and>
      bc_consensus (ni_chain n') = bc_consensus (ni_chain n)"
proof (induction bs arbitrary: n appended)
  case (Cons b bs)
  from append_next [OF assms(1-3), of n b "bs @ rest" "sy_disk env appended" "sy_clock env appended"] Cons.prems(1,2) assms(4)
  obtain n1 where n1: "append_network_block_persist K (sy_disk env appended) n b (sy_clock env appended) = Some (n1, Inr ())"
    "behind K p n1 (bs @ rest)" "bc_consensus (ni_chain n1) = bc_consensus (ni_chain n)" by (auto simp: in_time_def)
  have "in_time env n1 bs" using Cons.prems(2) n1(3) by (simp add: in_time_def)
  from Cons.IH [OF n1(2) this, of "appended + 1"] Cons.prems(3) n1 show ?case by auto
qed simp

lemma batch_is_linear:
  assumes "chain_wf K i (pre @ bs @ post)" "pre \<noteq> []" "length (pre @ bs @ post) < 2 ^ 64"
  shows "validate_batch_from K j (saturating_add (height (last pre)) 1) (block_hash (last pre)) bs = Inr ()"
  using assms
proof (induction bs arbitrary: pre j)
  case (Cons b bs)
  have "chain_wf K i (take (Suc (length pre)) (pre @ (b # bs) @ post))" using Cons.prems(1) by (rule chain_wf_take) simp
  then have wf: "chain_wf K i (pre @ [b])" by simp
  from chain_wf_butlast [OF this Cons.prems(2)] have pre: "chain_wf K i pre" and link: "valid_link K i (last pre) b" by blast+
  have "unat (height (last pre)) + 1 < 2 ^ 64"
    using chain_wf_last_height [OF pre] Cons.prems(2,3) by (cases pre) auto
  then have "saturating_add (height (last pre)) 1 = height b" using link by (simp add: saturating_add_def valid_link_def)
  with Cons.IH [of "pre @ [b]" "j + 1"] Cons.prems link show ?case by (simp add: valid_link_def)
qed simp

section \<open>The rounds of a call\<close>

text \<open>The rounds with blocks and the bytes that are needed for them.\<close>

definition rounds_for :: "block list \<Rightarrow> nat" where
  "rounds_for bs = (length bs + 63) div 64"

definition bytes_for :: "block list \<Rightarrow> nat" where
  "bytes_for bs = 5 * rounds_for bs + (\<Sum>b\<leftarrow>bs. 4 + length (block_image b))"

lemma rounds_for_step: "rest \<noteq> [] \<Longrightarrow> rounds_for rest = Suc (rounds_for (drop 64 rest))"
  by (cases "length rest \<le> 64") (auto simp: rounds_for_def Suc_le_eq div_eq_0_iff le_div_geq)

lemma batch_image_length: "length (batch_image bs) = 5 + (\<Sum>b\<leftarrow>bs. 4 + length (block_image b))"
  by (simp add: batch_image_def length_concat framed_def o_def add.commute)

lemma bytes_for_step:
  assumes "rest \<noteq> []"
  shows "bytes_for rest = length (batch_image (take 64 rest)) + bytes_for (drop 64 rest)"
proof -
  let ?f = "\<lambda>b. 4 + length (block_image b)"
  have "sum_list (map ?f rest) = sum_list (map ?f (take 64 rest)) + sum_list (map ?f (drop 64 rest))"
    by (metis append_take_drop_id map_append sum_list_append)
  then show ?thesis by (simp add: bytes_for_def rounds_for_step [OF assms] batch_image_length)
qed

text \<open>What is left of the budget is enough for the blocks that are missing.\<close>

definition affordable :: "sync_work_budget \<Rightarrow> sync_state \<Rightarrow> block list \<Rightarrow> bool" where
  "affordable budget s rest \<longleftrightarrow> sy_total s + length rest < unat (max_blocks_per_call budget) \<and>
     unat (sy_rounds s) + rounds_for rest < unat (max_rounds_per_call budget) \<and>
     unat (sy_wire_bytes s) + bytes_for rest < unat (max_wire_bytes_per_call budget)"

lemma behind_pull:
  assumes "digest_format K" "serves K senv policy p" "dials K senv policy p peer (ni_genesis p) env" "behind K p n rest"
  shows "snd (pull_blocks_from_peer K (sy_dial env i (saturating_add (bc_height (ni_chain n)) 1)) peer
      (saturating_add (bc_height (ni_chain n)) 1) (ni_genesis n) (bc_height (ni_chain n))) =
    Inr (take 64 rest, word_of_nat (length (batch_image (take 64 rest))))"
proof -
  let ?start = "saturating_add (bc_height (ni_chain n)) 1"
  from assms(4) have n: "chain_ok K (ni_genesis n) (ni_chain n)" "ni_genesis n = ni_genesis p"
    "bc_blocks (ni_chain p) = bc_blocks (ni_chain n) @ rest" by (auto simp: behind_def node_inv_def)
  have ne: "bc_blocks (ni_chain n) \<noteq> []" by (rule chain_ok_blocks [OF n(1)])
  have "length (bc_blocks (ni_chain n)) < 2 ^ 64" using assms(2) n(3) by (simp add: serves_def)
  moreover have h: "unat (bc_height (ni_chain n)) = length (bc_blocks (ni_chain n)) - 1"
    using n(1) ne chain_wf_last_height by (auto simp: chain_ok_def chain_inv_def bc_height_def chain_height_def)
  ultimately have "unat (bc_height (ni_chain n)) + 1 < 2 ^ 64" using ne by (cases "bc_blocks (ni_chain n)") auto
  then have start: "?start = bc_height (ni_chain n) + 1" "unat ?start = length (bc_blocks (ni_chain n))"
    using h ne by (simp_all add: saturating_add_def unat_plus_no_overflow)
  have "batch_of p ?start = take 64 rest" using start(2) n(3) by (simp add: batch_of_def)
  with pull_from_node [OF assms(1-3) refl, of i "bc_height (ni_chain n)"] n(2) show ?thesis by simp
qed

lemma round_progress:
  assumes "digest_format K" "serves K senv policy p" "dials K senv policy p peer (ni_genesis p) env" "\<forall>i. calm_disk (sy_disk env i)"
    and "behind K p (sy_node s) rest" "in_time env (sy_node s) rest" "affordable budget s rest"
  shows "if rest = [] then \<exists>s'. sync_one_round K env peer budget s = Some (Sync_Break s' False) \<and> sy_node s' = sy_node s \<and> sy_total s' = sy_total s
    else \<exists>s'. sync_one_round K env peer budget s = Some (Sync_Again s') \<and> behind K p (sy_node s') (drop 64 rest) \<and>
      in_time env (sy_node s') (drop 64 rest) \<and> affordable budget s' (drop 64 rest) \<and>
      sy_total s' + length (drop 64 rest) = sy_total s + length rest"
proof -
  define bs where "bs = take 64 rest"
  let ?n = "sy_node s" and ?len = "length (batch_image bs)"
  note pull = behind_pull [OF assms(1-3,5), of "unat (sy_rounds s)", folded bs_def]
  have split: "rest = bs @ drop 64 rest" by (simp add: bs_def)
  from assms(7) have lt: "sy_total s < unat (max_blocks_per_call budget)" "sy_rounds s < max_rounds_per_call budget"
    "sy_wire_bytes s < max_wire_bytes_per_call budget" by (auto simp: affordable_def word_less_nat_alt)
  show ?thesis
  proof (cases "rest = []")
    case True
    with pull lt show ?thesis by (simp add: bs_def sync_one_round_def Let_def not_le [symmetric])
  next
    case False
    have p: "node_inv K p" "\<not> poisoned (ni_store p)" "length (bc_blocks (ni_chain p)) < 2 ^ 64" using assms(2) by (auto simp: serves_def)
    have n: "bc_blocks (ni_chain ?n) \<noteq> []" "bc_blocks (ni_chain p) = bc_blocks (ni_chain ?n) @ bs @ drop 64 rest"
      using assms(5) chain_ok_blocks split by (auto simp: behind_def node_inv_def)
    have lin: "validate_linear_sync_batch K (ni_chain ?n) bs = Inr ()"
      using p n batch_is_linear [of K "min_block_interval_secs (bc_consensus (ni_chain p))" "bc_blocks (ni_chain ?n)" bs "drop 64 rest" 0]
      by (auto simp: validate_linear_sync_batch_def Let_def node_inv_def chain_ok_def chain_inv_def)
    have room: "unat (saturating_sub (max_blocks_per_call budget) (word_of_nat (sy_total s))) =
        unat (max_blocks_per_call budget) - sy_total s"
      using lt(1) unat_bound [of "max_blocks_per_call budget"] by (simp add: unat_saturating_sub unat_of_nat)
    have fit: "sy_total s + length bs < unat (max_blocks_per_call budget)" using assms(7) by (auto simp: affordable_def bs_def)
    from append_batch_all [OF assms(1) p(1,2) assms(4), of ?n bs "drop 64 rest" "sy_total s" "unat (max_blocks_per_call budget)"]
      assms(5,6) fit obtain m where
      m: "append_batch K env (unat (max_blocks_per_call budget)) ?n (sy_total s) bs = Some ((m, sy_total s + length bs), Inr False)"
      "behind K p m (drop 64 rest)" "bc_consensus (ni_chain m) = bc_consensus (ni_chain ?n)"
      by (auto simp: in_time_def bs_def dest: in_set_takeD)
    have one: "min (length bs) (unat (max_blocks_per_call budget) - sy_total s) = length bs" using fit by linarith
    have wire: "unat (saturating_add (sy_wire_bytes s) (word_of_nat ?len)) = unat (sy_wire_bytes s) + ?len"
      "unat (sy_wire_bytes s) + ?len \<le> unat (max_wire_bytes_per_call budget)"
      using assms(7) bytes_for_step [OF False, folded bs_def] unat_bound [of "max_wire_bytes_per_call budget"]
      by (auto simp: unat_saturating_add unat_of_nat affordable_def)
    have rounds: "unat (saturating_add (sy_rounds s) 1) = Suc (unat (sy_rounds s))"
      using lt(2) unat_bound [of "max_rounds_per_call budget"] by (simp add: unat_saturating_add word_less_nat_alt)
    let ?s' = "s\<lparr>sy_rounds := saturating_add (sy_rounds s) 1, sy_wire_bytes := saturating_add (sy_wire_bytes s) (word_of_nat ?len),
      sy_node := m, sy_total := sy_total s + length bs\<rparr>"
    have "bs \<noteq> []" "\<not> saturating_add (sy_wire_bytes s) (word_of_nat ?len) > max_wire_bytes_per_call budget"
      using False wire by (simp_all add: bs_def word_less_nat_alt)
    then have "sync_one_round K env peer budget s = Some (Sync_Again ?s')"
      using pull lt lin room fit m(1) one by (simp add: sync_one_round_def Let_def not_le [symmetric])
    moreover have "affordable budget ?s' (drop 64 rest)"
      using assms(7) rounds wire bytes_for_step [OF False, folded bs_def] rounds_for_step [OF False] by (auto simp: affordable_def bs_def)
    moreover have "in_time env m (drop 64 rest)" using assms(6) m(3) by (auto simp: in_time_def dest: in_set_dropD)
    ultimately show ?thesis using False m(2) by (auto simp: bs_def)
  qed
qed

lemma rounds_catch_up:
  assumes "digest_format K" "serves K senv policy p" "dials K senv policy p peer (ni_genesis p) env" "\<forall>i. calm_disk (sy_disk env i)"
  shows "behind K p (sy_node s) rest \<Longrightarrow> in_time env (sy_node s) rest \<Longrightarrow> affordable budget s rest \<Longrightarrow>
    \<exists>s'. sync_rounds K env peer budget s = Some (s', Inr False) \<and> behind K p (sy_node s') [] \<and> sy_total s' = sy_total s + length rest"
proof (induction "length rest" arbitrary: s rest rule: less_induct)
  case less
  note step = round_progress [OF assms less.prems]
  show ?case
  proof (cases "rest = []")
    case True
    with step less.prems(1) show ?thesis by (subst sync_rounds.simps) auto
  next
    case False
    with step obtain s1 where s1: "sync_one_round K env peer budget s = Some (Sync_Again s1)" "behind K p (sy_node s1) (drop 64 rest)"
      "in_time env (sy_node s1) (drop 64 rest)" "affordable budget s1 (drop 64 rest)"
      "sy_total s1 + length (drop 64 rest) = sy_total s + length rest" by auto
    from less.hyps [OF _ s1(2-4)] False obtain s' where "sync_rounds K env peer budget s1 = Some (s', Inr False)"
      "behind K p (sy_node s') []" "sy_total s' = sy_total s1 + length (drop 64 rest)" by auto
    with s1 show ?thesis by (subst sync_rounds.simps) simp
  qed
qed

text \<open>
  C19. Catching up with an honest peer.  Let the peer be a node of the same genesis whose write path is
  intact and whose batches fit into one frame, let our chain be a prefix of its chain, and let every
  connection be one on which the peer answers, with its own session code, the bytes that we write.  If
  the work budget covers the missing blocks, their time stamps are within the accepted drift and no
  write of ours fails, one call of \<open>sync_from_peer\<close> succeeds, reports exactly the missing blocks and no
  budget stop, and leaves us with the peer's blocks and account state.
\<close>

theorem sync_catches_up:
  assumes "digest_format K" "serves K senv policy p" "dials K senv policy p peer (ni_genesis p) env" "\<forall>i. calm_disk (sy_disk env i)"
    and "behind K p n rest" "in_time env n rest"
    and "length rest < unat (max_blocks_per_call budget)" "rounds_for rest < unat (max_rounds_per_call budget)"
    and "bytes_for rest < unat (max_wire_bytes_per_call budget)"
  shows "\<exists>m. sync_from_peer_with_clock K env n peer budget =
      Some (m, Inr \<lparr>blocks_appended = length rest, stopped_due_to_budget = False\<rparr>) \<and>
    bc_blocks (ni_chain m) = bc_blocks (ni_chain p) \<and> bc_state (ni_chain m) = bc_state (ni_chain p) \<and> node_inv K m"
proof -
  let ?s = "\<lparr>sy_node = n, sy_total = 0, sy_rounds = 0, sy_wire_bytes = 0\<rparr>"
  have "affordable budget ?s rest" using assms(7-9) by (simp add: affordable_def)
  from rounds_catch_up [OF assms(1-4) _ _ this] assms(5,6) obtain s' where
    s': "sync_rounds K env peer budget ?s = Some (s', Inr False)" "behind K p (sy_node s') []" "sy_total s' = length rest" by auto
  let ?m = "if sy_total s' > 0 then fst (mempool_hygiene_after_ledger_advance K (sy_node s')) else sy_node s'"
  have v: "validate_sync_work_budget budget = Inr ()" using assms(7-9) by (auto simp: validate_sync_work_budget_def)
  have "\<not> poisoned (ni_store n)" using assms(5) by (simp add: behind_def)
  with v s' have run: "sync_from_peer_with_clock K env n peer budget =
      Some (?m, Inr \<lparr>blocks_appended = length rest, stopped_due_to_budget = False\<rparr>)"
    by (simp add: sync_from_peer_with_clock_def Let_def)
  have inv: "node_inv K (sy_node s')" "node_inv K p" using s'(2) assms(2) by (auto simp: behind_def serves_def)
  have m: "node_inv K ?m" "bc_blocks (ni_chain ?m) = bc_blocks (ni_chain p)" "ni_genesis ?m = ni_genesis p"
    using hygiene_node_inv [OF inv(1)] inv(1) s'(2) by (auto simp: behind_def)
  then have "bc_state (ni_chain ?m) = bc_state (ni_chain p)"
    using inv(2) unfolding node_inv_def chain_ok_def chain_inv_def by (metis sum.inject(2))
  with run m show ?thesis by blast
qed

end
