(* ===== verification/Examples_Run.thy ===== *)
theory Examples_Run
  imports Examples_Node Commit Catch_Up
begin

text \<open>The commands and the running node on the small network of \<open>Examples\<close>.\<close>

section \<open>A data directory\<close>

text \<open>A line format for documents with one allocation stands in for the \<open>toml\<close> package.\<close>

definition line_write :: "genesis \<Rightarrow> string + string" where
  "line_write g =
    (case allocations g of
       [a] \<Rightarrow> if CHR 10 \<in> set (alloc_address a) then Inl ''unsupported''
              else Inr (show_word (alloc_balance a) @ ''='' @ alloc_address a)
     | _ \<Rightarrow> Inl ''unsupported'')"

definition last_line :: "string \<Rightarrow> string" where
  "last_line raw = rev (takeWhile (\<lambda>c. c \<noteq> CHR 10) (rev raw))"

definition line_read :: "string \<Rightarrow> string + genesis" where
  "line_read raw =
    (let line = last_line raw; n = takeWhile (\<lambda>c. c \<noteq> CHR ''='') line in
     case parse_u64 n of
       None \<Rightarrow> Inl ''unsupported''
     | Some b \<Rightarrow> Inr \<lparr>allocations = [\<lparr>alloc_address = drop (Suc (length n)) line, alloc_balance = b\<rparr>]\<rparr>)"

definition tiny_toml :: toml_lib where
  "tiny_toml = \<lparr>genesis_rd = line_read, genesis_wr = line_write, bind_rd = plain_read, bind_wr = plain_write,
     book_rd = (\<lambda>_. Inr \<lparr>pbf_version = 1, pbf_peers = []\<rparr>), book_wr = (\<lambda>f. Inr ''version = 1'')\<rparr>"

definition calm_cmd :: cmd_env where
  "calm_cmd = \<lparr>ce_mkdir = None, ce_read_wallet = None, ce_write_wallet = Write_Ok, ce_read_genesis = None, ce_write_genesis = Write_Ok,
     ce_rewrite_chain = None, ce_bind = good_bind, ce_queue = good_queue, ce_rng = replicate 32 1, ce_now = 100\<rparr>"

definition empty_dir :: data_dir where
  "empty_dir = \<lparr>dd_wallet = None, dd_genesis = None, dd_bind = None, dd_chain = None, dd_pending = None, dd_peers = None,
     dd_other = (\<lambda>_. None)\<rparr>"

lemma word_digits: "c \<in> set (show_word w) \<Longrightarrow> c \<noteq> CHR 10 \<and> c \<noteq> CHR ''=''"
  using show_word_digits [of c w] by (auto simp: is_digit_def)

lemma last_line_append: "CHR 10 \<notin> set body \<Longrightarrow> last_line (xs @ CHR 10 # body) = body"
  by (simp add: last_line_def takeWhile_append)

lemma tiny_genesis_round_trip: "genesis_round_trip tiny_toml"
proof -
  have "line_read (genesis_comment hex @ body) = Inr g" if "line_write g = Inr body" for g body hex
  proof -
    from that obtain a where a: "allocations g = [a]" "CHR 10 \<notin> set (alloc_address a)"
      "body = show_word (alloc_balance a) @ ''='' @ alloc_address a"
      by (auto simp: line_write_def split: list.splits if_splits)
    then have "CHR 10 \<notin> set body" using word_digits [of "CHR 10" "alloc_balance a"] by auto
    then have "last_line (genesis_comment hex @ body) = body"
      using last_line_append [of body "butlast (genesis_comment hex)"] by (simp add: genesis_comment_def butlast_append)
    moreover have "takeWhile (\<lambda>c. c \<noteq> CHR ''='') body = show_word (alloc_balance a)"
      using word_digits a(3) by (auto simp: takeWhile_append)
    ultimately show ?thesis using a by (cases g) (simp add: line_read_def Let_def parse_shown)
  qed
  then show ?thesis by (simp add: genesis_round_trip_def tiny_toml_def)
qed

lemma tiny_bind_round_trip: "bind_round_trip (bind_rd tiny_toml) (bind_wr tiny_toml)"
  by (simp add: tiny_toml_def plain_round_trip)

lemma tiny_bind_writes: "\<forall>f. \<exists>body. bind_wr tiny_toml f = Inr body"
  by (simp add: tiny_toml_def plain_write_def)

lemma calm_cmd_calm: "calm calm_cmd"
  by (simp add: calm_def calm_cmd_def good_bind_def good_queue_def)

lemma init_ex_genesis: "init_genesis toy_crypto alice 100 = ex_genesis"
  by (simp add: init_genesis_def ex_genesis_def addr_a_def)

lemma ex_validate: "validate_decl ex_genesis = Inr ()"
  using addrs_valid by (simp add: validate_decl_ok ex_genesis_def alloc_pairs_def)

lemma calm_cmd_fields [simp]:
  "ce_mkdir calm_cmd = None" "ce_write_wallet calm_cmd = Write_Ok" "ce_write_genesis calm_cmd = Write_Ok" "length (ce_rng calm_cmd) = 32"
  by (simp_all add: calm_cmd_def)

lemma rng_alice: "generate_with_rng (ce_rng calm_cmd) = alice"
  by (simp add: calm_cmd_def generate_with_rng_def alice_def from_seed_def)

lemma init_ok: "\<exists>d1. cmd_init toy_crypto tiny_toml calm_cmd empty_dir (Some 100) = (d1, Inr ())"
proof -
  have "hex64 (str addr_a)"
    by (simp add: addr_a_def wallet_address_def address_from_public_key_def hash_bytes_hex64 toy_digest_format)
  then have "CHR 10 \<notin> set (str addr_a)" by (auto simp: hex64_def is_hex_digit_def is_digit_def dest!: bspec [of _ _ "CHR 10"])
  then have "\<exists>body. genesis_wr tiny_toml ex_genesis = Inr body"
    by (simp add: tiny_toml_def line_write_def ex_genesis_def)
  then obtain body where "genesis_wr tiny_toml ex_genesis = Inr body" ..
  with ex_commitment show ?thesis
    by (auto simp: cmd_init_def empty_dir_def Let_def rng_alice init_ex_genesis write_to_path_def ex_validate)
qed

section \<open>The commands\<close>

theorem send_witness:
  "queue_reads (dd_pending empty_dir) [] \<and>
   (\<exists>d' r. cmd_send toy_crypto tiny_toml calm_cmd empty_dir None (str addr_b) 5 1 = Some (d', r) \<and>
      dd_wallet d' = dd_wallet empty_dir)"
proof -
  have q: "queue_reads (dd_pending empty_dir) []"
    by (simp add: queue_reads_def empty_dir_def parse_pending_file_bytes.simps)
  from send_queues_one [OF toy_digest_format toy_signing_correct tiny_bind_round_trip addr_rust(2) q, of calm_cmd None 5 1] q
  show ?thesis by blast
qed

theorem init_send_witness:
  "\<exists>d1 d2 tx. cmd_init toy_crypto tiny_toml calm_cmd empty_dir (Some 100) = (d1, Inr ()) \<and>
     cmd_send toy_crypto tiny_toml calm_cmd d1 None (str addr_b) 5 1 = Some (d2, Inr ()) \<and>
     queue_reads (dd_pending d2) [tx] \<and> nonce tx = 0 \<and> amount tx = 5"
proof -
  from init_ok obtain d1 where d1: "cmd_init toy_crypto tiny_toml calm_cmd empty_dir (Some 100) = (d1, Inr ())" ..
  from init_then_send [OF toy_digest_format toy_signing_correct tiny_bind_round_trip tiny_genesis_round_trip tiny_bind_writes d1
      _ _ _ _ calm_cmd_calm addr_rust(2), of 5 1] addrs_valid(2) d1
  show ?thesis by (auto simp: empty_dir_def)
qed

section \<open>A running node\<close>

definition calm_run :: run_env where
  "calm_run = \<lparr>re_cmd = calm_cmd, re_lock = lock_free, re_open_chain = None, re_read_book = None, re_mkdir_book = None,
     re_write_book = Write_Ok, re_catch_up = (\<lambda>_. unreachable_peer), re_mkdir_book2 = None, re_write_book2 = Write_Ok,
     re_listen = None\<rparr>"

definition calm_tick :: tick_env where
  "calm_tick = \<lparr>tk_queue = good_queue, tk_catch_up = (\<lambda>_. unreachable_peer), tk_now = 100, tk_disk = good_disk, tk_now_sync = 100,
     tk_sync = (\<lambda>_. unreachable_peer), tk_book_clock = (\<lambda>_. 100), tk_mkdir_book = None, tk_write_book = Write_Ok,
     tk_now_gossip = 100, tk_dial = (\<lambda>_. Inl (Io_Error TimedOut ''timed out''))\<rparr>"

lemma run_defaults_silent: "run_defaults\<lparr>rc_listen := None\<rparr> = run_defaults"
  by (simp add: run_defaults_def)

lemma listening_node_starts:
  "\<exists>d1 d2 w n0 d3 s0. run_start toy_crypto tiny_toml calm_run (run_defaults\<lparr>rc_listen := a\<rparr>) d1 = (d2, Inr (w, n0)) \<and>
     run_begin toy_crypto tiny_toml calm_run (run_defaults\<lparr>rc_listen := a\<rparr>) d2 n0 = Some (d3, Inr s0) \<and> rs_node s0 = n0"
proof -
  from init_ok obtain d1 where d1: "cmd_init toy_crypto tiny_toml calm_cmd empty_dir (Some 100) = (d1, Inr ())" ..
  from cmd_init_ok [OF tiny_genesis_round_trip d1] have e: "dd_chain d1 = None" "dd_peers d1 = None" by (auto simp: empty_dir_def)
  from init_then_open [OF toy_digest_format tiny_genesis_round_trip tiny_bind_writes d1 _ _ _ calm_cmd_calm]
  obtain w bc b where op: "open_data_dir toy_crypto tiny_toml calm_cmd d1 None =
      (d1\<lparr>dd_bind := Some b\<rparr>, Inr (w, init_genesis toy_crypto w 100, bc))" by (auto simp: empty_dir_def)
  obtain st where st: "open_append None = Inr st" using open_fresh by blast
  have "\<exists>d2 n0. run_start toy_crypto tiny_toml calm_run (run_defaults\<lparr>rc_listen := a\<rparr>) d1 = (d2, Inr (w, n0))"
    using op st e
    by (simp add: run_start_def calm_run_def run_defaults_def load_or_empty_def book_save_def tiny_toml_def [THEN arg_cong [of _ _ book_wr]])
  moreover have "\<exists>d3 s0. run_begin toy_crypto tiny_toml calm_run (run_defaults\<lparr>rc_listen := a\<rparr>) d2 n0 = Some (d3, Inr s0) \<and> rs_node s0 = n0" for d2 n0
    by (cases a) (simp_all add: run_begin_def run_defaults_def calm_run_def)
  ultimately show ?thesis by metis
qed

lemmas node_starts = listening_node_starts [of None, simplified run_defaults_silent]

theorem running_node_witness:
  "\<exists>d1 d2 w n0 s0. run_start toy_crypto tiny_toml calm_run run_defaults d1 = (d2, Inr (w, n0)) \<and>
     run_tick toy_crypto tiny_toml calm_tick run_defaults s0 \<noteq> None \<and> grows n0 (rs_node s0)"
proof -
  from node_starts obtain d1 d2 w n0 d3 s0 where
    s: "run_start toy_crypto tiny_toml calm_run run_defaults d1 = (d2, Inr (w, n0))"
      "run_begin toy_crypto tiny_toml calm_run run_defaults d2 n0 = Some (d3, Inr s0)" by blast
  from running_node_safe [OF toy_digest_format s rtranclp.rtrancl_refl, of calm_tick "[]" alone default_inbound_policy session_start] s(1)
  show ?thesis by blast
qed

theorem restart_witness:
  "\<exists>d1 d2 w n0. run_start toy_crypto tiny_toml calm_run run_defaults d1 = (d2, Inr (w, n0)) \<and>
     snd (load_blockchain_from_disk toy_crypto None (Some (bs_file (ni_store n0))) (ni_genesis n0)) =
       Inr ((ni_chain n0)\<lparr>bc_consensus := default_consensus_params\<rparr>, False)"
proof -
  from node_starts obtain d1 d2 w n0 d3 s0 where
    s: "run_start toy_crypto tiny_toml calm_run run_defaults d1 = (d2, Inr (w, n0))"
      "run_begin toy_crypto tiny_toml calm_run run_defaults d2 n0 = Some (d3, Inr s0)" and eq: "rs_node s0 = n0" by blast
  have "\<not> poisoned (ni_store (rs_node s0))" using run_start_inv [OF toy_digest_format s(1)] eq by blast
  from restart_recovers [OF toy_digest_format s rtranclp.rtrancl_refl this, of None] s(1) eq show ?thesis
    by (intro exI [of _ d1] exI [of _ d2] exI [of _ w] exI [of _ n0]) simp
qed

section \<open>Progress\<close>

definition fresh_store :: block_store where
  "fresh_store = \<lparr>bs_file = [], poisoned = False, bs_format = V2, v2_magic_on_disk = False\<rparr>"

definition fresh_node :: node_inner where
  "fresh_node = node_for_tests ex_genesis ex_chain0 (mempool_new 2) fresh_store"

lemma fresh_node_inv: "node_inv toy_crypto fresh_node"
  using ex_chain0_inv mempool_new_ok [of 2]
  by (simp add: node_inv_def fresh_node_def node_for_tests_def chain_ok_def ex_chain0_eq(2) store_holds_def fresh_store_def)

lemma good_disk_calm: "calm_disk good_disk"
  by (simp add: calm_disk_def good_disk_def)

definition waiting :: run_state where
  "waiting = \<lparr>rs_node = fresh_node, rs_pending = Some (queue_bytes [tx1, tx2]), rs_peer_file = None, sealing_allowed = True,
     rs_gossip = gossip_idle\<rparr>"

theorem commit_witness:
  "\<exists>s' b. run_tick toy_crypto tiny_toml calm_tick run_defaults waiting = Some (s', Inr ()) \<and> transactions b = [tx1, tx2] \<and>
     bc_blocks (ni_chain (rs_node s')) = [genesis_block, b] \<and> bc_state (ni_chain (rs_node s')) = ex_state2"
proof -
  have q: "queue_reads (Some (queue_bytes [tx1, tx2])) [tx1, tx2]" using ex_txs_queueable by (simp add: queue_reads_def parse_queue)
  have fields: "rs_node waiting = fresh_node" "rs_pending waiting = Some (queue_bytes [tx1, tx2])" "sealing_allowed waiting"
    "ni_chain fresh_node = ex_chain0" "ni_pool fresh_node = mempool_new 2" "\<not> poisoned (ni_store fresh_node)"
    by (simp_all add: waiting_def fresh_node_def node_for_tests_def fresh_store_def)
  have "clone_fifo (mempool_new 2) = []" "mp_capacity (mempool_new 2) = 2" by (simp_all add: clone_fifo_def mempool_new_def)
  with queue_is_committed [OF toy_digest_format _ _ _ _ _ _ q, of waiting run_defaults ex_state2 calm_tick tiny_toml None]
    fields fresh_node_inv ex_run tx_hash_neq good_disk_calm
  show ?thesis
    by (auto simp: run_defaults_def ex_chain0_eq(2) genesis_block_def default_consensus_params_def bc_height_def chain_height_def
        calm_tick_def calm_queue_def good_queue_def)
qed

definition ex_peer :: sync_env where
  "ex_peer = \<lparr>sy_dial = (\<lambda>_ start. Inr (over (served_by toy_crypto alone default_inbound_policy ex_node
       (request toy_crypto (ni_genesis ex_node) (start - 1) start)))),
     sy_clock = (\<lambda>_. 200), sy_disk = (\<lambda>_. good_disk)\<rparr>"

lemma ex_node_serves: "serves toy_crypto alone default_inbound_policy ex_node"
proof -
  have bl: "bc_blocks (ni_chain ex_node) = [genesis_block, ex_block]"
    by (simp add: ex_node_def node_for_tests_def ex_chain_eq [THEN arg_cong [of _ _ bc_blocks]])
  have g: "length (block_image genesis_block) \<le> 100"
    by (simp add: length_block_image genesis_block_def txs_image_def)
  have "length (batch_image (batch_of ex_node start)) \<le> unat MAX_WIRE_FRAME_BYTES" for start
  proof -
    have "set (batch_of ex_node start) \<subseteq> {genesis_block, ex_block}" "length (batch_of ex_node start) \<le> 2"
      by (auto simp: batch_of_def bl dest!: in_set_takeD in_set_dropD)
    then have "(\<Sum>b\<leftarrow>batch_of ex_node start. 4 + length (block_image b)) \<le> (\<Sum>b\<leftarrow>batch_of ex_node start. 991)"
      using g ex_block_small by (intro sum_list_mono) auto
    with \<open>length (batch_of ex_node start) \<le> 2\<close> show ?thesis by (simp add: batch_image_length sum_list_triv max_wire_nat)
  qed
  with ex_node_inv bl show ?thesis
    by (simp add: serves_def alone_def default_inbound_policy_def ex_node_def node_for_tests_def ex_store_def)
qed

lemma ex_peer_dials: "dials toy_crypto alone default_inbound_policy ex_node ''p'' (ni_genesis ex_node) ex_peer"
proof -
  let ?served = "\<lambda>h start. served_by toy_crypto alone default_inbound_policy ex_node (request toy_crypto (ni_genesis ex_node) h start)"
  from ex_node_serves have p: "node_inv toy_crypto ex_node" "\<not> poisoned (ni_store ex_node)"
    "max_app_frames_per_session default_inbound_policy \<noteq> 0" "\<forall>i n. env_others alone i n = n"
    "length (batch_image (batch_of ex_node start)) \<le> unat MAX_WIRE_FRAME_BYTES" for start by (auto simp: serves_def)
  have "?served (start - 1) start = ?served h start" for h start
    using serve_request [OF toy_digest_format p, of "start - 1" start] serve_request [OF toy_digest_format p, of h start] by auto
  then show ?thesis by (auto simp: dials_def answers_request [OF toy_digest_format ex_node_serves] ex_peer_def over_def)
qed

theorem catch_up_witness:
  "\<exists>m. sync_from_peer_with_clock toy_crypto ex_peer fresh_node ''p'' default_sync_budget =
       Some (m, Inr \<lparr>blocks_appended = 1, stopped_due_to_budget = False\<rparr>) \<and>
     bc_blocks (ni_chain m) = [genesis_block, ex_block] \<and> bc_state (ni_chain m) = ex_state2"
proof -
  have chains: "bc_blocks (ni_chain ex_node) = [genesis_block, ex_block]" "bc_state (ni_chain ex_node) = ex_state2"
    "bc_blocks (ni_chain fresh_node) = [genesis_block]" "ni_genesis fresh_node = ni_genesis ex_node" "\<not> poisoned (ni_store fresh_node)"
    by (simp_all add: ex_node_def fresh_node_def node_for_tests_def ex_chain_eq ex_chain0_eq(2) fresh_store_def)
  have "behind toy_crypto ex_node fresh_node [ex_block]" using fresh_node_inv chains by (simp add: behind_def)
  moreover have "in_time ex_peer fresh_node [ex_block]"
    by (simp add: in_time_def ex_peer_def ex_block_def)
  moreover note ex_peer_dials
  moreover have "\<forall>i. calm_disk (sy_disk ex_peer i)" by (simp add: ex_peer_def good_disk_calm)
  moreover have "length [ex_block] < unat (max_blocks_per_call default_sync_budget)"
    "rounds_for [ex_block] < unat (max_rounds_per_call default_sync_budget)"
    "bytes_for [ex_block] < unat (max_wire_bytes_per_call default_sync_budget)"
    using ex_block_small by (simp_all add: rounds_for_def bytes_for_def default_sync_budget_def)
  ultimately have "\<exists>m. sync_from_peer_with_clock toy_crypto ex_peer fresh_node ''p'' default_sync_budget =
      Some (m, Inr \<lparr>blocks_appended = length [ex_block], stopped_due_to_budget = False\<rparr>) \<and>
    bc_blocks (ni_chain m) = bc_blocks (ni_chain ex_node) \<and> bc_state (ni_chain m) = bc_state (ni_chain ex_node) \<and> node_inv toy_crypto m"
    by (intro sync_catches_up [OF toy_digest_format ex_node_serves])
  then show ?thesis by (auto simp: chains)
qed

end
