(* ===== verification/Listener.thy ===== *)
theory Listener
  imports Run_Loop Slot_Pool
begin

text \<open>
  \<open>network.rs\<close>, the listener: binding, the accept loop and the threads of the sessions it starts, and the
  connecting side.  The threads of the process (main loop, listener, one per session) interleave in
  \<open>process_step\<close>: a session takes one round of its loop at a time, on the node that all threads share.
  A slot is taken and given back in one step; \<open>counter_step\<close> shows that the exchange loops of
  \<open>InboundSlotPool\<close> amount to that.  Binding, accepting and starting a thread are the operating
  system's, given by their outcome.
\<close>

section \<open>Connecting\<close>

text \<open>Name resolution and the connection attempt with its time-out are parameters.\<close>

definition tcp_connect_peer :: "(string \<Rightarrow> string + string list) \<Rightarrow> (string \<Rightarrow> io_error + conn) \<Rightarrow> string \<Rightarrow> io_error + conn" where
  "tcp_connect_peer resolve connect_timeout peer =
    (case resolve peer of
       Inl e \<Rightarrow> Inl (Io_Error InvalidInput (peer @ '': '' @ e))
     | Inr [] \<Rightarrow> Inl (Io_Error InvalidInput (''no socket addresses for '' @ peer))
     | Inr (addr # _) \<Rightarrow> connect_timeout addr)"

section \<open>The accept loop\<close>

datatype session_thread = Starting conn | Serving conn session

record listener =
  ls_max :: nat
  ls_active :: nat
  ls_threads :: "session_thread list"
  ls_listening :: bool

record listen_io =
  lo_bind :: "io_error option"
  lo_addr :: "io_error + string"

definition spawn_incoming_loop :: "listen_io \<Rightarrow> inbound_peer_policy \<Rightarrow> io_error + (listener \<times> string)" where
  "spawn_incoming_loop io policy =
    (case lo_bind io of
       Some e \<Rightarrow> Inl e
     | None \<Rightarrow>
        and_then (lo_addr io) (\<lambda>addr.
        Inr (\<lparr>ls_max = max_concurrent_sessions policy, ls_active = 0, ls_threads = [], ls_listening = True\<rparr>, addr)))"

text \<open>
  What \<open>accept\<close> gives: an error, or a connection, and then whether the thread could be started.
\<close>

datatype accept_event = Accept_Failed io_error | Accepted conn bool

text \<open>
  One pass of the accept loop.  \<open>thread::spawn\<close> panics if there is no thread to be had: the listener
  ends, and the permit that the closure held is dropped with it.
\<close>

definition serve_accept :: "accept_event \<Rightarrow> listener \<Rightarrow> listener" where
  "serve_accept ev l =
    (case ev of
       Accept_Failed _ \<Rightarrow> l
     | Accepted stream spawned \<Rightarrow>
         if ls_active l \<ge> ls_max l then l
         else if spawned then l\<lparr>ls_active := ls_active l + 1, ls_threads := ls_threads l @ [Starting stream]\<rparr>
         else l\<lparr>ls_listening := False\<rparr>)"

text \<open>The end of the thread of a session, which drops its permit.\<close>

definition session_over :: "nat \<Rightarrow> listener \<Rightarrow> listener" where
  "session_over i l = l\<lparr>ls_active := ls_active l - 1, ls_threads := take i (ls_threads l) @ drop (Suc i) (ls_threads l)\<rparr>"

section \<open>The whole process\<close>

record process =
  pr_run :: run_state
  pr_listener :: "listener option"

definition process_begin :: "run_config \<Rightarrow> listen_io \<Rightarrow> run_state \<Rightarrow> process option" where
  "process_begin config io s =
    (case rc_listen config of
       None \<Rightarrow> Some \<lparr>pr_run = s, pr_listener = None\<rparr>
     | Some _ \<Rightarrow>
        (case spawn_incoming_loop io (rc_inbound_peer_policy config) of
           Inl _ \<Rightarrow> None
         | Inr (l, _) \<Rightarrow> Some \<lparr>pr_run = s, pr_listener = Some l\<rparr>))"

abbreviation shared :: "process \<Rightarrow> node_inner" where
  "shared p \<equiv> rs_node (pr_run p)"

abbreviation with_node :: "process \<Rightarrow> node_inner \<Rightarrow> listener \<Rightarrow> process" where
  "with_node p n l \<equiv> p\<lparr>pr_run := (pr_run p)\<lparr>rs_node := n\<rparr>, pr_listener := Some l\<rparr>"

text \<open>The other threads act between the rounds of a session, as steps of their own.\<close>

abbreviation undisturbed :: "session_env \<Rightarrow> session_env" where
  "undisturbed env \<equiv> env\<lparr>env_others := \<lambda>_ n. n\<rparr>"

inductive process_step :: "crypto \<Rightarrow> toml_lib \<Rightarrow> run_config \<Rightarrow> process \<Rightarrow> process \<Rightarrow> bool" for K T config where
  main: "run_tick K T env config (pr_run p) = Some (s, r) \<Longrightarrow> process_step K T config p (p\<lparr>pr_run := s\<rparr>)"
| send: "append_pending_transaction io (rs_pending (pr_run p)) tx = Some (f, r) \<Longrightarrow>
    process_step K T config p (p\<lparr>pr_run := (pr_run p)\<lparr>rs_pending := f\<rparr>\<rparr>)"
| accept: "pr_listener p = Some l \<Longrightarrow> ls_listening l \<Longrightarrow> process_step K T config p (p\<lparr>pr_listener := Some (serve_accept ev l)\<rparr>)"
| greeted: "pr_listener p = Some l \<Longrightarrow> i < length (ls_threads l) \<Longrightarrow> ls_threads l ! i = Starting c \<Longrightarrow>
    peer_session_setup K c (shared p) = (c', Inr ()) \<Longrightarrow>
    process_step K T config p (p\<lparr>pr_listener := Some (l\<lparr>ls_threads := (ls_threads l)[i := Serving c' session_start]\<rparr>)\<rparr>)"
| turned_away: "pr_listener p = Some l \<Longrightarrow> i < length (ls_threads l) \<Longrightarrow> ls_threads l ! i = Starting c \<Longrightarrow>
    peer_session_setup K c (shared p) = (c', Inl e) \<Longrightarrow>
    process_step K T config p (p\<lparr>pr_listener := Some (session_over i l)\<rparr>)"
| round: "pr_listener p = Some l \<Longrightarrow> i < length (ls_threads l) \<Longrightarrow> ls_threads l ! i = Serving c ses \<Longrightarrow>
    session_round K (undisturbed env) (rc_inbound_peer_policy config) (c, shared p, ses) = Some (Again (c', n', ses')) \<Longrightarrow>
    process_step K T config p (with_node p n' (l\<lparr>ls_threads := (ls_threads l)[i := Serving c' ses']\<rparr>))"
| over: "pr_listener p = Some l \<Longrightarrow> i < length (ls_threads l) \<Longrightarrow> ls_threads l ! i = Serving c ses \<Longrightarrow>
    session_round K (undisturbed env) (rc_inbound_peer_policy config) (c, shared p, ses) = Some (Return (c', n', ses') r) \<Longrightarrow>
    process_step K T config p (with_node p n' (session_over i l))"

section \<open>Slots\<close>

text \<open>The exchange loops act on the counter as one atomic acquisition or release, or not at all.\<close>

lemma counter_step:
  assumes "slot_step p q"
  shows "active q = active p \<or> (active p < slot_max p \<and> active q = active p + 1) \<or> (active p \<noteq> 0 \<and> active q = active p - 1)"
  using assms by cases auto

definition within_frames :: "session_thread \<Rightarrow> bool" where
  "within_frames t = (case t of Starting _ \<Rightarrow> True | Serving _ ses \<Rightarrow> unat (frames_seen ses) \<le> 8192)"

text \<open>One slot per session, no more than the limit, and no session beyond its frame limit.\<close>

definition listener_inv :: "nat \<Rightarrow> listener \<Rightarrow> bool" where
  "listener_inv limit l \<longleftrightarrow> ls_max l = limit \<and> ls_active l = length (ls_threads l) \<and> ls_active l \<le> limit \<and>
     (\<forall>t \<in> set (ls_threads l). within_frames t)"

lemma spawned_inv: "spawn_incoming_loop io policy = Inr (l, a) \<Longrightarrow> listener_inv (max_concurrent_sessions policy) l"
  by (auto simp: spawn_incoming_loop_def listener_inv_def and_then_Inr_iff split: option.splits)

lemma serve_accept_inv: "listener_inv limit l \<Longrightarrow> listener_inv limit (serve_accept ev l)"
  by (auto simp: serve_accept_def listener_inv_def within_frames_def split: accept_event.split)

lemma session_over_inv: "listener_inv limit l \<Longrightarrow> i < length (ls_threads l) \<Longrightarrow> listener_inv limit (session_over i l)"
  by (auto simp: session_over_def listener_inv_def dest: in_set_takeD in_set_dropD)

lemma thread_update_inv:
  "listener_inv limit l \<Longrightarrow> within_frames t \<Longrightarrow> listener_inv limit (l\<lparr>ls_threads := (ls_threads l)[i := t]\<rparr>)"
  using set_update_subset_insert [of "ls_threads l" i t] by (auto simp: listener_inv_def)

lemma refused_full:
  "listener_inv limit l \<Longrightarrow> serve_accept (Accepted stream True) l = l \<Longrightarrow> length (ls_threads l) = limit"
  by (cases l) (auto simp: serve_accept_def listener_inv_def split: if_splits)

section \<open>The process refines the node\<close>

text \<open>A round of a session leaves the node alone or handles one message on it.\<close>

fun round_node :: "(conn \<times> node_inner \<times> session) round \<Rightarrow> node_inner" where
  "round_node (Again (c, n, s)) = n" | "round_node (Return (c, n, s) r) = n"

lemma finish_round_node: "round_node (finish_round policy c n s r) = n"
  by (auto simp: finish_round_def Let_def split: sum.split option.split prod.split peer_frame_error.split)

lemma session_round_node:
  assumes "session_round K (undisturbed env) policy (c, n, s) = Some rd"
  shows "round_node rd = n \<or> (\<exists>frame decoded io ses now ses' r. length frame \<le> unat MAX_WIRE_FRAME_BYTES \<and>
    predecode_inbound_app_payload frame = Inr decoded \<and> apply_predecoded K io policy n ses decoded now = Some ((round_node rd, ses'), r))"
proof (rule disjCI)
  assume ne: "\<not> (\<exists>frame decoded io ses now ses' r. length frame \<le> unat MAX_WIRE_FRAME_BYTES \<and>
    predecode_inbound_app_payload frame = Inr decoded \<and> apply_predecoded K io policy n ses decoded now = Some ((round_node rd, ses'), r))"
  show "round_node rd = n"
  proof (rule ccontr)
    assume d: "round_node rd \<noteq> n"
    then obtain c1 frame s1 n' s' r where f: "read_framed c = (c1, Inr frame)"
      "handle_frame K (undisturbed env) policy n s1 frame = Some ((n', s'), r)" "rd = finish_round policy c1 n' s' r"
      using assms by (auto simp: session_round_def Let_def split: if_splits prod.splits sum.splits option.splits)
    with d have "n' \<noteq> n" "round_node rd = n'" by (auto simp: finish_round_node)
    then obtain decoded io ses now where "predecode_inbound_app_payload frame = Inr decoded"
      "apply_predecoded K io policy n ses decoded now = Some ((n', s'), r)"
      using f(2) by (auto simp: handle_frame_def Let_def split: sum.splits if_splits predecoded_inbound.splits)
    with f(1) ne \<open>round_node rd = n'\<close> show False by (auto simp: read_framed_ok)
  qed
qed

lemma process_refines:
  assumes "process_step K T config p q"
  shows "pr_run q = pr_run p \<or> node_step K T config (pr_run p) (pr_run q)"
proof -
  have seen: "pr_run (with_node p n' l) = pr_run p \<or> node_step K T config (pr_run p) (pr_run (with_node p n' l))"
    if "session_round K (undisturbed env) (rc_inbound_peer_policy config) (c, shared p, ses) = Some rd" "round_node rd = n'"
    for env c ses rd n' l
    using session_round_node [OF that(1)] that(2) by (auto intro: node_step.frame)
  show ?thesis using assms
    by cases (auto intro: node_step.tick node_step.queue dest: seen)
qed

lemma process_step_listener:
  assumes "process_step K T config p q" "pr_listener p = Some l" "listener_inv limit l"
  shows "\<exists>m. pr_listener q = Some m \<and> listener_inv limit m"
  using assms
proof (cases rule: process_step.cases)
  case (round l' i c ses env c' n' ses')
  then have "unat (frames_seen ses') \<le> 8192" using session_round_again by blast
  then have "within_frames (Serving c' ses')" by (simp add: within_frames_def)
  with round assms(2,3) thread_update_inv show ?thesis by auto
qed (auto simp: serve_accept_inv session_over_inv thread_update_inv within_frames_def session_start_def)

definition process_inv :: "crypto \<Rightarrow> nat \<Rightarrow> process \<Rightarrow> bool" where
  "process_inv K limit p \<longleftrightarrow> digest_format K \<and> node_inv K (shared p) \<and>
     (case pr_listener p of None \<Rightarrow> True | Some l \<Rightarrow> listener_inv limit l)"

lemma process_step_no_listener: "process_step K T config p q \<Longrightarrow> pr_listener p = None \<Longrightarrow> pr_listener q = None"
  by (erule process_step.cases) auto

lemma process_step_inv:
  assumes "process_step K T config p q" "process_inv K limit p"
  shows "process_inv K limit q \<and> (node_step K T config)\<^sup>*\<^sup>* (pr_run p) (pr_run q)"
proof -
  have "(node_step K T config)\<^sup>*\<^sup>* (pr_run p) (pr_run q)" using process_refines [OF assms(1)] by auto
  moreover have "node_inv K (shared q)"
    using process_refines [OF assms(1)] node_step_inv [of K T config "pr_run p" "pr_run q"] assms(2) by (auto simp: process_inv_def)
  ultimately show ?thesis
    using process_step_no_listener [OF assms(1)] process_step_listener [OF assms(1), of _ limit] assms(2)
    by (cases "pr_listener p") (fastforce simp: process_inv_def)+
qed

interpretation process_run: stepwise "process_step K T config" "process_inv K limit"
  "\<lambda>p q. (node_step K T config)\<^sup>*\<^sup>* (pr_run p) (pr_run q)" for K T config limit
  by unfold_locales (use process_step_inv in \<open>auto\<close>)

lemma process_begin_inv:
  assumes "digest_format K" "node_inv K (rs_node s)" "process_begin config io s = Some p"
  shows "process_inv K (max_concurrent_sessions (rc_inbound_peer_policy config)) p \<and> pr_run p = s"
  using assms by (auto simp: process_inv_def process_begin_def dest: spawned_inv split: option.splits sum.splits)

lemma process_reached:
  assumes "digest_format K" "run_start K T env config d = (d1, Inr (w, n0))"
    and "run_begin K T env config d1 n0 = Some (d2, Inr s0)" "process_begin config lio s0 = Some p0"
    and "(process_step K T config)\<^sup>*\<^sup>* p0 p"
  shows "process_inv K (max_concurrent_sessions (rc_inbound_peer_policy config)) p \<and>
    (node_step K T config)\<^sup>*\<^sup>* s0 (pr_run p) \<and> node_inv K (shared p) \<and> grows n0 (shared p)"
proof -
  let ?limit = "max_concurrent_sessions (rc_inbound_peer_policy config)"
  have n0: "node_inv K n0" using run_start_inv [OF assms(1,2)] by blast
  from run_begin_inv [OF assms(1) n0 assms(3)] have s0: "node_inv K (rs_node s0)" by blast
  have "process_inv K ?limit p \<and> (node_step K T config)\<^sup>*\<^sup>* s0 (pr_run p)"
    using process_run.run_keeps [OF assms(5), of ?limit] process_begin_inv [OF assms(1) s0 assms(4)] by auto
  with started_node [OF assms(1-3)] show ?thesis by blast
qed

text \<open>
  C3. The whole process is safe.  However its threads interleave -- the main loop, the listener, the
  sessions, each a round at a time on the shared node -- and whatever peers send, whichever writes,
  accepts and thread starts fail: all that the threads do to the node is a sequence of the steps of
  \<open>Run_Loop\<close>, so that the chain stays valid and only gets longer; there are never more sessions than
  configured and exactly one slot is taken for each; a newcomer is turned away for want of a slot only
  if all are in use; and no round of the main loop or of a session panics.
\<close>

theorem process_safe:
  assumes "digest_format K" "run_start K T env config d = (d1, Inr (w, n0))"
    and "run_begin K T env config d1 n0 = Some (d2, Inr s0)" "process_begin config lio s0 = Some p0"
    and "(process_step K T config)\<^sup>*\<^sup>* p0 p"
  shows "(node_step K T config)\<^sup>*\<^sup>* s0 (pr_run p) \<and> chain_inv K (ni_genesis n0) (ni_chain (shared p)) \<and> grows n0 (shared p) \<and>
    (\<forall>l. pr_listener p = Some l \<longrightarrow>
      ls_active l = length (ls_threads l) \<and> length (ls_threads l) \<le> max_concurrent_sessions (rc_inbound_peer_policy config) \<and>
      (serve_accept (Accepted stream True) l = l \<longrightarrow> length (ls_threads l) = max_concurrent_sessions (rc_inbound_peer_policy config))) \<and>
    run_tick K T tick config (pr_run p) \<noteq> None \<and> session_round K (undisturbed senv) policy (c, shared p, ses) \<noteq> None"
proof -
  let ?limit = "max_concurrent_sessions (rc_inbound_peer_policy config)"
  from process_reached [OF assms] have inv: "process_inv K ?limit p" and run: "(node_step K T config)\<^sup>*\<^sup>* s0 (pr_run p)"
    and n: "node_inv K (shared p)" "grows n0 (shared p)" by blast+
  from running_node_safe [OF assms(1-3) run] have "chain_inv K (ni_genesis n0) (ni_chain (shared p))"
    "run_tick K T tick config (pr_run p) \<noteq> None" by blast+
  moreover have "session_round K (undisturbed senv) policy (c, shared p, ses) \<noteq> None"
    using session_round_inv [OF assms(1) n(1), of "undisturbed senv" policy c ses] by auto
  moreover have "listener_inv ?limit l" if "pr_listener p = Some l" for l using inv that by (simp add: process_inv_def)
  ultimately show ?thesis using run n(2) refused_full [of ?limit _ stream] by (auto simp: listener_inv_def)
qed

text \<open>
  C24. What the node holds is well typed.  In every state that the process can reach, also after a
  failed write, each transaction of the pool and each block of the chain is a proper value of the wire
  and file format: its strings are UTF-8 and its lengths fit their fields, so that encoding it does
  not panic and whoever decodes the bytes gets the same value.
\<close>

theorem node_values_typed:
  assumes "digest_format K" "run_start K T env config d = (d1, Inr (w, n0))"
    and "run_begin K T env config d1 n0 = Some (d2, Inr s0)" "process_begin config lio s0 = Some p0"
    and "(process_step K T config)\<^sup>*\<^sup>* p0 p"
  shows "(\<forall>tx \<in> set (clone_fifo (ni_pool (shared p))). \<exists>bs. encode_transaction tx = Some bs \<and> decode_transaction bs = Inr tx) \<and>
    (\<forall>b \<in> set (bc_blocks (ni_chain (shared p))). \<exists>bs. encode_block b = Some bs \<and> decode_block bs = Inr b)"
proof -
  from process_reached [OF assms] have n: "node_inv K (shared p)" by blast
  then have "\<forall>tx \<in> set (clone_fifo (ni_pool (shared p))). wire_tx tx" by (simp add: node_inv_def pool_ok_def)
  with node_blocks_wire [OF n] show ?thesis
    by (auto simp: wire_tx_def encode_transaction_ok decode_transaction_ok encode_block_ok decode_block_ok)
qed

end
