(* ===== verification/Dev_Test_Ui.thy ===== *)
theory Dev_Test_Ui
  imports Run_Loop
begin

text \<open>
  \<open>dev-test-ui/src/main.rs\<close>: the local web tool that shows a data directory and queues transactions.
  HTTP, JSON and the thread pool are the package's; a handler is modelled by its status and the value
  it serialises, and a panic of the blocking task by the outer \<open>None\<close> of the function it runs.  Messages
  name a file without its directory.  \<open>ue_not_found\<close> is the operating system's text for a missing file,
  \<open>ue_lock\<close> what the calls of the attempt on the run lock give, \<open>ue_book_addrs\<close> the addresses that the \<open>toml\<close> package
  finds in a peer book.
\<close>

record ui_env =
  ue_cmd :: cmd_env
  ue_not_found :: string
  ue_lock :: lock_io
  ue_read_pending :: "string option"
  ue_read_book :: "string option"
  ue_book_addrs :: "string \<Rightarrow> string + string list"

definition NODE_RUN_LOCK_FILE :: string where "NODE_RUN_LOCK_FILE = ''.node.run.lock''"

section \<open>Reading a directory without touching it\<close>

definition load_genesis :: "toml_lib \<Rightarrow> ui_env \<Rightarrow> data_dir \<Rightarrow> string + genesis" where
  "load_genesis T env d =
    (case dd_genesis d of
       None \<Rightarrow> Inl (''genesis missing: '' @ GENESIS_FILE @ '' (run `node init --data-dir ...` first)'')
     | Some raw \<Rightarrow>
         map_err (\<lambda>e. GENESIS_FILE @ '': '' @ e)
           (from_path (genesis_rd T) (case ce_read_genesis (ue_cmd env) of Some e \<Rightarrow> Inl e | None \<Rightarrow> Inr raw)))"

definition load_chain_readonly :: "crypto \<Rightarrow> data_dir \<Rightarrow> genesis \<Rightarrow> string + blockchain" where
  "load_chain_readonly K d g =
    and_then (map_err display_storage_error (read_all_blocks (dd_chain d))) (\<lambda>bs.
    and_then (map_err display_error (blockchain_from_genesis g)) (\<lambda>chain.
    case run_steps (append_block K) chain bs of
      (_, Inl e) \<Rightarrow> Inl (display_error e)
    | (chain, Inr _) \<Rightarrow> Inr chain))"

definition ui_load_wallet :: "ui_env \<Rightarrow> data_dir \<Rightarrow> string + wallet" where
  "ui_load_wallet env d =
    (case dd_wallet d of
       None \<Rightarrow> Inl (WALLET_FILE @ '': '' @ ue_not_found env)
     | Some raw \<Rightarrow>
        (case ce_read_wallet (ue_cmd env) of
           Some e \<Rightarrow> Inl (WALLET_FILE @ '': '' @ e)
         | None \<Rightarrow> if length raw \<noteq> 32 then Inl (WALLET_FILE @ '': expected 32-byte seed'') else Inr (from_seed raw)))"

section \<open>The views\<close>

definition WARN :: string where
  "WARN = ''LOCAL TESTING ONLY '' @ em_dash @ '' not a wallet; not for production; localhost binding only.''"

definition MEMPOOL_NOTE :: string where
  "MEMPOOL_NOTE = ''Mempool lives inside a running `node run` process only; this UI reads disk (chain + pending file) and cannot show live mempool size.''"

record block_summary =
  sum_height :: u64
  sum_block_hash :: string
  sum_tx_count :: nat
  sum_timestamp_unix :: u64

record tx_summary =
  sum_tx_hash :: string
  sum_sender :: string
  sum_receiver :: string
  sum_amount :: u64
  sum_fee :: u64
  sum_nonce :: u64

record overview_out =
  ov_warning :: string
  ov_data_dir :: string
  ov_height :: u64
  ov_tip_hash :: string
  ov_chain_error :: "string option"
  ov_pending_tx_count :: "nat option"
  ov_pending_error :: "string option"
  ov_node_run_active :: bool
  ov_mempool_note :: string
  ov_wallet_address :: "string option"
  ov_peer_seed_addrs :: "string list"
  ov_blocks :: "block_summary list"

record activity_out =
  act_warning :: string
  act_blocks :: "block_summary list"
  act_recent_txs :: "tx_summary list"
  act_error :: "string option"

record account_out =
  ao_address :: string
  ao_found :: bool
  ao_balance :: "u64 option"
  ao_nonce :: "u64 option"
  ao_error :: "string option"

record wallet_out =
  wo_address :: "string option"
  wo_balance :: "u64 option"
  wo_committed_next_nonce :: "u64 option"
  wo_error :: "string option"

record paths_out =
  po_genesis :: string
  po_chain_blocks :: string
  po_pending_tx :: string
  po_wallet_seed :: string
  po_genesis_bind :: string
  po_run_lock :: string
  po_peer_book :: string

record setup_out =
  so_warning :: string
  so_data_dir :: string
  so_paths :: paths_out
  so_example_commands :: "string list"

definition summary_of :: "block \<Rightarrow> block_summary" where
  "summary_of b = \<lparr>sum_height = height b, sum_block_hash = block_hash b, sum_tx_count = length (transactions b),
     sum_timestamp_unix = timestamp_unix b\<rparr>"

definition tx_summary_of :: "transaction \<Rightarrow> tx_summary" where
  "tx_summary_of tx = \<lparr>sum_tx_hash = tx_hash tx, sum_sender = str (sender tx), sum_receiver = str (receiver tx),
     sum_amount = amount tx, sum_fee = fee tx, sum_nonce = nonce tx\<rparr>"

text \<open>\<open>skip(len.saturating_sub(len.min(k)))\<close>.\<close>

definition last_blocks :: "nat \<Rightarrow> blockchain \<Rightarrow> block list" where
  "last_blocks k chain = (let n = min (length (bc_blocks chain)) k in drop (length (bc_blocks chain) - n) (bc_blocks chain))"

definition pending_status :: "ui_env \<Rightarrow> data_dir \<Rightarrow> nat option \<times> string option" where
  "pending_status env d =
    (case dd_pending d of
       None \<Rightarrow> (Some 0, None)
     | Some raw \<Rightarrow>
        (case ue_read_pending env of
           Some e \<Rightarrow> (None, Some (''pending_tx.tril: '' @ e))
         | None \<Rightarrow> (case parse_pending_file_bytes raw of Inr txs \<Rightarrow> (Some (length txs), None) | Inl e \<Rightarrow> (None, Some e))))"

definition seed_addrs :: "ui_env \<Rightarrow> data_dir \<Rightarrow> string list" where
  "seed_addrs env d =
    (case dd_peers d of
       None \<Rightarrow> []
     | Some raw \<Rightarrow>
        if ue_read_book env \<noteq> None then []
        else (case ue_book_addrs env raw of Inl _ \<Rightarrow> [] | Inr addrs \<Rightarrow> addrs))"

definition overview_inner :: "crypto \<Rightarrow> toml_lib \<Rightarrow> ui_env \<Rightarrow> string \<Rightarrow> data_dir \<Rightarrow> string + overview_out" where
  "overview_inner K T env dir d =
    and_then (load_genesis T env d) (\<lambda>g.
    let chain = load_chain_readonly K d g;
        (pending_count, pending_err) = pending_status env d;
        wallet_addr = (case ui_load_wallet env d of Inl _ \<Rightarrow> None | Inr w \<Rightarrow> Some (str (wallet_address K w)));
        (h, tip) = (case chain of
           Inl _ \<Rightarrow> (0, [])
         | Inr c \<Rightarrow> (bc_height c, if bc_blocks c = [] then [] else block_hash (last (bc_blocks c))))
    in Inr \<lparr>ov_warning = WARN, ov_data_dir = dir, ov_height = h, ov_tip_hash = tip,
         ov_chain_error = (case chain of Inl e \<Rightarrow> Some e | Inr _ \<Rightarrow> None),
         ov_pending_tx_count = pending_count, ov_pending_error = pending_err,
         ov_node_run_active = (try_acquire_exclusive (ue_lock env) = Held_Elsewhere), ov_mempool_note = MEMPOOL_NOTE, ov_wallet_address = wallet_addr,
         ov_peer_seed_addrs = seed_addrs env d,
         ov_blocks = (case chain of Inl _ \<Rightarrow> [] | Inr c \<Rightarrow> map summary_of (last_blocks 15 c))\<rparr>)"

text \<open>The inner loop over the transactions of a block, with its \<open>break\<close>.\<close>

fun push_recent :: "tx_summary list \<Rightarrow> transaction list \<Rightarrow> tx_summary list" where
  "push_recent recent [] = recent"
| "push_recent recent (tx # txs) = (if length recent \<ge> 40 then recent else push_recent (recent @ [tx_summary_of tx]) txs)"

definition activity_inner :: "crypto \<Rightarrow> toml_lib \<Rightarrow> ui_env \<Rightarrow> data_dir \<Rightarrow> string + activity_out" where
  "activity_inner K T env d =
    and_then (load_genesis T env d) (\<lambda>g.
    and_then (load_chain_readonly K d g) (\<lambda>chain.
    let bs = last_blocks 20 chain in
    Inr \<lparr>act_warning = WARN, act_blocks = map summary_of bs, act_recent_txs = fold (\<lambda>b recent. push_recent recent (transactions b)) bs [], act_error = None\<rparr>))"

definition account_inner :: "crypto \<Rightarrow> toml_lib \<Rightarrow> ui_env \<Rightarrow> data_dir \<Rightarrow> string \<Rightarrow> account_out" where
  "account_inner K T env d addr =
    (case and_then (load_genesis T env d) (load_chain_readonly K d) of
       Inl e \<Rightarrow> \<lparr>ao_address = addr, ao_found = False, ao_balance = None, ao_nonce = None, ao_error = Some e\<rparr>
     | Inr chain \<Rightarrow>
        (case get_account (bc_state chain) (Address addr) of
           Some ac \<Rightarrow> \<lparr>ao_address = addr, ao_found = True, ao_balance = Some (balance ac), ao_nonce = Some (acc_nonce ac), ao_error = None\<rparr>
         | None \<Rightarrow> \<lparr>ao_address = addr, ao_found = False, ao_balance = None, ao_nonce = None, ao_error = None\<rparr>))"

definition wallet_state_inner :: "crypto \<Rightarrow> toml_lib \<Rightarrow> ui_env \<Rightarrow> data_dir \<Rightarrow> wallet_out" where
  "wallet_state_inner K T env d =
    (case ui_load_wallet env d of
       Inl e \<Rightarrow> \<lparr>wo_address = None, wo_balance = None, wo_committed_next_nonce = None, wo_error = Some e\<rparr>
     | Inr w \<Rightarrow>
        let addr = str (wallet_address K w) in
        (case and_then (load_genesis T env d) (load_chain_readonly K d) of
           Inl e \<Rightarrow> \<lparr>wo_address = Some addr, wo_balance = None, wo_committed_next_nonce = None, wo_error = Some e\<rparr>
         | Inr chain \<Rightarrow>
            (case get_account (bc_state chain) (wallet_address K w) of
               Some ac \<Rightarrow> \<lparr>wo_address = Some addr, wo_balance = Some (balance ac), wo_committed_next_nonce = Some (acc_nonce ac), wo_error = None\<rparr>
             | None \<Rightarrow> \<lparr>wo_address = Some addr, wo_balance = None, wo_committed_next_nonce = None,
                 wo_error = Some ''wallet address has no account on this chain (check genesis allocations)''\<rparr>)))"

section \<open>Queueing a transaction\<close>

record send_body =
  sb_receiver :: string
  sb_amount :: u64
  sb_fee :: u64
  sb_nonce :: "u64 option"

definition balance_note :: "send_body \<Rightarrow> account \<Rightarrow> string" where
  "balance_note body acct =
    (let total_cost = checked_add (sb_amount body) (sb_fee body);
         shown = (case total_cost of None \<Rightarrow> ''None'' | Some t \<Rightarrow> ''Some('' @ show_word t @ '')'') in
     if (case total_cost of None \<Rightarrow> True | Some t \<Rightarrow> t > balance acct)
     then [CHR 10] @ ''NOTE: amount+fee ('' @ shown @ '') vs committed balance '' @ show_word (balance acct) @
       '' '' @ em_dash @ '' expect seal or hygiene to reject insufficient balance.''
     else [])"

definition override_note :: "account \<Rightarrow> string" where
  "override_note acct =
    (let n = show_word (acc_nonce acct) in
     [CHR 10] @ ''NOTE: dev-test override nonce '' @ em_dash @ '' committed next nonce was '' @ n @ ''. Stale (nonce < '' @ n @
     '') or gap (nonce > '' @ n @ '') txs exercise mempool/seal rejection paths; see stderr on `node run`.'')"

definition send_message :: "transaction \<Rightarrow> u64 \<Rightarrow> send_body \<Rightarrow> account \<Rightarrow> string" where
  "send_message tx non body acct =
    ''queued tx '' @ tx_hash tx @ '' -> '' @ sb_receiver body @ '' amount '' @ show_word (sb_amount body) @
    '' fee '' @ show_word (sb_fee body) @ '' nonce '' @ show_word non @ '' (pending_tx.tril '' @ em_dash @ '' run `node run` to seal)'' @
    (if sb_nonce body \<noteq> None then override_note acct else []) @ balance_note body acct"

text \<open>Its last steps: the queue first, then the binding.\<close>

definition queue_and_bind ::
  "crypto \<Rightarrow> toml_lib \<Rightarrow> cmd_env \<Rightarrow> data_dir \<Rightarrow> genesis \<Rightarrow> transaction \<Rightarrow> (data_dir \<times> (string + unit)) option" where
  "queue_and_bind K T env d g tx =
    map_option (\<lambda>(f, r).
      let d = d\<lparr>dd_pending := f\<rparr> in
      case r of
        Inl e \<Rightarrow> (d, Inl e)
      | Inr _ \<Rightarrow>
         (case ensure_binding_if_missing (bind_rd T) (bind_wr T) K (ce_bind env) (dd_bind d) g of
            (b, r) \<Rightarrow> (d\<lparr>dd_bind := b\<rparr>, r)))
      (append_pending_transaction (ce_queue env) (dd_pending d) tx)"

definition send_inner ::
  "crypto \<Rightarrow> toml_lib \<Rightarrow> ui_env \<Rightarrow> data_dir \<Rightarrow> send_body \<Rightarrow> (data_dir \<times> (string + string)) option" where
  "send_inner K T env d body =
    (case ui_load_wallet env d of
       Inl e \<Rightarrow> Some (d, Inl e)
     | Inr wallet \<Rightarrow>
    (case load_genesis T env d of
       Inl e \<Rightarrow> Some (d, Inl e)
     | Inr g \<Rightarrow>
    (case verify_binding_if_present (bind_rd T) K (bi_read (ce_bind (ue_cmd env))) (dd_bind d) g of
       Inl e \<Rightarrow> Some (d, Inl e)
     | Inr _ \<Rightarrow>
    (case load_chain_readonly K d g of
       Inl e \<Rightarrow> Some (d, Inl e)
     | Inr chain \<Rightarrow>
    (case get_account (bc_state chain) (wallet_address K wallet) of
       None \<Rightarrow> Some (d, Inl ''wallet address has no account on this chain genesis; fix genesis.toml'')
     | Some acct \<Rightarrow>
    (let non = (case sb_nonce body of None \<Rightarrow> acc_nonce acct | Some n \<Rightarrow> n) in
     case sign_transfer K wallet (Address (sb_receiver body)) (sb_amount body) (sb_fee body) non (ce_now (ue_cmd env)) of
       Inl e \<Rightarrow> Some (d, Inl (display_error e))
     | Inr tx \<Rightarrow>
       map_option (\<lambda>(d, r). (d, and_then r (\<lambda>_. Inr (send_message tx non body acct))))
         (queue_and_bind K T (ue_cmd env) d g tx)))))))"

section \<open>The handlers\<close>

definition get_overview :: "crypto \<Rightarrow> toml_lib \<Rightarrow> ui_env \<Rightarrow> string \<Rightarrow> data_dir \<Rightarrow> nat \<times> overview_out" where
  "get_overview K T env dir d =
    (200, case overview_inner K T env dir d of
       Inr out \<Rightarrow> out
     | Inl e \<Rightarrow> \<lparr>ov_warning = WARN, ov_data_dir = dir, ov_height = 0, ov_tip_hash = [], ov_chain_error = Some e, ov_pending_tx_count = None, ov_pending_error = None,
         ov_node_run_active = False, ov_mempool_note = MEMPOOL_NOTE, ov_wallet_address = None, ov_peer_seed_addrs = [], ov_blocks = []\<rparr>)"

definition get_activity :: "crypto \<Rightarrow> toml_lib \<Rightarrow> ui_env \<Rightarrow> data_dir \<Rightarrow> nat \<times> activity_out" where
  "get_activity K T env d =
    (200, case activity_inner K T env d of
       Inr out \<Rightarrow> out
     | Inl e \<Rightarrow> \<lparr>act_warning = WARN, act_blocks = [], act_recent_txs = [], act_error = Some e\<rparr>)"

text \<open>The views never panic, so a handler of a view has no failed task to report.\<close>

definition ui_get_account :: "crypto \<Rightarrow> toml_lib \<Rightarrow> ui_env \<Rightarrow> data_dir \<Rightarrow> string \<Rightarrow> nat \<times> account_out" where
  "ui_get_account K T env d addr = (200, account_inner K T env d addr)"

definition get_wallet :: "crypto \<Rightarrow> toml_lib \<Rightarrow> ui_env \<Rightarrow> data_dir \<Rightarrow> nat \<times> wallet_out" where
  "get_wallet K T env d = (200, wallet_state_inner K T env d)"

text \<open>\<open>Path::join\<close> with a relative name, and the set-up page; \<open>dir\<close> is the displayed directory.\<close>

definition path_join :: "string \<Rightarrow> string \<Rightarrow> string" where
  "path_join dir name = (if dir = [] \<or> last dir = CHR ''/'' then dir @ name else dir @ ''/'' @ name)"

definition get_setup :: "string \<Rightarrow> setup_out" where
  "get_setup dir =
    \<lparr>so_warning = WARN, so_data_dir = dir,
     so_paths = \<lparr>po_genesis = path_join dir GENESIS_FILE, po_chain_blocks = path_join dir ''chain.blocks'',
       po_pending_tx = path_join dir ''pending_tx.tril'', po_wallet_seed = path_join dir WALLET_FILE,
       po_genesis_bind = path_join dir GENESIS_BIND_FILE, po_run_lock = path_join dir NODE_RUN_LOCK_FILE,
       po_peer_book = path_join dir ''peer_book.toml''\<rparr>,
     so_example_commands =
       [''cd ../node && cargo run -- run --data-dir '' @ dir @ '' --listen 127.0.0.1:9333 --interval-secs 2'',
        ''cargo run --manifest-path dev-test-ui/Cargo.toml -- --data-dir '' @ dir]\<rparr>"

text \<open>The answer to \<open>/api/send\<close>: status, the flag \<open>ok\<close> and the message or error.\<close>

definition post_send ::
  "crypto \<Rightarrow> toml_lib \<Rightarrow> ui_env \<Rightarrow> data_dir \<Rightarrow> send_body \<Rightarrow> data_dir \<times> (nat \<times> bool \<times> string)" where
  "post_send K T env d body =
    (case send_inner K T env d body of
       None \<Rightarrow> (d, (500, False, ''task join failed''))
     | Some (d, Inl e) \<Rightarrow> (d, (400, False, e))
     | Some (d, Inr msg) \<Rightarrow> (d, (200, True, msg)))"

section \<open>Arguments\<close>

datatype ui_start = Ui_Help | Ui_Exit string | Ui_Panic string | Ui_Serve string string

definition LOOPBACK :: string where "LOOPBACK = ''127.0.0.1''"

fun parse_ui_from :: "string \<Rightarrow> string \<Rightarrow> string list \<Rightarrow> ui_start" where
  "parse_ui_from dir listen [] =
    (if \<not> prefix (LOOPBACK @ '':'') listen \<and> listen \<noteq> LOOPBACK
     then Ui_Exit (''Refusing to bind '' @ listen @ '': use 127.0.0.1 only (local testing tool).'')
     else Ui_Serve dir (if listen = LOOPBACK then LOOPBACK @ '':9847'' else listen))"
| "parse_ui_from dir listen (a # args) =
    (if a = ''--data-dir'' then (case args of [] \<Rightarrow> Ui_Panic ''--data-dir needs a path'' | v # args \<Rightarrow> parse_ui_from v listen args)
     else if a = ''--listen'' then (case args of [] \<Rightarrow> Ui_Panic ''--listen needs ADDR:PORT'' | v # args \<Rightarrow> parse_ui_from dir v args)
     else Ui_Exit (''unknown arg: '' @ a))"

definition parse_ui_args :: "string list \<Rightarrow> ui_start" where
  "parse_ui_args args =
    (if ''-h'' \<in> set args \<or> ''--help'' \<in> set args then Ui_Help
     else parse_ui_from ''data-a'' (LOOPBACK @ '':9847'') args)"

section \<open>What the tool does\<close>

text \<open>It never serves on anything but the loopback address.\<close>

lemma parse_ui_localhost: "parse_ui_from dir listen args = Ui_Serve dir' listen' \<Longrightarrow> prefix (LOOPBACK @ '':'') listen'"
  by (induction dir listen args rule: parse_ui_from.induct) (auto split: if_splits list.splits simp: prefix_def)

lemma push_recent_eq: "push_recent recent txs = recent @ take (40 - length recent) (map tx_summary_of txs)"
  by (induction recent txs rule: push_recent.induct) (auto simp: take_Cons')

text \<open>
  The list of recent transactions holds the first forty of the last twenty blocks, oldest first.
\<close>

lemma recent_fold:
  "length recent \<le> 40 \<Longrightarrow> fold (\<lambda>b recent. push_recent recent (transactions b)) bs recent =
     take 40 (recent @ map tx_summary_of (concat (map transactions bs)))"
proof (induction bs arbitrary: recent)
  case (Cons b bs)
  have "40 - (length recent + min n (40 - length recent)) = 40 - (length recent + n)" for n by simp
  with Cons show ?case by (simp add: push_recent_eq)
qed simp

lemma recent_txs:
  "activity_inner K T env d = Inr out \<Longrightarrow>
    \<exists>g chain. load_genesis T env d = Inr g \<and> load_chain_readonly K d g = Inr chain \<and> act_recent_txs out = take 40 (map tx_summary_of (concat (map transactions (last_blocks 20 chain))))"
  by (auto simp: activity_inner_def and_then_Inr_iff Let_def recent_fold)

section \<open>Sending from the tool and from the command line\<close>

lemma replay_ok:
  "(case p of (_, Inl e) \<Rightarrow> Inl (h e) | (chain, Inr (_ :: unit)) \<Rightarrow> Inr (k chain)) = Inr x \<longleftrightarrow> (\<exists>chain. p = (chain, Inr ()) \<and> k chain = x)"
  by (auto split: prod.split sum.split)

lemma load_chain_readonly_ok:
  "load_chain_readonly K d g = Inr chain \<longleftrightarrow>
    (\<exists>repaired. load_blockchain_from_disk K rw (dd_chain d) g = (dd_chain d, Inr (chain, repaired)))"
proof -
  have replay: "load_blockchain_from_disk K rw (dd_chain d) g = (dd_chain d, Inr (chain, repaired)) \<longleftrightarrow>
      (\<exists>bs bc. read_all_blocks_repairing_tail rw (dd_chain d) = (dd_chain d, Inr (bs, repaired)) \<and>
        blockchain_from_genesis g = Inr bc \<and> run_steps (append_block K) bc bs = (chain, Inr ()))" for repaired
    by (cases "read_all_blocks_repairing_tail rw (dd_chain d)"; cases "snd (read_all_blocks_repairing_tail rw (dd_chain d))")
      (auto simp: load_blockchain_from_disk_def chain_from_genesis_def and_then_Inr_iff replay_ok)
  have "load_chain_readonly K d g = Inr chain \<longleftrightarrow>
      (\<exists>bs bc. read_all_blocks (dd_chain d) = Inr bs \<and> blockchain_from_genesis g = Inr bc \<and> run_steps (append_block K) bc bs = (chain, Inr ()))"
    by (auto simp: load_chain_readonly_def and_then_Inr_iff replay_ok)
  with replay unchanged_not_repaired [of rw "dd_chain d"] show ?thesis by (metis read_without_repair)
qed

lemma ui_load_wallet_ok: "ui_load_wallet env d = Inr w \<longleftrightarrow> load_wallet (ue_cmd env) d = Inr w"
  by (auto simp: ui_load_wallet_def load_wallet_def split: option.splits)

lemma load_genesis_ok: "load_genesis T env d = Inr g \<longleftrightarrow> load_genesis_for_cmd T (ue_cmd env) d None = Inr g"
  by (simp add: load_genesis_def load_genesis_for_cmd_def resolve_genesis_path_def genesis_path_name_def split: option.split)

lemma queue_and_bind_ok:
  "queue_and_bind K T env d g tx = Some (d', Inr ()) \<longleftrightarrow>
    (\<exists>f b. append_pending_transaction (ce_queue env) (dd_pending d) tx = Some (f, Inr ()) \<and>
      ensure_binding_if_missing (bind_rd T) (bind_wr T) K (ce_bind env) (dd_bind d) g = (b, Inr ()) \<and>
      d' = d\<lparr>dd_pending := f, dd_bind := b\<rparr>)"
  by (cases "append_pending_transaction (ce_queue env) (dd_pending d) tx";
      cases "ensure_binding_if_missing (bind_rd T) (bind_wr T) K (ce_bind env) (dd_bind d) g")
    (auto simp: queue_and_bind_def Let_def split: sum.splits)

lemma with_message_ok:
  "map_option (\<lambda>(d, r). (d, and_then r (\<lambda>_. Inr m))) q = Some (d', Inr msg) \<longleftrightarrow> q = Some (d', Inr (() :: unit)) \<and> msg = m"
  by (cases q) (auto simp: and_then_Inr_iff)

text \<open>A send that succeeds, step by step: from the tool, and from the command line.\<close>

lemma send_inner_ok:
  "send_inner K T env d body = Some (d', Inr msg) \<longleftrightarrow>
    (\<exists>w g chain acct tx f b.
      load_wallet (ue_cmd env) d = Inr w \<and> load_genesis_for_cmd T (ue_cmd env) d None = Inr g \<and>
      verify_binding_if_present (bind_rd T) K (bi_read (ce_bind (ue_cmd env))) (dd_bind d) g = Inr () \<and>
      load_chain_readonly K d g = Inr chain \<and> get_account (bc_state chain) (wallet_address K w) = Some acct \<and>
      sign_transfer K w (Address (sb_receiver body)) (sb_amount body) (sb_fee body)
        (case sb_nonce body of None \<Rightarrow> acc_nonce acct | Some n \<Rightarrow> n) (ce_now (ue_cmd env)) = Inr tx \<and>
      append_pending_transaction (ce_queue (ue_cmd env)) (dd_pending d) tx = Some (f, Inr ()) \<and>
      ensure_binding_if_missing (bind_rd T) (bind_wr T) K (ce_bind (ue_cmd env)) (dd_bind d) g = (b, Inr ()) \<and>
      d' = d\<lparr>dd_pending := f, dd_bind := b\<rparr> \<and>
      msg = send_message tx (case sb_nonce body of None \<Rightarrow> acc_nonce acct | Some n \<Rightarrow> n) body acct)"
proof (cases "ui_load_wallet env d"; cases "load_genesis T env d")
  fix w g assume wg: "ui_load_wallet env d = Inr w" "load_genesis T env d = Inr g"
  note wg' = wg [unfolded ui_load_wallet_ok load_genesis_ok]
  show ?thesis
  proof (cases "load_chain_readonly K d g")
    case (Inr chain)
    with wg wg' show ?thesis
      by (cases "get_account (bc_state chain) (wallet_address K w)";
          cases "verify_binding_if_present (bind_rd T) K (bi_read (ce_bind (ue_cmd env))) (dd_bind d) g")
        (auto simp: send_inner_def Let_def with_message_ok queue_and_bind_ok simp del: map_option_eq_Some split: sum.splits)
  qed (use wg wg' in \<open>auto simp: send_inner_def split: sum.splits\<close>)
qed (auto simp: send_inner_def simp flip: ui_load_wallet_ok load_genesis_ok split: sum.splits)


lemma cmd_send_ok:
  "cmd_send K T env d None recv amt fe = Some (d', Inr ()) \<longleftrightarrow>
    ce_mkdir env = None \<and> (\<exists>w g chain acct tx f b c repaired.
      load_wallet env d = Inr w \<and> load_genesis_for_cmd T env d None = Inr g \<and>
      verify_binding_if_present (bind_rd T) K (bi_read (ce_bind env)) (dd_bind d) g = Inr () \<and>
      load_blockchain_from_disk K (ce_rewrite_chain env) (dd_chain d) g = (c, Inr (chain, repaired)) \<and>
      get_account (bc_state chain) (wallet_address K w) = Some acct \<and>
      sign_transfer K w (Address recv) amt fe (acc_nonce acct) (ce_now env) = Inr tx \<and>
      append_pending_transaction (ce_queue env) (dd_pending d) tx = Some (f, Inr ()) \<and>
      ensure_binding_if_missing (bind_rd T) (bind_wr T) K (ce_bind env) (dd_bind d) g = (b, Inr ()) \<and>
      d' = d\<lparr>dd_chain := c, dd_bind := b, dd_pending := f\<rparr>)"
  by (auto simp: cmd_send_def open_data_dir_def Let_def split: sum.splits option.splits prod.splits)

lemma ui_agrees:
  assumes "ce_mkdir (ue_cmd env) = None"
  shows "(\<exists>msg. send_inner K T env d \<lparr>sb_receiver = recv, sb_amount = amt, sb_fee = fe, sb_nonce = None\<rparr> = Some (d', Inr msg)) \<longleftrightarrow>
    cmd_send K T (ue_cmd env) d None recv amt fe = Some (d', Inr ()) \<and> dd_chain d' = dd_chain d"
proof -
  let ?rw = "ce_rewrite_chain (ue_cmd env)"
  have upd: "d\<lparr>dd_chain := dd_chain d, dd_bind := b, dd_pending := f\<rparr> = d\<lparr>dd_pending := f, dd_bind := b\<rparr>" for b f by simp
  show ?thesis unfolding send_inner_ok cmd_send_ok load_chain_readonly_ok [of K d _ _ ?rw] using assms by (auto simp: upd)
qed

text \<open>
  C21. The tool queues transactions as \<open>node send\<close> does.  Without an override of the nonce it succeeds
  exactly if \<open>send\<close> would succeed on the same directory without having to repair the block file, and
  then leaves exactly the same directory.
\<close>

theorem ui_send_like_node:
  assumes "ce_mkdir (ue_cmd env) = None"
  shows "(\<exists>msg. send_inner K T env d \<lparr>sb_receiver = recv, sb_amount = amt, sb_fee = fe, sb_nonce = None\<rparr> = Some (d', Inr msg)) \<longleftrightarrow>
    cmd_send K T (ue_cmd env) d None recv amt fe = Some (d', Inr ()) \<and> dd_chain d' = dd_chain d"
  using assms by (rule ui_agrees)

section \<open>What the tool shows of a running node\<close>

text \<open>
  C22. The tool shows what the node has committed.  While a node runs and no write failed, in every state
  that it can reach the account view of the tool, reading the block file and the genesis of the node, shows for
  every address exactly the balance and nonce in the memory of the node, and the overview its height and
  the hash of its tip.
\<close>

theorem ui_shows_committed_state:
  assumes "digest_format K" "run_start K T renv config d = (d1, Inr (w, n0))"
    and "run_begin K T renv config d1 n0 = Some (d2, Inr s0)" "(node_step K T config)\<^sup>*\<^sup>* s0 s"
    and "\<not> poisoned (ni_store (rs_node s))"
    and "dd_chain v = Some (bs_file (ni_store (rs_node s)))" "load_genesis T env v = Inr (ni_genesis n0)"
  shows "account_inner K T env v addr =
      (let ac = get_account (bc_state (ni_chain (rs_node s))) (Address addr) in
       \<lparr>ao_address = addr, ao_found = (ac \<noteq> None), ao_balance = map_option balance ac, ao_nonce = map_option acc_nonce ac, ao_error = None\<rparr>) \<and>
    (\<exists>out. overview_inner K T env dir v = Inr out \<and> ov_chain_error out = None \<and> ov_height out = bc_height (ni_chain (rs_node s)) \<and>
      ov_tip_hash out = block_hash (last (bc_blocks (ni_chain (rs_node s)))))"
proof -
  let ?c = "ni_chain (rs_node s)"
  from started_node [OF assms(1-4)] have ok: "chain_ok K (ni_genesis n0) ?c" "store_holds (ni_store (rs_node s)) (tl (bc_blocks ?c))"
    using assms(5) by (auto simp: node_inv_def grows_def)
  from reload_ignores_drift [OF this, of None] have "load_chain_readonly K v (ni_genesis n0) = Inr (?c\<lparr>bc_consensus := default_consensus_params\<rparr>)"
    using assms(6) by (auto simp: load_chain_readonly_ok [of _ _ _ _ None])
  moreover have "bc_blocks ?c \<noteq> []" using ok(1) by (auto simp: chain_ok_def chain_inv_def chain_wf_def)
  ultimately show ?thesis using assms(7)
    by (auto simp: account_inner_def overview_inner_def bc_height_def Let_def split: option.split prod.split)
qed

section \<open>An error after the fact\<close>

abbreviation bind_lock_fails :: "cmd_env \<Rightarrow> string \<Rightarrow> cmd_env" where
  "bind_lock_fails env e \<equiv> env\<lparr>ce_bind := (ce_bind env)\<lparr>bi_mkdir := None, bi_lock := Some e\<rparr>\<rparr>"

lemma ensure_lock_fails:
  "ensure_binding_if_missing rd wr K (io\<lparr>bi_mkdir := None, bi_lock := Some e\<rparr>) path g =
    (path, Inl (PFX_STARTUP @ '' fail-closed: could not lock '' @ e))"
  by (simp add: ensure_binding_if_missing_def)

lemma open_data_dir_bind_error:
  "open_data_dir K T (bind_lock_fails env e) d gf = (d', Inr x) \<Longrightarrow> False"
  by (auto simp: open_data_dir_def ensure_lock_fails Let_def split: sum.splits prod.splits)

text \<open>
  C23. The tool queues before it binds.  If a send would succeed but the lock of the bind file cannot be
  taken, the tool answers 400 with an error although the transaction is in the queue, exactly as after
  a success; \<open>node send\<close>, which binds first, leaves the queue alone in the same situation.
\<close>

theorem ui_error_after_queueing:
  assumes "send_inner K T env d body = Some (d1, Inr msg)"
  shows "post_send K T (env\<lparr>ue_cmd := bind_lock_fails (ue_cmd env) e\<rparr>) d body =
      (d\<lparr>dd_pending := dd_pending d1\<rparr>, (400, False, PFX_STARTUP @ '' fail-closed: could not lock '' @ e)) \<and>
    (\<forall>d2 r. cmd_send K T (bind_lock_fails (ue_cmd env) e) d None (sb_receiver body) (sb_amount body) (sb_fee body) = Some (d2, r) \<longrightarrow>
      r \<noteq> Inr () \<and> dd_pending d2 = dd_pending d)"
proof -
  let ?env = "env\<lparr>ue_cmd := bind_lock_fails (ue_cmd env) e\<rparr>"
  have same: "load_genesis T ?env d = load_genesis T env d" "ui_load_wallet ?env d = ui_load_wallet env d"
    by (simp_all add: load_genesis_def ui_load_wallet_def split: option.split)
  from assms obtain w g chain acct tx f where
    ok: "ui_load_wallet env d = Inr w" "load_genesis T env d = Inr g"
      "verify_binding_if_present (bind_rd T) K (bi_read (ce_bind (ue_cmd env))) (dd_bind d) g = Inr ()"
      "load_chain_readonly K d g = Inr chain" "get_account (bc_state chain) (wallet_address K w) = Some acct"
      "sign_transfer K w (Address (sb_receiver body)) (sb_amount body) (sb_fee body)
        (case sb_nonce body of None \<Rightarrow> acc_nonce acct | Some n \<Rightarrow> n) (ce_now (ue_cmd env)) = Inr tx"
      "append_pending_transaction (ce_queue (ue_cmd env)) (dd_pending d) tx = Some (f, Inr ())" "dd_pending d1 = f"
    unfolding send_inner_ok by (auto simp flip: ui_load_wallet_ok load_genesis_ok)
  then have "send_inner K T ?env d body = Some (d\<lparr>dd_pending := f\<rparr>, Inl (PFX_STARTUP @ '' fail-closed: could not lock '' @ e))"
    by (simp add: send_inner_def same queue_and_bind_def ensure_lock_fails Let_def)
  moreover have "r \<noteq> Inr () \<and> dd_pending d2 = dd_pending d"
    if s: "cmd_send K T (bind_lock_fails (ue_cmd env) e) d None recv amt fe = Some (d2, r)" for d2 r recv amt fe
  proof -
    obtain d3 r3 where op: "open_data_dir K T (bind_lock_fails (ue_cmd env) e) d None = (d3, r3)" by fastforce
    have "dd_pending d3 = dd_pending d" by (subst open_data_dir_frame [OF op]) simp
    with s op show ?thesis
      by (cases r3) (auto simp: cmd_send_def dest: open_data_dir_bind_error split: option.splits)
  qed
  ultimately show ?thesis using ok(8) by (simp add: post_send_def)
qed

end
