(* ===== verification/Examples_Process.thy ===== *)
theory Examples_Process
  imports Examples_Run Listener Dev_Test_Ui
begin

text \<open>The listener and the test tool on the small network of \<open>Examples\<close>.\<close>

section \<open>A node with a listener\<close>

definition serving_config :: run_config where
  "serving_config = run_defaults\<lparr>rc_listen := Some ''127.0.0.1:9333''\<rparr>"

definition bound_io :: listen_io where
  "bound_io = \<lparr>lo_bind = None, lo_addr = Inr ''127.0.0.1:9333''\<rparr>"

lemma process_starts:
  "\<exists>d1 d2 w n0 d3 s0 p0 l. run_start toy_crypto tiny_toml calm_run serving_config d1 = (d2, Inr (w, n0)) \<and>
     run_begin toy_crypto tiny_toml calm_run serving_config d2 n0 = Some (d3, Inr s0) \<and>
     process_begin serving_config bound_io s0 = Some p0 \<and> pr_listener p0 = Some l \<and> ls_listening l \<and> ls_threads l = [] \<and>
     ls_active l = 0 \<and> ls_max l = 128"
proof -
  have "\<exists>p0 l. process_begin serving_config bound_io s0 = Some p0 \<and> pr_listener p0 = Some l \<and> ls_listening l \<and> ls_threads l = [] \<and>
     ls_active l = 0 \<and> ls_max l = 128" for s0
    by (simp add: process_begin_def serving_config_def run_defaults_def bound_io_def spawn_incoming_loop_def default_inbound_policy_def)
  with listening_node_starts [of "Some ''127.0.0.1:9333''"] show ?thesis unfolding serving_config_def [symmetric] by metis
qed

text \<open>One peer has connected and has its thread.\<close>

theorem process_witness:
  "\<exists>p l. pr_listener p = Some l \<and> ls_threads l = [Starting quiet_conn] \<and> ls_active l = 1 \<and>
     chain_inv toy_crypto (ni_genesis (shared p)) (ni_chain (shared p)) \<and>
     session_round toy_crypto (undisturbed alone) default_inbound_policy (quiet_conn, shared p, session_start) \<noteq> None"
proof -
  from process_starts obtain d1 d2 w n0 d3 s0 p0 l where
    s: "run_start toy_crypto tiny_toml calm_run serving_config d1 = (d2, Inr (w, n0))"
      "run_begin toy_crypto tiny_toml calm_run serving_config d2 n0 = Some (d3, Inr s0)"
      "process_begin serving_config bound_io s0 = Some p0"
    and l: "pr_listener p0 = Some l" "ls_listening l" "ls_threads l = []" "ls_active l = 0" "ls_max l = 128" by blast
  define p where "p = p0\<lparr>pr_listener := Some (serve_accept (Accepted quiet_conn True) l)\<rparr>"
  have "process_step toy_crypto tiny_toml serving_config p0 p" unfolding p_def by (rule process_step.accept [OF l(1,2)])
  then have "(process_step toy_crypto tiny_toml serving_config)\<^sup>*\<^sup>* p0 p" by (rule r_into_rtranclp)
  from process_safe [OF toy_digest_format s this, of quiet_conn calm_tick alone default_inbound_policy quiet_conn session_start]
  have "chain_inv toy_crypto (ni_genesis (shared p)) (ni_chain (shared p))"
    "session_round toy_crypto (undisturbed alone) default_inbound_policy (quiet_conn, shared p, session_start) \<noteq> None"
    by (auto simp: grows_def)
  with l show ?thesis by (intro exI [of _ p]) (simp add: p_def serve_accept_def)
qed

theorem typed_witness:
  "\<exists>p. \<not> poisoned (ni_store (shared p)) \<and> genesis_block \<in> set (bc_blocks (ni_chain (shared p))) \<and>
     (\<exists>bs. encode_block genesis_block = Some bs \<and> decode_block bs = Inr genesis_block)"
proof -
  from process_starts obtain d1 d2 w n0 d3 s0 p0 where
    s: "run_start toy_crypto tiny_toml calm_run serving_config d1 = (d2, Inr (w, n0))"
      "run_begin toy_crypto tiny_toml calm_run serving_config d2 n0 = Some (d3, Inr s0)"
      "process_begin serving_config bound_io s0 = Some p0" by blast
  have n0: "node_inv toy_crypto n0" "\<not> poisoned (ni_store n0)" using run_start_inv [OF toy_digest_format s(1)] by blast+
  have "rs_node s0 = n0" using s(2) by (auto simp: run_begin_def serving_config_def run_defaults_def split: option.splits)
  then have p0: "shared p0 = n0" using process_begin_inv [OF toy_digest_format _ s(3)] n0(1) by simp
  moreover have "genesis_block \<in> set (bc_blocks (ni_chain n0))"
    using n0(1) by (auto simp: node_inv_def chain_ok_def chain_inv_def chain_wf_def)
  ultimately show ?thesis
    using node_values_typed [OF toy_digest_format s rtranclp.rtrancl_refl] n0(2) by (intro exI [of _ p0]) auto
qed

section \<open>The test tool\<close>

definition calm_ui :: ui_env where
  "calm_ui = \<lparr>ue_cmd = calm_cmd, ue_not_found = ''not found'', ue_lock = lock_free, ue_read_pending = None, ue_read_book = None,
     ue_book_addrs = (\<lambda>_. Inr [])\<rparr>"

definition ex_body :: send_body where
  "ex_body = \<lparr>sb_receiver = str addr_b, sb_amount = 5, sb_fee = 1, sb_nonce = None\<rparr>"

lemma ex_send:
  "\<exists>d1 d2. cmd_init toy_crypto tiny_toml calm_cmd empty_dir (Some 100) = (d1, Inr ()) \<and> dd_pending d1 = None \<and> dd_pending d2 \<noteq> None \<and>
     cmd_send toy_crypto tiny_toml calm_cmd d1 None (str addr_b) 5 1 = Some (d2, Inr ()) \<and> dd_chain d2 = dd_chain d1"
proof -
  from init_ok obtain d1 where d1: "cmd_init toy_crypto tiny_toml calm_cmd empty_dir (Some 100) = (d1, Inr ())" ..
  from cmd_init_ok [OF tiny_genesis_round_trip d1] have "dd_pending d1 = None" by (auto simp: empty_dir_def)
  moreover from first_send [OF toy_digest_format toy_signing_correct tiny_bind_round_trip tiny_genesis_round_trip tiny_bind_writes d1
      _ _ _ _ calm_cmd_calm addr_rust(2), of 5 1] addrs_valid(2)
  obtain b f where "cmd_send toy_crypto tiny_toml calm_cmd d1 None (str addr_b) 5 1 = Some (d1\<lparr>dd_bind := Some b, dd_pending := Some f\<rparr>, Inr ())"
    by (auto simp: empty_dir_def)
  ultimately show ?thesis using d1 by (intro exI [of _ d1] exI [of _ "d1\<lparr>dd_bind := Some b, dd_pending := Some f\<rparr>"]) simp
qed

theorem ui_send_witness:
  "\<exists>d1 d2 msg. send_inner toy_crypto tiny_toml calm_ui d1 ex_body = Some (d2, Inr msg) \<and>
     cmd_send toy_crypto tiny_toml calm_cmd d1 None (str addr_b) 5 1 = Some (d2, Inr ()) \<and> dd_pending d1 = None \<and> dd_pending d2 \<noteq> None"
proof -
  from ex_send obtain d1 d2 where d: "dd_pending d1 = None" "dd_pending d2 \<noteq> None" "dd_chain d2 = dd_chain d1"
    "cmd_send toy_crypto tiny_toml calm_cmd d1 None (str addr_b) 5 1 = Some (d2, Inr ())" by blast
  from ui_send_like_node [of calm_ui toy_crypto tiny_toml d1 "str addr_b" 5 1 d2] d show ?thesis
    by (auto simp: calm_ui_def ex_body_def)
qed

lemma ex_ui_send:
  "\<exists>d1 d2 msg. send_inner toy_crypto tiny_toml calm_ui d1 ex_body = Some (d2, Inr msg) \<and> dd_pending d1 = None \<and> dd_pending d2 \<noteq> None"
proof -
  from ex_send obtain d1 d2 where d: "dd_pending d1 = None" "dd_pending d2 \<noteq> None" "dd_chain d2 = dd_chain d1"
    "cmd_send toy_crypto tiny_toml calm_cmd d1 None (str addr_b) 5 1 = Some (d2, Inr ())" by blast
  then have "\<exists>msg. send_inner toy_crypto tiny_toml calm_ui d1 ex_body = Some (d2, Inr msg)"
    by (simp add: ui_agrees calm_ui_def ex_body_def)
  with d show ?thesis by blast
qed

theorem ui_error_witness:
  "\<exists>d1 d2 e. post_send toy_crypto tiny_toml (calm_ui\<lparr>ue_cmd := bind_lock_fails calm_cmd ''denied''\<rparr>) d1 ex_body = (d2, (400, False, e)) \<and>
     dd_pending d1 = None \<and> dd_pending d2 \<noteq> None"
proof -
  from ex_ui_send obtain d1 d2 msg where d: "dd_pending d1 = None" "dd_pending d2 \<noteq> None"
    "send_inner toy_crypto tiny_toml calm_ui d1 ex_body = Some (d2, Inr msg)" by blast
  from ui_error_after_queueing [OF d(3), of "''denied''"] d(1,2) show ?thesis
    by (intro exI [of _ d1] exI [of _ "d1\<lparr>dd_pending := dd_pending d2\<rparr>"]) (simp add: calm_ui_def)
qed

theorem ui_view_witness:
  "\<exists>v (n0 :: node_inner) out. account_inner toy_crypto tiny_toml calm_ui v (str addr_b) =
      (let ac = get_account (bc_state (ni_chain n0)) (Address (str addr_b)) in
       \<lparr>ao_address = str addr_b, ao_found = (ac \<noteq> None), ao_balance = map_option balance ac, ao_nonce = map_option acc_nonce ac, ao_error = None\<rparr>) \<and>
     overview_inner toy_crypto tiny_toml calm_ui ''data-a'' v = Inr out \<and> ov_tip_hash out = block_hash (last (bc_blocks (ni_chain n0)))"
proof -
  from node_starts obtain d1 d2 w n0 d3 s0 where
    s: "run_start toy_crypto tiny_toml calm_run run_defaults d1 = (d2, Inr (w, n0))"
      "run_begin toy_crypto tiny_toml calm_run run_defaults d2 n0 = Some (d3, Inr s0)" and eq: "rs_node s0 = n0" by blast
  have np: "\<not> poisoned (ni_store (rs_node s0))" using run_start_inv [OF toy_digest_format s(1)] eq by blast
  obtain d' chain where "open_data_dir toy_crypto tiny_toml calm_cmd d1 None = (d', Inr (w, ni_genesis n0, chain))"
    by (rule run_start_ok [OF s(1)]) (simp add: calm_run_def run_defaults_def)
  from open_data_dir_ok [OF toy_digest_format tiny_bind_round_trip this]
  have "load_genesis_for_cmd tiny_toml calm_cmd d1 None = Inr (ni_genesis n0)" by blast
  then have "load_genesis tiny_toml calm_ui (d1\<lparr>dd_chain := c\<rparr>) = Inr (ni_genesis n0)" for c
    by (simp add: load_genesis_ok load_genesis_for_cmd_def resolve_genesis_path_def calm_ui_def)
  then have g: "load_genesis tiny_toml calm_ui (d1\<lparr>dd_chain := Some (bs_file (ni_store n0))\<rparr>) = Inr (ni_genesis n0)" .
  have c: "dd_chain (d1\<lparr>dd_chain := Some (bs_file (ni_store n0))\<rparr>) = Some (bs_file (ni_store (rs_node s0)))" by (simp add: eq)
  from ui_shows_committed_state [OF toy_digest_format s rtranclp.rtrancl_refl np c g, of "str addr_b" "''data-a''", unfolded eq]
  show ?thesis by blast
qed

end
