(* ===== verification/Spec2Isabelle.thy ===== *)
theory Spec2Isabelle
  imports Examples_V3 Examples_Process
begin

text \<open>
  Verification of the Trilogicon reference node (\<open>src/node\<close>): a small account-based chain with one
  linear history, signed transfers, a mempool, a block file with checksums, a binary wire protocol,
  peers, a command line, and an experimental layer (\<open>v3\<close>) that plans reorganisations without carrying
  them out.

  \<^bold>\<open>The program and its parts.\<close>  \<open>init\<close> creates a wallet and a genesis document in a data directory,
  \<open>send\<close> signs a transfer and appends it to a queue file, and \<open>run\<close> is the node: it replays
  \<open>chain.blocks\<close>, listens for peers, and in each round of its loop drains the queue into the mempool,
  seals a block, writes it, synchronises with peers and gossips the new block.  Sessions of inbound
  peers run in threads that share one \<open>NodeInner\<close> behind a mutex.  A second program, \<open>src/dev-test-ui\<close>, is a
  local web tool that shows a data directory without changing its blocks and queues transactions.

  \<^bold>\<open>Theories and sources\<close> (files under \<open>src/node/src\<close>).

  \<^item> \<open>Tril_Prelude\<close>, \<open>Rust_Strings\<close>: results, checked and saturating arithmetic on words, big-endian
    integers, loops over \<open>Result\<close> (\<open>run_steps\<close>, \<open>try_fold\<close>), files, the locale \<open>stepwise\<close> of state
    machines; UTF-8, \<open>trim\<close>, decimal numbers.
  \<^item> \<open>Crypto\<close> (\<open>crypto.rs\<close>, \<open>types.rs\<close>, \<open>errors.rs\<close>), \<open>Transaction\<close>, \<open>Wallet\<close>, \<open>Block\<close> (with \<open>consensus.rs\<close>),
    \<open>Genesis\<close>, \<open>Ledger\<close> (\<open>state.rs\<close>), \<open>Mempool\<close>, \<open>Blockchain\<close>: the core, named after the source files.
  \<^item> \<open>Encoding\<close>, \<open>Storage\<close>, \<open>Pending_File\<close> (\<open>pending_tx_file.rs\<close>), \<open>Data_Dir_Bind\<close>, \<open>Peer_Book\<close>,
    \<open>Seen_Cache\<close> (\<open>seen.rs\<close>): codecs and everything on disk.
  \<^item> \<open>Wire\<close>, \<open>Node\<close>, \<open>Slot_Pool\<close>, \<open>Sync\<close>: \<open>network.rs\<close>, split into frames, handshake and codecs; shared
    state, message handling and inbound sessions; the counter of session slots; outbound
    synchronisation and gossip.
  \<^item> \<open>Cli\<close>, \<open>Commands\<close>, \<open>Run_Loop\<close>: \<open>main.rs\<close>, split into arguments; \<open>init\<close>, \<open>send\<close> and the opening of a data
    directory; start-up and one round of \<open>run\<close>.
  \<^item> \<open>File_Lock\<close> (\<open>file_lock.rs\<close>), \<open>Listener\<close>: the attempt on the run lock; \<open>network.rs\<close> again, with the accept
    loop, the threads of sessions and the interleaving of all threads of the process.
  \<^item> \<open>Dev_Test_Ui\<close> (\<open>src/dev-test-ui/src/main.rs\<close>): the views, sending and the arguments of the tool.
  \<^item> \<open>Block_Index\<close>, \<open>Branch_Select\<close>, \<open>Reorg_Plan\<close> (with \<open>reorg_preflight.rs\<close>), \<open>Replay_Sandbox\<close>: \<open>v3/\<close>.
  \<^item> \<open>Sizes\<close>, \<open>Commit\<close>, \<open>Catch_Up\<close>: no code of their own; results across components.
  \<^item> \<open>Examples\<close>, \<open>Examples_Store\<close>, \<open>Examples_Node\<close>, \<open>Examples_V3\<close>, \<open>Examples_Run\<close>, \<open>Examples_Process\<close>: a
    concrete small network over \<open>toy_crypto\<close> on which the properties are exhibited.

  \<^bold>\<open>Conventions.\<close>  A struct is a record, an enum a datatype, an unsigned integer a word of its width;
  \<open>usize\<close> is \<open>nat\<close> (a 64-bit platform is assumed where the code converts).  \<open>Result\<close> is a sum with the error on
  the left; \<open>&mut self\<close> returns the new state beside the result; a panic is an outer \<open>None\<close>.  A \<open>HashMap\<close>
  or \<open>BTreeMap\<close> is a finite map; where the source iterates over a \<open>HashMap\<close> the model fixes an order and
  a lemma shows that it does not matter.  A \<open>String\<close> is a HOL string whose bytes are UTF-8
  (\<open>rust_string\<close>).  \<open>+\<close> on words wraps, as in a release build.  Text printed for the operator is left
  out, and explanatory tails of error messages are shortened.  The Unix branch of conditional code
  is modelled.

  \<^bold>\<open>Parameters.\<close>  SHA-256, hexadecimal and Ed25519 are the record \<open>crypto\<close>; what is relied on are the
  named hypotheses \<open>digest_format\<close>, \<open>hex_injective\<close>, \<open>signing_correct\<close> and, where two documents are compared,
  \<open>collision_free\<close> on the inputs involved.  The \<open>toml\<close> package is the record \<open>toml_lib\<close> with \<open>toml_round_trip\<close>,
  \<open>bind_round_trip\<close> and \<open>genesis_round_trip\<close>.  The operating system is given by outcomes: \<open>io_plan\<close> for a
  block write (which may stop after any byte, and whose sync may fail), \<open>queue_io\<close>, \<open>bind_io\<close>,
  \<open>write_outcome\<close>, \<open>lock_io\<close>, \<open>listen_io\<close>, \<open>accept_event\<close>, \<open>cmd_env\<close>, \<open>run_env\<close>, \<open>tick_env\<close>, \<open>ui_env\<close>.  A TCP stream is the record \<open>conn\<close>: the bytes that
  will arrive, how it ends, and how many bytes can still be written.

  \<^bold>\<open>What is shown.\<close>

  \<^item> Core: transfers move exactly amount and fee, nonces have no gaps, supply plus burned fees is
    constant and no balance overflows; the three indexes of the pool agree under every operation,
    and it behaves as a bounded queue; every operation on a chain keeps it well formed with its
    state the replay of its blocks; the tip hash determines the whole chain and state.
  \<^item> Data: each decoder accepts exactly the encodings, one per value; a torn or damaged block file
    is detected, and never read as something else; draining the queue loses nothing; a directory
    stays bound to its first genesis; back-off windows.
  \<^item> Network: the handshake admits exactly peers with the same commitment; an inbound session and a
    synchronisation always end, never panic and keep \<open>node_inv\<close>, whatever the other side
    sends: the chain is valid, and the block file holds exactly its blocks, or, once a write has failed,
    begins with all of them; slots are never over-allocated.
  \<^item> Composition: from start-up on, under every interleaving of rounds, messages and sends, the node
    keeps \<open>node_inv\<close> and its chain only grows, and if no write failed a restart reads back exactly what
    it had (\<open>Run_Loop\<close>); on a node that produces alone, one round commits up to 64 queued transfers that
    apply one after the other (\<open>Commit\<close>); a node catches up with an honest peer on a longer chain, where
    both sides run the modelled code and the peer answers the very bytes the client writes, within the
    work budget, the clock drift and the frame size (\<open>Catch_Up\<close>); \<open>init\<close> and \<open>send\<close> do what they
    report, and the command line accepts exactly the configurations in range (\<open>Commands\<close>, \<open>Cli\<close>).
  \<^item> Process: whatever the threads of a node do, in any order, amounts to steps of \<open>Run_Loop\<close>; sessions
    and slots correspond one to one and never exceed the limit; everything the node holds is a
    well-formed value of the wire format (\<open>Listener\<close>).
  \<^item> Test tool: it shows what a running node has committed and queues exactly what \<open>send\<close> would queue;
    but it reports an error for a transaction already queued if binding fails (\<open>Dev_Test_Ui\<close>).
  \<^item> \<open>v3\<close>: fork points are the deepest common ancestors, refused exactly if the two paths are disjoint;
    unless a block is filed under the empty hash, structural validation accepts exactly the plans that
    planning computes from a fork with valid ancestry; a completed sandbox replay predicts the real append.

  Interfaces are locales, interpreted where they are provided: \<open>ledger\<close>, \<open>tx_queue\<close>, \<open>hash_chain\<close>,
  \<open>field_codec\<close> with \<open>framing\<close> and \<open>framing_prefix\<close>, \<open>ancestry\<close>, and \<open>stepwise\<close> for the step relations of
  pool, chain, slots, running node and process.

  \<^bold>\<open>Loops and bounds.\<close>  There is no fuel.  The session loop ends because of the cap of 8192 frames, the
  synchronisation loop because of the round budget, parsing because every frame consumes input, the
  ancestor walks because of the limit on the path length that the code itself has (index size plus
  two), eviction and roll-back because the queue or chain gets shorter.  The endless loop of \<open>run\<close> is
  one round (\<open>run_tick\<close>) and the relation \<open>node_step\<close>.

  \<^bold>\<open>Environment of other threads and processes.\<close>  A round of the main loop holds the mutex throughout, and
  a session holds it per message, so these are the atomic steps.  Seen from one session
  (\<open>peer_connection_loop\<close>) other threads may change the node arbitrarily between messages as long as they
  keep \<open>node_inv\<close>; in \<open>process_step\<close> they are steps of their own.  Of a \<open>send\<close> in another process the step
  relations have its effect on the queue file; \<open>send\<close> also reads \<open>chain.blocks\<close>, and would cut an incomplete
  tail of one to three bytes, which only a write in progress or a crash leaves behind.

  \<^bold>\<open>Not modelled.\<close>  The calls to the operating system behind sockets, threads, files and locks; their
  outcomes are parameters, and time-outs of sockets appear as the ways a connection can end.  Sharing
  of the run lock between processes: \<open>lock_io\<close> says what an attempt gives.  HTTP, JSON and the static page of
  the test tool.  \<open>diag.rs\<close>, \<open>operator_msg.rs\<close> beyond the prefixes, the usage texts, module lists, plain
  accessors and reading the clock, which have no behaviour of their own.
\<close>

end
